(* ===== verification/Prelude.thy ===== *)
theory Prelude
  imports Main "HOL-Library.Word"
begin

text \<open>
  Shared vocabulary of the StateDB development: the faults a run of the program can
  end in, the result types \<open>'a res\<close> (straight-line code) and \<open>'a comp\<close> (code with
  pointer-chasing loops, where \<open>None\<close> is a run that never returns), the C integer
  conversions, and the generic lemmas on lists, bounds and results that the component
  theories share.
\<close>

section \<open>Faults and results\<close>

text \<open>
  What can stop an operation. The first group is undefined behaviour or a failed
  \<open>assert\<close>, the second group the exceptions of the sources: \<open>dtypes::unsufficient_space\<close>,
  \<open>invalid_dtype\<close> and \<open>db_exception\<close>, and the exception \<open>boost::optional::value\<close> throws.
\<close>

datatype fault =
    Null_Deref
  | Out_Of_Bounds
  | Bad_Cast
  | Use_After_Free
  | Missing_Return
  | System_Error
  | Div_By_Zero
  | Assert_Failed
  | Undefined_Operation
  | Bad_Optional
  | Unsufficient_Space
  | Invalid_Dtype nat
  | Db_Exception string

type_synonym 'a res = "fault + 'a"
type_synonym 'a comp = "(fault + 'a) option"

text \<open>Sequencing: the first fault is the outcome of the whole.\<close>

definition bindr :: "'a res \<Rightarrow> ('a \<Rightarrow> 'b res) \<Rightarrow> 'b res" where
  "bindr m f = (case m of Inl e \<Rightarrow> Inl e | Inr x \<Rightarrow> f x)"

text \<open>A straight-line result inside a computation.\<close>

abbreviation liftc :: "'a res \<Rightarrow> 'a comp" where
  "liftc r \<equiv> Some r"

definition bindc :: "'a comp \<Rightarrow> ('a \<Rightarrow> 'b comp) \<Rightarrow> 'b comp" where
  "bindc m f = Option.bind m (\<lambda>r. case r of Inl e \<Rightarrow> Some (Inl e) | Inr x \<Rightarrow> f x)"

abbreviation ret :: "'a \<Rightarrow> 'a comp" where
  "ret x \<equiv> Some (Inr x)"

abbreviation fail :: "fault \<Rightarrow> 'a comp" where
  "fail e \<equiv> Some (Inl e)"

text \<open>Reading through a pointer: an unallocated address is a fault.\<close>

definition deref :: "('a \<Rightarrow> 'b option) \<Rightarrow> 'a \<Rightarrow> 'b comp" where
  "deref m p = (case m p of None \<Rightarrow> fail Null_Deref | Some x \<Rightarrow> ret x)"

text \<open>A pointer that may be null.\<close>

definition nonnull :: "'a option \<Rightarrow> 'a comp" where
  "nonnull p = (case p of None \<Rightarrow> fail Null_Deref | Some x \<Rightarrow> ret x)"

section \<open>C integers\<close>

text \<open>
  \<open>size_t\<close> is 64 bits wide; it is kept as a natural number below \<open>2 ^ 64\<close> with the
  wrap-around of \<open>++\<close>, \<open>--\<close> and \<open>-\<close> written out. \<open>int\<close> and \<open>long long\<close> are integers
  with the conversion to 32 and 64 bits two's complement written where the code computes
  in, or converts to, the type.
\<close>

type_synonym size_t = nat

definition size_max :: nat where
  "size_max = 2 ^ 64"

definition sz_inc :: "size_t \<Rightarrow> size_t" where
  "sz_inc n = (n + 1) mod size_max"

definition sz_dec :: "size_t \<Rightarrow> size_t" where
  "sz_dec n = (n + (size_max - 1)) mod size_max"

definition sz_add :: "size_t \<Rightarrow> size_t \<Rightarrow> size_t" where
  "sz_add m n = (m + n) mod size_max"

definition sz_sub :: "size_t \<Rightarrow> size_t \<Rightarrow> size_t" where
  "sz_sub m n = (m + (size_max - n mod size_max)) mod size_max"

definition i32 :: "int \<Rightarrow> int" where
  "i32 x = (x + 2 ^ 31) mod 2 ^ 32 - 2 ^ 31"

definition i64 :: "int \<Rightarrow> int" where
  "i64 x = (x + 2 ^ 63) mod 2 ^ 64 - 2 ^ 63"

text \<open>C division truncates towards zero.\<close>

definition cdiv :: "int \<Rightarrow> int \<Rightarrow> int" where
  "cdiv x y = sgn x * sgn y * (\<bar>x\<bar> div \<bar>y\<bar>)"

definition cmod :: "int \<Rightarrow> int \<Rightarrow> int" where
  "cmod x y = x - cdiv x y * y"

section \<open>Proof support\<close>

named_theorems comp_simps \<open>evaluation of results\<close>

lemma bindr_simps [simp, comp_simps]:
  "bindr (Inl e) f = Inl e"
  "bindr (Inr x) f = f x"
  by (simp_all add: bindr_def)

lemma bindr_cong:
  "m = m' \<Longrightarrow> (\<And>x. m' = Inr x \<Longrightarrow> f x = g x) \<Longrightarrow> bindr m f = bindr m' g"
  by (auto simp: bindr_def split: sum.splits)

lemma bindr_eq_Inr: "bindr m f = Inr y \<longleftrightarrow> (\<exists>x. m = Inr x \<and> f x = Inr y)"
  by (cases m) auto

lemma bindc_simps [simp, comp_simps]:
  "bindc None f = None"
  "bindc (fail e) f = fail e"
  "bindc (ret x) f = f x"
  by (simp_all add: bindc_def)

lemma bindc_eq_ret: "bindc m f = ret y \<longleftrightarrow> (\<exists>x. m = ret x \<and> f x = ret y)"
  by (cases m) (auto simp: bindc_def split: sum.splits)

lemma deref_simps [simp, comp_simps]:
  "m p = None \<Longrightarrow> deref m p = fail Null_Deref"
  "m p = Some x \<Longrightarrow> deref m p = ret x"
  by (simp_all add: deref_def)

lemma nonnull_simps [simp, comp_simps]:
  "nonnull None = fail Null_Deref"
  "nonnull (Some x) = ret x"
  by (simp_all add: nonnull_def)

text \<open>Loops over the heap are partial functions whose body sequences results.\<close>

lemma bindc_mono [partial_function_mono]:
  assumes "mono_option B" and "\<And>y. mono_option (\<lambda>f. C y f)"
  shows "mono_option (\<lambda>f. bindc (B f) (\<lambda>y. C y f))"
proof -
  have "mono_option (\<lambda>f. case r of Inl e \<Rightarrow> Some (Inl e) | Inr x \<Rightarrow> C x f)" for r :: "fault + 'c"
    using assms(2) by (cases r) (auto simp: monotone_def flat_ord_def fun_ord_def)
  then show ?thesis
    unfolding bindc_def by (intro bind_mono assms(1))
qed

subsection \<open>Sizes\<close>

lemma sz_inc_small [simp]: "n + 1 < size_max \<Longrightarrow> sz_inc n = n + 1"
  by (simp add: sz_inc_def)

lemma sz_dec_pos [simp]: "0 < n \<Longrightarrow> n < size_max \<Longrightarrow> sz_dec n = n - 1"
proof -
  assume "0 < n" and "n < size_max"
  then have "n + (size_max - 1) = (n - 1) + size_max" by arith
  then have "sz_dec n = (n - 1) mod size_max" by (simp only: sz_dec_def mod_add_self2)
  with \<open>n < size_max\<close> show "sz_dec n = n - 1" by simp
qed

lemma sz_add_small [simp]: "m + n < size_max \<Longrightarrow> sz_add m n = m + n"
  by (simp add: sz_add_def)

lemma sz_sub_le [simp]: "n \<le> m \<Longrightarrow> m < size_max \<Longrightarrow> sz_sub m n = m - n"
proof -
  assume "n \<le> m" and "m < size_max"
  then have "m + (size_max - n mod size_max) = size_max + (m - n)" by simp
  with \<open>m < size_max\<close> show "sz_sub m n = m - n" by (simp add: sz_sub_def)
qed

text \<open>Code equations over binary integers, so that evaluation never counts to \<open>2 ^ 64\<close>.\<close>

lemma sz_inc_code [code]: "sz_inc n = nat ((int n + 1) mod 18446744073709551616)"
  by (simp add: sz_inc_def size_max_def nat_mod_distrib nat_add_distrib)

lemma sz_dec_code [code]: "sz_dec n = nat ((int n + 18446744073709551615) mod 18446744073709551616)"
  by (simp add: sz_dec_def size_max_def nat_mod_distrib nat_add_distrib)

lemma sz_add_code [code]: "sz_add m n = nat ((int m + int n) mod 18446744073709551616)"
  by (simp add: sz_add_def size_max_def nat_mod_distrib nat_add_distrib)

lemma sz_sub_code [code]: "sz_sub m n = nat ((int m - int n) mod 18446744073709551616)"
proof -
  have "int (sz_sub m n) = (int m + (int size_max - int n mod int size_max)) mod int size_max"
    by (simp add: sz_sub_def of_nat_mod of_nat_diff size_max_def algebra_simps)
  also have "\<dots> = (int m - int n) mod int size_max"
    by (metis add.commute add_diff_eq mod_add_self1 mod_diff_right_eq diff_add_eq)
  finally show ?thesis by (simp add: size_max_def)
qed

lemma sz_inc_dec: "n < size_max \<Longrightarrow> sz_inc (sz_dec n) = n"
  by (cases "n = 0") (simp_all add: sz_dec_def [of 0], simp_all add: sz_inc_def size_max_def)

subsection \<open>Two's complement\<close>

lemma i32_id [simp]: "- (2 ^ 31) \<le> x \<Longrightarrow> x < 2 ^ 31 \<Longrightarrow> i32 x = x"
  by (simp add: i32_def)

lemma i64_id [simp]: "- (2 ^ 63) \<le> x \<Longrightarrow> x < 2 ^ 63 \<Longrightarrow> i64 x = x"
  by (simp add: i64_def)

lemma i32_nonneg [simp]: "0 \<le> x \<Longrightarrow> x < 2 ^ 31 \<Longrightarrow> i32 x = x"
  by simp

lemma i64_nonneg [simp]: "0 \<le> x \<Longrightarrow> x < 2 ^ 63 \<Longrightarrow> i64 x = x"
  by simp

text \<open>The same with the bounds evaluated, for linear arithmetic.\<close>

lemma i32_num: "0 \<le> x \<Longrightarrow> x < 2147483648 \<Longrightarrow> i32 x = x"
  by simp

lemma i64_num: "0 \<le> x \<Longrightarrow> x < 9223372036854775808 \<Longrightarrow> i64 x = x"
  by simp

lemma i32_range: "- (2 ^ 31) \<le> i32 x \<and> i32 x < 2 ^ 31"
  by (simp add: i32_def)

lemma i64_range: "- (2 ^ 63) \<le> i64 x \<and> i64 x < 2 ^ 63"
  by (simp add: i64_def)

lemma abs_i32_le: "\<bar>i32 x\<bar> \<le> \<bar>x\<bar>"
proof (cases "- (2 ^ 31) \<le> x \<and> x < 2 ^ 31")
  case True
  then show ?thesis by simp
next
  case False
  then show ?thesis using i32_range [of x] by linarith
qed

lemma abs_i64_le: "\<bar>i64 x\<bar> \<le> \<bar>x\<bar>"
proof (cases "- (2 ^ 63) \<le> x \<and> x < 2 ^ 63")
  case True
  then show ?thesis by simp
next
  case False
  then show ?thesis using i64_range [of x] by linarith
qed

lemma cdiv_nonneg [simp]: "0 \<le> x \<Longrightarrow> 0 < y \<Longrightarrow> cdiv x y = x div y"
  by (cases "x = 0") (simp_all add: cdiv_def)

lemma cmod_nonneg [simp]: "0 \<le> x \<Longrightarrow> 0 < y \<Longrightarrow> cmod x y = x mod y"
  by (simp add: cmod_def minus_div_mult_eq_mod)

lemma cdiv_cmod: "cdiv x y * y + cmod x y = x"
  by (simp add: cmod_def)

lemma abs_cdiv: "\<bar>cdiv x y\<bar> = \<bar>x\<bar> div \<bar>y\<bar>"
  by (cases "x = 0"; cases "y = 0") (simp_all add: cdiv_def abs_mult pos_imp_zdiv_nonneg_iff)

lemma abs_cdiv_less: "1 < y \<Longrightarrow> x \<noteq> 0 \<Longrightarrow> \<bar>cdiv x y\<bar> < \<bar>x\<bar>"
  by (simp add: abs_cdiv int_div_less_self)

lemma zdiv_lessI:
  fixes a k v :: int
  assumes "0 < v" "a < k * v"
  shows "a div v < k"
proof -
  have "a div v * v \<le> a" using div_mult_mod_eq [of a v] pos_mod_sign [of v a] assms(1) by linarith
  then have "a div v * v < k * v" using assms(2) by linarith
  then show ?thesis using assms(1) by (simp add: mult_less_cancel_right)
qed

lemma bound_notin: "\<forall>x\<in>S. x < n \<Longrightarrow> n \<le> m \<Longrightarrow> m \<notin> S" for n :: nat
  by auto

subsection \<open>Bounds that may be open\<close>

text \<open>Intervals \<open>[lo, hi)\<close> of keys; \<open>None\<close> is an open end.\<close>

definition ge_lo :: "'k::linorder option \<Rightarrow> 'k \<Rightarrow> bool" where
  "ge_lo lo k = (case lo of None \<Rightarrow> True | Some x \<Rightarrow> x \<le> k)"

definition lt_hi :: "'k::linorder \<Rightarrow> 'k option \<Rightarrow> bool" where
  "lt_hi k hi = (case hi of None \<Rightarrow> True | Some x \<Rightarrow> k < x)"

lemma ge_lo_simps [simp]: "ge_lo None k" "ge_lo (Some x) k \<longleftrightarrow> x \<le> k"
  by (simp_all add: ge_lo_def)

lemma lt_hi_simps [simp]: "lt_hi k None" "lt_hi k (Some x) \<longleftrightarrow> k < x"
  by (simp_all add: lt_hi_def)

lemma ge_lo_trans: "ge_lo lo k \<Longrightarrow> k \<le> k' \<Longrightarrow> ge_lo lo k'"
  by (cases lo) auto

lemma lt_hi_trans: "lt_hi k hi \<Longrightarrow> k' \<le> k \<Longrightarrow> lt_hi k' hi"
  by (cases hi) auto

end
