(* ===== verification/Kv_Spec.thy ===== *)
theory Kv_Spec
  imports Prelude
begin

text \<open>
  What the index promises, independent of how it is built: finite maps as association
  lists sorted by strictly increasing keys, the interface \<open>kv_store\<close> that both the
  linked list of one leaf and the whole B+ tree implement, and the facts a client of that
  interface gets.
\<close>

section \<open>Sorted association lists\<close>

abbreviation sorted_keys :: "('k::linorder \<times> 'v) list \<Rightarrow> bool" where
  "sorted_keys xs \<equiv> sorted_wrt (<) (map fst xs)"

fun upd_kv :: "'k::linorder \<Rightarrow> 'v \<Rightarrow> ('k \<times> 'v) list \<Rightarrow> ('k \<times> 'v) list" where
  "upd_kv k v [] = [(k, v)]"
| "upd_kv k v ((k', v') # xs) =
     (if k < k' then (k, v) # (k', v') # xs
      else if k = k' then (k, v) # xs
      else (k', v') # upd_kv k v xs)"

fun del_kv :: "'k \<Rightarrow> ('k \<times> 'v) list \<Rightarrow> ('k \<times> 'v) list" where
  "del_kv k [] = []"
| "del_kv k ((k', v') # xs) = (if k = k' then xs else (k', v') # del_kv k xs)"

lemma set_upd_kv_keys [simp]: "fst ` set (upd_kv k v xs) = insert k (fst ` set xs)"
  by (induction k v xs rule: upd_kv.induct) (simp_all add: insert_commute)

lemma set_upd_kv_sub: "(k', v') \<in> set (upd_kv k v xs) \<Longrightarrow> (k', v') = (k, v) \<or> (k', v') \<in> set xs"
  by (induction xs) (auto split: if_splits)

lemma sorted_upd_kv: "sorted_keys xs \<Longrightarrow> sorted_keys (upd_kv k v xs)"
proof (induction xs)
  case (Cons x xs)
  obtain k' v' where x: "x = (k', v')" by (cases x)
  have "\<forall>y\<in>fst ` set (upd_kv k v xs). k' < y" if "k' < k"
    using Cons.prems that by (auto simp: x)
  with Cons show ?case by (auto simp: x)
qed simp

lemma map_of_upd_kv [simp]: "map_of (upd_kv k v xs) = (map_of xs)(k \<mapsto> v)"
  by (induction xs) (auto simp: fun_eq_iff)

lemma upd_kv_append_left:
  "\<lbrakk>\<forall>y\<in>fst ` set ys. k < y\<rbrakk> \<Longrightarrow> upd_kv k v (xs @ ys) = upd_kv k v xs @ ys"
proof (induction xs)
  case Nil
  then show ?case by (cases ys) auto
qed auto

lemma upd_kv_append_right:
  "\<forall>x\<in>fst ` set xs. x < k \<Longrightarrow> upd_kv k v (xs @ ys) = xs @ upd_kv k v ys"
  by (induction xs) auto

lemma length_upd_kv: "length (upd_kv k v xs) \<le> length xs + 1"
  by (induction xs) auto

lemma upd_kv_not_Nil [simp]: "upd_kv k v xs \<noteq> []"
  by (induction k v xs rule: upd_kv.induct) simp_all

lemma sorted_distinct_keys: "sorted_keys xs \<Longrightarrow> distinct (map fst xs)"
  by (induction xs) auto

lemma set_del_kv_sub: "set (del_kv k xs) \<subseteq> set xs"
  by (induction k xs rule: del_kv.induct) (auto split: if_splits)

lemma sorted_del_kv: "sorted_keys xs \<Longrightarrow> sorted_keys (del_kv k xs)"
proof (induction xs)
  case (Cons x xs)
  with set_del_kv_sub [of k xs] show ?case by (cases x) auto
qed simp

lemma map_of_del_kv: "sorted_keys xs \<Longrightarrow> map_of (del_kv k xs) = (map_of xs)(k := None)"
proof (induction xs)
  case (Cons x xs)
  obtain k' v' where x: "x = (k', v')" by (cases x)
  show ?case
  proof (cases "k = k'")
    case True
    with Cons.prems have "k \<notin> fst ` set xs" by (auto simp: x)
    then have "map_of xs k = None" by (simp add: map_of_eq_None_iff)
    with True show ?thesis by (auto simp: x fun_eq_iff)
  next
    case False
    with Cons show ?thesis by (auto simp: x fun_eq_iff)
  qed
qed (simp add: fun_eq_iff)

lemma del_kv_notin [simp]: "k \<notin> fst ` set xs \<Longrightarrow> del_kv k xs = xs"
  by (induction xs) auto

lemma length_del_kv: "k \<in> fst ` set xs \<Longrightarrow> Suc (length (del_kv k xs)) = length xs"
  by (induction k xs rule: del_kv.induct) (simp_all, blast)

lemma del_kv_append:
  "del_kv k (xs @ ys) = (if k \<in> fst ` set xs then del_kv k xs @ ys else xs @ del_kv k ys)"
  by (induction k xs rule: del_kv.induct) simp_all

section \<open>The interface of an ordered key-value store\<close>

text \<open>
  \<open>entries s\<close> is the content of a store in good standing (\<open>invar s\<close>), in key order. Every
  operation of such a store returns: a lookup answers from the content, an insertion
  yields a store in good standing with the content updated, an iteration visits the
  content in order.
\<close>

locale kv_store =
  fixes lookup :: "'s \<Rightarrow> 'k::linorder \<Rightarrow> 'v option comp"
    and insert_kv :: "'s \<Rightarrow> 'k \<Rightarrow> 'v \<Rightarrow> 's comp"
    and visit :: "'s \<Rightarrow> ('k \<times> 'v) list comp"
    and entries :: "'s \<Rightarrow> ('k \<times> 'v) list \<Rightarrow> bool"
  assumes entries_sorted: "entries s xs \<Longrightarrow> sorted_keys xs"
    and lookup_entries: "entries s xs \<Longrightarrow> lookup s k = ret (map_of xs k)"
    and insert_entries: "entries s xs \<Longrightarrow> \<exists>s'. insert_kv s k v = ret s' \<and> entries s' (upd_kv k v xs)"
    and visit_entries: "entries s xs \<Longrightarrow> visit s = ret xs"
begin

lemma lookup_after_insert:
  assumes "entries s xs"
  shows "\<exists>s'. insert_kv s k v = ret s' \<and>
           lookup s' k = ret (Some v) \<and> (\<forall>k'. k' \<noteq> k \<longrightarrow> lookup s' k' = lookup s k')"
proof -
  from insert_entries [OF assms] obtain s' where s': "insert_kv s k v = ret s'"
    and e: "entries s' (upd_kv k v xs)" by blast
  then show ?thesis
    using lookup_entries [OF e] lookup_entries [OF assms] by auto
qed

lemma visit_sorted_distinct:
  assumes "entries s xs"
  shows "\<exists>ys. visit s = ret ys \<and> sorted_keys ys \<and> distinct (map fst ys) \<and>
           (\<forall>k. lookup s k = ret (map_of ys k))"
  using visit_entries [OF assms] entries_sorted [OF assms] lookup_entries [OF assms]
  by (auto intro: sorted_distinct_keys)

text \<open>A run of insertions, first to last.\<close>

fun insert_all :: "'s \<Rightarrow> ('k \<times> 'v) list \<Rightarrow> 's comp" where
  "insert_all s [] = ret s"
| "insert_all s ((k, v) # ps) = bindc (insert_kv s k v) (\<lambda>s'. insert_all s' ps)"

lemma insert_all_entries:
  "entries s xs \<Longrightarrow>
     \<exists>s'. insert_all s ps = ret s' \<and> entries s' (fold (\<lambda>(k, v). upd_kv k v) ps xs)"
proof (induction ps arbitrary: s xs)
  case (Cons p ps)
  obtain k v where p: "p = (k, v)" by (cases p)
  from insert_entries [OF Cons.prems] obtain s1 where "insert_kv s k v = ret s1"
    and "entries s1 (upd_kv k v xs)" by blast
  with Cons.IH show ?case by (simp add: p)
qed simp

lemma map_of_fold_upd:
  "map_of (fold (\<lambda>(k, v). upd_kv k v) ps xs) = map_of xs ++ map_of (rev ps)"
  by (induction ps arbitrary: xs) (auto simp: map_add_upd_left split: prod.split)

lemma insert_all_lookup:
  assumes "entries s xs"
  shows "\<exists>s'. insert_all s ps = ret s' \<and>
           (\<forall>k. lookup s' k = ret ((map_of xs ++ map_of (rev ps)) k))"
proof -
  from insert_all_entries [OF assms] obtain s' where "insert_all s ps = ret s'"
    and e: "entries s' (fold (\<lambda>(k, v). upd_kv k v) ps xs)" by blast
  then show ?thesis using lookup_entries [OF e] by (simp add: map_of_fold_upd)
qed

end

end
