(* ===== verification/Leaf_List.thy ===== *)
theory Leaf_List
  imports Kv_Spec
begin

text \<open>
  The linked list of one leaf (\<open>list.h\<close>, \<open>leaf_list\<close> and \<open>list_node::skip\<close> on it).
  A \<open>leaf_list\<close> owns its nodes, so the chain hanging off \<open>m_root\<close> is a list of
  pairs; \<open>m_size\<close> is the field the code maintains by hand and reads in \<open>split\<close>,
  and may disagree with the chain.
\<close>

section \<open>State and operations\<close>

record ('k, 'v) leaf_list =
  ll_root :: "('k \<times> 'v) list"
  ll_size :: size_t

text \<open>
  \<open>size_t m_size;\<close> has no initialiser: a new list holds whatever the memory held.
\<close>

definition leaf_list_new :: "size_t \<Rightarrow> ('k, 'v) leaf_list" where
  "leaf_list_new garbage = \<lparr>ll_root = [], ll_size = garbage\<rparr>"

text \<open>
  The \<open>else\<close> branch of \<open>set\<close> from the node \<open>node\<close> on: walk while the next key is not
  greater, then overwrite or link in a new node. The flag says whether a node was added.
\<close>

fun set_walk :: "'k::linorder \<Rightarrow> 'v \<Rightarrow> ('k \<times> 'v) list \<Rightarrow> ('k \<times> 'v) list \<times> bool" where
  "set_walk key val [] = ([], False)"
| "set_walk key val [(k, v)] =
     (if k = key then ([(k, val)], False) else ([(k, v), (key, val)], True))"
| "set_walk key val ((k, v) # (k', v') # xs) =
     (if k' \<le> key
      then (case set_walk key val ((k', v') # xs) of (ys, added) \<Rightarrow> ((k, v) # ys, added))
      else if k = key then ((k, val) # (k', v') # xs, False)
      else ((k, v) # (key, val) # (k', v') # xs, True))"

definition leaf_list_set :: "'k::linorder \<Rightarrow> 'v \<Rightarrow> ('k, 'v) leaf_list \<Rightarrow> ('k, 'v) leaf_list" where
  "leaf_list_set key val l =
     (case ll_root l of
        [] \<Rightarrow> \<lparr>ll_root = [(key, val)], ll_size = sz_inc (ll_size l)\<rparr>
      | (k, v) # xs \<Rightarrow>
          if key < k then \<lparr>ll_root = (key, val) # ll_root l, ll_size = sz_inc (ll_size l)\<rparr>
          else (case set_walk key val (ll_root l) of
                  (ys, added) \<Rightarrow>
                    \<lparr>ll_root = ys, ll_size = (if added then sz_inc (ll_size l) else ll_size l)\<rparr>))"

text \<open>
  \<open>split\<close> moves the second half to \<open>dest\<close>. \<open>skip (half1 - 1)\<close> stops at the end of the
  chain, and its result is then dereferenced. The result is the new \<open>this\<close> and
  \<open>dest\<close>, or \<open>None\<close> when the code returns \<open>false\<close>.
\<close>

definition leaf_list_split ::
  "('k, 'v) leaf_list \<Rightarrow> (('k, 'v) leaf_list \<times> ('k, 'v) leaf_list) option res" where
  "leaf_list_split l =
     (let half1 = ll_size l div 2
      in if half1 = 0 then Inr None
         else if drop (half1 - 1) (ll_root l) = [] then Inl Null_Deref
         else Inr (Some (\<lparr>ll_root = take half1 (ll_root l), ll_size = half1\<rparr>,
                         \<lparr>ll_root = drop half1 (ll_root l), ll_size = ll_size l - half1\<rparr>)))"

fun leaf_list_find :: "'k \<Rightarrow> ('k \<times> 'v) list \<Rightarrow> 'v option" where
  "leaf_list_find key [] = None"
| "leaf_list_find key ((k, v) # xs) = (if k = key then Some v else leaf_list_find key xs)"

definition leaf_list_get_val_ptr :: "('k, 'v) leaf_list \<Rightarrow> 'k \<Rightarrow> 'v option" where
  "leaf_list_get_val_ptr l key = leaf_list_find key (ll_root l)"

text \<open>The loop of \<open>delete_key\<close> over the nodes after the first.\<close>

fun delete_walk :: "'k \<Rightarrow> ('k \<times> 'v) list \<Rightarrow> ('k \<times> 'v) list option" where
  "delete_walk key [] = None"
| "delete_walk key ((k, v) # xs) =
     (if k = key then Some xs
      else (case delete_walk key xs of None \<Rightarrow> None | Some ys \<Rightarrow> Some ((k, v) # ys)))"

text \<open>
  \<open>delete_key\<close> decrements \<open>m_size\<close> first, dereferences \<open>m_root\<close> unconditionally, and
  restores the size when the key was not found.
\<close>

definition leaf_list_delete_key ::
  "'k \<Rightarrow> ('k, 'v) leaf_list \<Rightarrow> (('k, 'v) leaf_list \<times> bool) res" where
  "leaf_list_delete_key key l =
     (let n = sz_dec (ll_size l)
      in case ll_root l of
           [] \<Rightarrow> Inl Null_Deref
         | (k, v) # xs \<Rightarrow>
             if key = k then Inr (\<lparr>ll_root = xs, ll_size = n\<rparr>, True)
             else (case delete_walk key xs of
                     Some ys \<Rightarrow> Inr (\<lparr>ll_root = (k, v) # ys, ll_size = n\<rparr>, True)
                   | None \<Rightarrow> Inr (\<lparr>ll_root = (k, v) # xs, ll_size = sz_inc n\<rparr>, False)))"

definition leaf_list_get_root_key :: "('k, 'v) leaf_list \<Rightarrow> 'k res" where
  "leaf_list_get_root_key l = (case ll_root l of [] \<Rightarrow> Inl Null_Deref | (k, v) # xs \<Rightarrow> Inr k)"

text \<open>\<open>iterate\<close> calls its argument on each pair; the model returns the pairs in call order.\<close>

definition leaf_list_iterate :: "('k, 'v) leaf_list \<Rightarrow> ('k \<times> 'v) list" where
  "leaf_list_iterate l = ll_root l"

section \<open>Correctness\<close>

definition ll_ok :: "('k::linorder, 'v) leaf_list \<Rightarrow> bool" where
  "ll_ok l \<longleftrightarrow> sorted_keys (ll_root l) \<and> ll_size l = length (ll_root l)"

lemma set_walk_upd:
  "sorted_keys ((k, v) # xs) \<Longrightarrow> k \<le> key \<Longrightarrow>
     fst (set_walk key val ((k, v) # xs)) = upd_kv key val ((k, v) # xs)"
proof (induction xs arbitrary: k v)
  case (Cons x xs)
  obtain k' v' where x: "x = (k', v')" by (cases x)
  show ?case
  proof (cases "k' \<le> key")
    case True
    with Cons have "fst (set_walk key val ((k', v') # xs)) = upd_kv key val ((k', v') # xs)"
      by (simp add: x)
    with True Cons.prems show ?thesis by (auto simp: x split: prod.split)
  next
    case False
    with Cons.prems show ?thesis by (auto simp: x)
  qed
qed auto

lemma set_walk_added:
  "sorted_keys ((k, v) # xs) \<Longrightarrow> k \<le> key \<Longrightarrow>
     length (fst (set_walk key val ((k, v) # xs))) =
       length ((k, v) # xs) + of_bool (snd (set_walk key val ((k, v) # xs)))"
proof (induction xs arbitrary: k v)
  case (Cons x xs)
  obtain k' v' where x: "x = (k', v')" by (cases x)
  show ?case
  proof (cases "k' \<le> key")
    case True
    with Cons have "length (fst (set_walk key val ((k', v') # xs))) =
        length ((k', v') # xs) + of_bool (snd (set_walk key val ((k', v') # xs)))"
      by (simp add: x)
    with True show ?thesis by (auto simp: x split: prod.split)
  next
    case False
    then show ?thesis by (auto simp: x)
  qed
qed auto

lemma leaf_list_set_root:
  "sorted_keys (ll_root l) \<Longrightarrow> ll_root (leaf_list_set key val l) = upd_kv key val (ll_root l)"
  using set_walk_upd [of "fst (hd (ll_root l))" "snd (hd (ll_root l))" "tl (ll_root l)" key val]
  by (auto simp: leaf_list_set_def not_less split: list.split prod.split)

lemma leaf_list_set_size:
  assumes "ll_ok l" and "length (ll_root l) + 1 < size_max"
  shows "ll_size (leaf_list_set key val l) = length (ll_root (leaf_list_set key val l))"
  using assms
    set_walk_added [of "fst (hd (ll_root l))" "snd (hd (ll_root l))" "tl (ll_root l)" key val]
  by (auto simp: ll_ok_def leaf_list_set_def not_less split: list.split prod.split)

lemma leaf_list_set_ok:
  "ll_ok l \<Longrightarrow> length (ll_root l) + 1 < size_max \<Longrightarrow> ll_ok (leaf_list_set key val l)"
  using leaf_list_set_size [of l key val]
  by (simp add: ll_ok_def leaf_list_set_root sorted_upd_kv)

lemma leaf_list_find_map_of [simp]: "leaf_list_find key xs = map_of xs key"
  by (induction xs) auto

lemma leaf_list_split_ok:
  assumes "ll_ok l" and "2 \<le> length (ll_root l)"
  shows "\<exists>l1 l2. leaf_list_split l = Inr (Some (l1, l2)) \<and> ll_ok l1 \<and> ll_ok l2 \<and>
           ll_root l1 @ ll_root l2 = ll_root l \<and> ll_root l1 \<noteq> [] \<and> ll_root l2 \<noteq> [] \<and>
           length (ll_root l1) = length (ll_root l) div 2"
proof -
  let ?h = "length (ll_root l) div 2"
  have "?h \<noteq> 0" and "?h \<le> length (ll_root l)" and "?h - 1 < length (ll_root l)"
    and "?h < length (ll_root l)"
    using assms(2) by auto
  moreover have "sorted_keys (take ?h (ll_root l))" and "sorted_keys (drop ?h (ll_root l))"
    using assms(1) by (auto simp: ll_ok_def sorted_wrt_take sorted_wrt_drop take_map [symmetric]
        drop_map [symmetric])
  ultimately show ?thesis
    using assms(1) by (auto simp: leaf_list_split_def ll_ok_def Let_def)
qed

lemma delete_walk_del:
  "delete_walk key xs = (if key \<in> fst ` set xs then Some (del_kv key xs) else None)"
  by (induction key xs rule: delete_walk.induct) simp_all

lemma leaf_list_delete_key_ok:
  assumes "ll_ok l" and "ll_root l \<noteq> []" and "length (ll_root l) < size_max"
  shows "\<exists>l'. leaf_list_delete_key key l = Inr (l', key \<in> fst ` set (ll_root l)) \<and> ll_ok l' \<and>
           ll_root l' = del_kv key (ll_root l)"
proof -
  obtain k v xs where r: "ll_root l = (k, v) # xs"
    using assms(2) by (cases "ll_root l") auto
  let ?l' = "\<lparr>ll_root = del_kv key (ll_root l), ll_size = length (del_kv key (ll_root l))\<rparr>"
  have n: "sz_dec (ll_size l) = length xs" "sz_inc (length xs) = length (ll_root l)"
    using assms by (auto simp: ll_ok_def r)
  have "leaf_list_delete_key key l = Inr (?l', key \<in> fst ` set (ll_root l))"
    using n length_del_kv [of key xs] by (auto simp: leaf_list_delete_key_def r delete_walk_del Let_def)
  moreover have "ll_ok ?l'"
    using assms(1) by (simp add: ll_ok_def sorted_del_kv)
  ultimately show ?thesis by auto
qed

text \<open>
  Lookup, insertion and iteration follow the chain only, so a leaf's list is an ordered
  store whatever its size field says; only \<open>split\<close> and \<open>delete_key\<close> need \<open>ll_ok\<close>.
\<close>

definition ll_entries :: "('k::linorder, 'v) leaf_list \<Rightarrow> ('k \<times> 'v) list \<Rightarrow> bool" where
  "ll_entries l xs \<longleftrightarrow> sorted_keys xs \<and> ll_root l = xs"

interpretation ll: kv_store
  "\<lambda>l k. ret (leaf_list_get_val_ptr l k)"
  "\<lambda>l k v. ret (leaf_list_set k v l)"
  "\<lambda>l. ret (leaf_list_iterate l)"
  ll_entries
  by unfold_locales
    (auto simp: ll_entries_def leaf_list_get_val_ptr_def leaf_list_set_root sorted_upd_kv
      leaf_list_iterate_def)

end
