(* ===== verification/Bpt.thy ===== *)
theory Bpt
  imports Leaf_List
begin

text \<open>
  The B+ tree of \<open>leaf.h\<close>, \<open>bpt_internal.h\<close> and \<open>bpt.h\<close> (interface \<open>bpt_base.h\<close>) on an
  explicit heap. The child lists of internal nodes are chains of \<open>list_node\<close>s; \<open>split\<close>
  moves the middle node to the new root without unlinking it from the old list, so list
  nodes are shared and the heap is needed to say what the code does. Loops and recursion
  that follow pointers are partial functions: \<open>None\<close> is a run that never returns.
\<close>

section \<open>The heap\<close>

type_synonym addr = nat

text \<open>A \<open>bpt_base*\<close>: the constructor is the dynamic type \<open>is_leaf\<close> and \<open>dynamic_cast\<close> ask for.\<close>

datatype child = Leaf_ptr addr | Internal_ptr addr

text \<open>\<open>list_node<TKey, bpt_base*>\<close>, an entry of an internal node's child list.\<close>

record 'k lnode =
  ln_key :: 'k
  ln_val :: child
  ln_next :: "addr option"

record ('k, 'v) leaf =
  leaf_m_next :: "addr option"
  leaf_m_list :: "('k, 'v) leaf_list"

record bpt_internal =
  int_m_lesser :: child
  int_m_root :: "addr option"
  int_m_size :: size_t

text \<open>
  One map per class, a counter for fresh addresses, and \<open>garbage\<close>: what a fresh
  allocation at an address holds in the field the constructor leaves uninitialised.
\<close>

record ('k, 'v) heap =
  lnodes :: "addr \<Rightarrow> 'k lnode option"
  leaves :: "addr \<Rightarrow> ('k, 'v) leaf option"
  internals :: "addr \<Rightarrow> bpt_internal option"
  fresh :: addr
  garbage :: "addr \<Rightarrow> size_t"

definition new_lnode :: "'k \<Rightarrow> child \<Rightarrow> addr option \<Rightarrow> ('k, 'v) heap \<Rightarrow> ('k, 'v) heap \<times> addr" where
  "new_lnode k c nx h =
     (h\<lparr>lnodes := (lnodes h)(fresh h \<mapsto> \<lparr>ln_key = k, ln_val = c, ln_next = nx\<rparr>),
        fresh := Suc (fresh h)\<rparr>, fresh h)"

definition new_internal :: "bpt_internal \<Rightarrow> ('k, 'v) heap \<Rightarrow> ('k, 'v) heap \<times> addr" where
  "new_internal n h =
     (h\<lparr>internals := (internals h)(fresh h \<mapsto> n), fresh := Suc (fresh h)\<rparr>, fresh h)"

text \<open>\<open>leaf()\<close>: an empty list with an uninitialised size, no successor.\<close>

definition new_leaf :: "('k, 'v) heap \<Rightarrow> ('k, 'v) heap \<times> addr" where
  "new_leaf h =
     (h\<lparr>leaves := (leaves h)(fresh h \<mapsto>
          \<lparr>leaf_m_next = None, leaf_m_list = leaf_list_new (garbage h (fresh h))\<rparr>),
        fresh := Suc (fresh h)\<rparr>, fresh h)"

abbreviation put_leaf :: "addr \<Rightarrow> ('k, 'v) leaf \<Rightarrow> ('k, 'v) heap \<Rightarrow> ('k, 'v) heap" where
  "put_leaf l x h \<equiv> h\<lparr>leaves := (leaves h)(l \<mapsto> x)\<rparr>"

abbreviation put_internal :: "addr \<Rightarrow> bpt_internal \<Rightarrow> ('k, 'v) heap \<Rightarrow> ('k, 'v) heap" where
  "put_internal i x h \<equiv> h\<lparr>internals := (internals h)(i \<mapsto> x)\<rparr>"

abbreviation put_lnode :: "addr \<Rightarrow> 'k lnode \<Rightarrow> ('k, 'v) heap \<Rightarrow> ('k, 'v) heap" where
  "put_lnode a x h \<equiv> h\<lparr>lnodes := (lnodes h)(a \<mapsto> x)\<rparr>"

section \<open>Leaves\<close>

text \<open>\<open>leaf(TKey key, TVal val)\<close>\<close>

definition new_leaf_kv :: "'k::linorder \<Rightarrow> 'v \<Rightarrow> ('k, 'v) heap \<Rightarrow> ('k, 'v) heap \<times> addr" where
  "new_leaf_kv key val h =
     (let (h1, l) = new_leaf h
      in (put_leaf l \<lparr>leaf_m_next = None,
            leaf_m_list = leaf_list_set key val (leaf_list_new (garbage h (fresh h)))\<rparr> h1, l))"

definition leaf_primary_key :: "('k, 'v) heap \<Rightarrow> addr \<Rightarrow> 'k comp" where
  "leaf_primary_key h l =
     bindc (deref (leaves h) l) (\<lambda>lf. Some (leaf_list_get_root_key (leaf_m_list lf)))"

text \<open>
  \<open>leaf::split\<close>: the new leaf takes the second half and the old successor. \<open>None\<close> stands
  for the null pointer returned when the list refuses to split.
\<close>

definition leaf_split :: "('k, 'v) heap \<Rightarrow> addr \<Rightarrow> (('k, 'v) heap \<times> addr option) comp" where
  "leaf_split h l =
     bindc (deref (leaves h) l) (\<lambda>lf.
     bindc (Some (leaf_list_split (leaf_m_list lf))) (\<lambda>halves.
       case halves of
         None \<Rightarrow> ret (h, None)
       | Some (keep, move) \<Rightarrow>
           (let (h1, l') = new_leaf h;
                h2 = put_leaf l' \<lparr>leaf_m_next = leaf_m_next lf, leaf_m_list = move\<rparr> h1;
                h3 = put_leaf l \<lparr>leaf_m_next = Some l', leaf_m_list = keep\<rparr> h2
            in ret (h3, Some l'))))"

text \<open>\<open>leaf::insert\<close>; \<open>ord\<close> is the template parameter \<open>ORDER\<close>, \<open>max_size\<close> is \<open>ORDER - 1\<close>.\<close>

definition leaf_insert ::
  "nat \<Rightarrow> ('k::linorder, 'v) heap \<Rightarrow> addr \<Rightarrow> 'k \<Rightarrow> 'v \<Rightarrow> (('k, 'v) heap \<times> addr option) comp" where
  "leaf_insert ord h l key val =
     bindc (deref (leaves h) l) (\<lambda>lf.
       (let lst = leaf_list_set key val (leaf_m_list lf);
            h1 = put_leaf l (lf\<lparr>leaf_m_list := lst\<rparr>) h
        in if ord - 1 < ll_size lst then leaf_split h1 l else ret (h1, None)))"

definition leaf_delete_key ::
  "('k, 'v) heap \<Rightarrow> addr \<Rightarrow> 'k \<Rightarrow> (('k, 'v) heap \<times> bool) comp" where
  "leaf_delete_key h l key =
     bindc (deref (leaves h) l) (\<lambda>lf.
     bindc (Some (leaf_list_delete_key key (leaf_m_list lf))) (\<lambda>(lst, found).
       ret (put_leaf l (lf\<lparr>leaf_m_list := lst\<rparr>) h, found)))"

text \<open>\<open>leaf::iterate\<close> walks the chain of leaves.\<close>

partial_function (option) leaf_iterate ::
  "('k, 'v) heap \<Rightarrow> addr option \<Rightarrow> ('k \<times> 'v) list comp" where
  "leaf_iterate h p =
     (case p of
        None \<Rightarrow> ret []
      | Some l \<Rightarrow>
          bindc (deref (leaves h) l) (\<lambda>lf.
          bindc (leaf_iterate h (leaf_m_next lf)) (\<lambda>rest.
            ret (leaf_list_iterate (leaf_m_list lf) @ rest))))"

section \<open>Internal nodes\<close>

definition int_primary_key :: "('k, 'v) heap \<Rightarrow> addr \<Rightarrow> 'k comp" where
  "int_primary_key h i =
     bindc (deref (internals h) i) (\<lambda>n.
     bindc (nonnull (int_m_root n)) (\<lambda>r.
     bindc (deref (lnodes h) r) (\<lambda>ln. ret (ln_key ln))))"

text \<open>The virtual \<open>primary_key\<close> and \<open>size\<close>.\<close>

definition child_primary_key :: "('k, 'v) heap \<Rightarrow> child \<Rightarrow> 'k comp" where
  "child_primary_key h c =
     (case c of Leaf_ptr l \<Rightarrow> leaf_primary_key h l | Internal_ptr i \<Rightarrow> int_primary_key h i)"

definition child_size :: "('k, 'v) heap \<Rightarrow> child \<Rightarrow> size_t comp" where
  "child_size h c =
     (case c of
        Leaf_ptr l \<Rightarrow> bindc (deref (leaves h) l) (\<lambda>lf. ret (ll_size (leaf_m_list lf)))
      | Internal_ptr i \<Rightarrow> bindc (deref (internals h) i) (\<lambda>n. ret (int_m_size n)))"

text \<open>\<open>bpt_internal(bpt_base* l)\<close>: one entry for \<open>l\<close> and a fresh empty leaf on its left.\<close>

definition new_bpt_internal ::
  "('k, 'v) heap \<Rightarrow> child \<Rightarrow> (('k, 'v) heap \<times> addr) comp" where
  "new_bpt_internal h l =
     bindc (child_primary_key h l) (\<lambda>k.
       (let (h1, r) = new_lnode k l None h;
            (h2, lesser) = new_leaf h1;
            h3 = (case l of
                    Leaf_ptr a \<Rightarrow>
                      put_leaf lesser \<lparr>leaf_m_next = Some a,
                        leaf_m_list = leaf_list_new (garbage h1 (fresh h1))\<rparr> h2
                  | Internal_ptr a \<Rightarrow> h2)
        in ret (new_internal
             \<lparr>int_m_lesser = Leaf_ptr lesser, int_m_root = Some r, int_m_size = 1\<rparr> h3)))"

text \<open>The loop of \<open>get_child_ln_ge\<close> from the list node \<open>a\<close> on.\<close>

partial_function (option) ln_ge :: "('k::linorder, 'v) heap \<Rightarrow> 'k \<Rightarrow> addr \<Rightarrow> addr comp" where
  "ln_ge h key a =
     bindc (deref (lnodes h) a) (\<lambda>ln.
       case ln_next ln of
         None \<Rightarrow> ret a
       | Some b \<Rightarrow>
           bindc (deref (lnodes h) b) (\<lambda>nx.
             if key < ln_key nx then ret a else ln_ge h key b))"

definition get_child_ln_ge :: "('k::linorder, 'v) heap \<Rightarrow> addr \<Rightarrow> 'k \<Rightarrow> addr comp" where
  "get_child_ln_ge h i key =
     bindc (deref (internals h) i) (\<lambda>n. bindc (nonnull (int_m_root n)) (\<lambda>r. ln_ge h key r))"

definition get_child_ge :: "('k::linorder, 'v) heap \<Rightarrow> addr \<Rightarrow> 'k \<Rightarrow> child comp" where
  "get_child_ge h i key =
     bindc (int_primary_key h i) (\<lambda>pk.
     bindc (deref (internals h) i) (\<lambda>n.
       if key < pk then ret (int_m_lesser n)
       else bindc (get_child_ln_ge h i key) (\<lambda>a.
            bindc (deref (lnodes h) a) (\<lambda>ln. ret (ln_val ln)))))"

text \<open>The virtual \<open>get_val_ptr\<close>.\<close>

partial_function (option) child_get_val_ptr ::
  "('k::linorder, 'v) heap \<Rightarrow> child \<Rightarrow> 'k \<Rightarrow> 'v option comp" where
  "child_get_val_ptr h c key =
     (case c of
        Leaf_ptr l \<Rightarrow>
          bindc (deref (leaves h) l) (\<lambda>lf. ret (leaf_list_get_val_ptr (leaf_m_list lf) key))
      | Internal_ptr i \<Rightarrow>
          bindc (get_child_ge h i key) (\<lambda>c'. child_get_val_ptr h c' key))"

text \<open>The virtual \<open>iterate\<close>: an internal node passes it to \<open>m_lesser\<close>.\<close>

partial_function (option) child_iterate :: "('k, 'v) heap \<Rightarrow> child \<Rightarrow> ('k \<times> 'v) list comp" where
  "child_iterate h c =
     (case c of
        Leaf_ptr l \<Rightarrow> leaf_iterate h (Some l)
      | Internal_ptr i \<Rightarrow> bindc (deref (internals h) i) (\<lambda>n. child_iterate h (int_m_lesser n)))"

text \<open>\<open>list_node::insert_after(n, node)\<close> for a new node with key \<open>k\<close> and value \<open>c\<close>.\<close>

definition insert_after ::
  "'k \<Rightarrow> child \<Rightarrow> addr \<Rightarrow> ('k, 'v) heap \<Rightarrow> ('k, 'v) heap comp" where
  "insert_after k c node h =
     bindc (deref (lnodes h) node) (\<lambda>ln.
       (let (h1, n) = new_lnode k c (ln_next ln) h
        in ret (put_lnode node (ln\<lparr>ln_next := Some n\<rparr>) h1)))"

text \<open>
  \<open>insert_leaf\<close> and \<open>insert_internal\<close> have the same two branches and differ in the child
  the new list node points to: \<open>front\<close> when it becomes the first entry, \<open>back\<close> when it is
  linked in after the entry that covers its key.
\<close>

definition insert_entry ::
  "('k::linorder, 'v) heap \<Rightarrow> addr \<Rightarrow> 'k \<Rightarrow> child \<Rightarrow> child comp \<Rightarrow> ('k, 'v) heap comp" where
  "insert_entry h i pk front back =
     bindc (int_primary_key h i) (\<lambda>first.
     bindc (deref (internals h) i) (\<lambda>n.
       if pk < first then
         (let (h1, a) = new_lnode pk front (int_m_root n) h
          in ret (put_internal i (n\<lparr>int_m_root := Some a, int_m_size := sz_inc (int_m_size n)\<rparr>) h1))
       else
         bindc (get_child_ln_ge h i pk) (\<lambda>node.
         bindc back (\<lambda>c.
         bindc (insert_after pk c node h) (\<lambda>h1.
           ret (put_internal i (n\<lparr>int_m_size := sz_inc (int_m_size n)\<rparr>) h1))))))"

definition insert_leaf :: "('k::linorder, 'v) heap \<Rightarrow> addr \<Rightarrow> addr \<Rightarrow> ('k, 'v) heap comp" where
  "insert_leaf h i l =
     bindc (leaf_primary_key h l) (\<lambda>pk. insert_entry h i pk (Leaf_ptr l) (ret (Leaf_ptr l)))"

definition insert_internal :: "('k::linorder, 'v) heap \<Rightarrow> addr \<Rightarrow> addr \<Rightarrow> ('k, 'v) heap comp" where
  "insert_internal h i j =
     bindc (int_primary_key h j) (\<lambda>pk.
       insert_entry h i pk (Internal_ptr j)
         (bindc (deref (internals h) j) (\<lambda>n.
          bindc (nonnull (int_m_root n)) (\<lambda>r.
          bindc (deref (lnodes h) r) (\<lambda>ln. ret (ln_val ln))))))"

text \<open>\<open>list_node::skip\<close> on the child list; \<open>None\<close> inside is the null pointer.\<close>

fun ln_skip :: "('k, 'v) heap \<Rightarrow> nat \<Rightarrow> addr option \<Rightarrow> addr option comp" where
  "ln_skip h count None = ret None"
| "ln_skip h 0 (Some a) = ret (Some a)"
| "ln_skip h (Suc count) (Some a) =
     bindc (deref (lnodes h) a) (\<lambda>ln. ln_skip h count (ln_next ln))"

text \<open>\<open>bpt_internal::split\<close>; the result is the new root.\<close>

definition int_split :: "('k, 'v) heap \<Rightarrow> addr \<Rightarrow> (('k, 'v) heap \<times> addr) comp" where
  "int_split h i =
     bindc (deref (internals h) i) (\<lambda>n.
       (let middle = int_m_size n div 2
        in bindc (ln_skip h middle (int_m_root n)) (\<lambda>p.
           bindc (nonnull p) (\<lambda>m.
           bindc (deref (lnodes h) m) (\<lambda>ln.
             (let (h1, newInternal) =
                    new_internal \<lparr>int_m_lesser = ln_val ln, int_m_root = ln_next ln,
                      int_m_size = sz_sub (sz_sub (int_m_size n) middle) 1\<rparr> h;
                  h2 = put_lnode m (ln\<lparr>ln_next := None, ln_val := Internal_ptr newInternal\<rparr>) h1;
                  (h3, newRoot) =
                    new_internal \<lparr>int_m_lesser = Internal_ptr i, int_m_root = Some m,
                      int_m_size = 1\<rparr> h2;
                  h4 = put_internal i (n\<lparr>int_m_size := middle\<rparr>) h3
              in ret (h4, newRoot)))))))"

text \<open>\<open>bpt_internal::set\<close>: \<open>Some r\<close> is the new root of a split node.\<close>

partial_function (option) int_set ::
  "nat \<Rightarrow> ('k::linorder, 'v) heap \<Rightarrow> addr \<Rightarrow> 'k \<Rightarrow> 'v \<Rightarrow> (('k, 'v) heap \<times> addr option) comp" where
  "int_set ord h i key val =
     bindc (get_child_ge h i key) (\<lambda>c.
     bindc (case c of
              Leaf_ptr l \<Rightarrow>
                bindc (leaf_insert ord h l key val) (\<lambda>(h1, newLeaf).
                  case newLeaf of None \<Rightarrow> ret h1 | Some l' \<Rightarrow> insert_leaf h1 i l')
            | Internal_ptr j \<Rightarrow>
                bindc (int_set ord h j key val) (\<lambda>(h1, newInternal).
                  case newInternal of None \<Rightarrow> ret h1 | Some j' \<Rightarrow> insert_internal h1 i j'))
       (\<lambda>h2.
         bindc (deref (internals h2) i) (\<lambda>n.
           if ord - 1 < int_m_size n
           then bindc (int_split h2 i) (\<lambda>(h3, r). ret (h3, Some r))
           else ret (h2, None))))"

text \<open>
  The loop of \<open>delete_child\<close> after the first node \<open>a\<close>: it unlinks a successor with the
  key, and never moves on from \<open>a\<close>.
\<close>

partial_function (option) delete_child_loop ::
  "('k, 'v) heap \<Rightarrow> addr \<Rightarrow> 'k \<Rightarrow> ('k, 'v) heap comp" where
  "delete_child_loop h a key =
     bindc (deref (lnodes h) a) (\<lambda>ln.
       case ln_next ln of
         None \<Rightarrow> ret h
       | Some b \<Rightarrow>
           bindc (deref (lnodes h) b) (\<lambda>nx.
             if ln_key nx = key
             then delete_child_loop
                    (h\<lparr>lnodes := (lnodes h)(a \<mapsto> ln\<lparr>ln_next := ln_next nx\<rparr>, b := None)\<rparr>) a key
             else delete_child_loop h a key))"

definition delete_child :: "('k, 'v) heap \<Rightarrow> addr \<Rightarrow> 'k \<Rightarrow> ('k, 'v) heap comp" where
  "delete_child h i key =
     bindc (deref (internals h) i) (\<lambda>n.
     bindc (nonnull (int_m_root n)) (\<lambda>a.
     bindc (deref (lnodes h) a) (\<lambda>ln.
       if ln_key ln = key
       then ret (h\<lparr>internals := (internals h)(i \<mapsto> n\<lparr>int_m_root := ln_next ln\<rparr>),
                   lnodes := (lnodes h)(a := None)\<rparr>)
       else delete_child_loop h a key)))"

text \<open>The virtual \<open>delete_key\<close>.\<close>

partial_function (option) child_delete_key ::
  "('k::linorder, 'v) heap \<Rightarrow> child \<Rightarrow> 'k \<Rightarrow> (('k, 'v) heap \<times> bool) comp" where
  "child_delete_key h c key =
     (case c of
        Leaf_ptr l \<Rightarrow> leaf_delete_key h l key
      | Internal_ptr i \<Rightarrow>
          bindc (get_child_ge h i key) (\<lambda>ch.
          bindc (child_delete_key h ch key) (\<lambda>(h1, deleted).
            if deleted then
              bindc (child_size h1 ch) (\<lambda>sz.
                if sz = 0 then
                  bindc (deref (internals h1) i) (\<lambda>n.
                    if int_m_lesser n = ch then ret (h1, False)
                    else bindc (delete_child h1 i key) (\<lambda>h2. ret (h2, True)))
                else ret (h1, True))
            else ret (h1, False))))"

section \<open>The tree\<close>

record ('k, 'v) tree =
  t_heap :: "('k, 'v) heap"
  t_m_root :: "addr option"

definition empty_heap :: "(addr \<Rightarrow> size_t) \<Rightarrow> ('k, 'v) heap" where
  "empty_heap g = \<lparr>lnodes = Map.empty, leaves = Map.empty, internals = Map.empty,
     fresh = 0, garbage = g\<rparr>"

definition tree_new :: "(addr \<Rightarrow> size_t) \<Rightarrow> ('k, 'v) tree" where
  "tree_new g = \<lparr>t_heap = empty_heap g, t_m_root = None\<rparr>"

definition tree_get :: "('k::linorder, 'v) tree \<Rightarrow> 'k \<Rightarrow> 'v option comp" where
  "tree_get t key =
     (case t_m_root t of
        None \<Rightarrow> ret None
      | Some r \<Rightarrow> child_get_val_ptr (t_heap t) (Internal_ptr r) key)"

definition tree_iterate :: "('k, 'v) tree \<Rightarrow> ('k \<times> 'v) list comp" where
  "tree_iterate t =
     (case t_m_root t of
        None \<Rightarrow> ret []
      | Some r \<Rightarrow> child_iterate (t_heap t) (Internal_ptr r))"

definition tree_delete_key :: "('k::linorder, 'v) tree \<Rightarrow> 'k \<Rightarrow> (('k, 'v) tree \<times> bool) comp" where
  "tree_delete_key t key =
     (case t_m_root t of
        None \<Rightarrow> ret (t, False)
      | Some r \<Rightarrow>
          bindc (child_delete_key (t_heap t) (Internal_ptr r) key) (\<lambda>(h, val).
          bindc (deref (internals h) r) (\<lambda>n.
            if val \<and> int_m_size n = 0
            then ret (\<lparr>t_heap = h\<lparr>internals := (internals h)(r := None)\<rparr>, t_m_root = None\<rparr>, val)
            else ret (\<lparr>t_heap = h, t_m_root = Some r\<rparr>, val))))"

definition tree_set ::
  "nat \<Rightarrow> ('k::linorder, 'v) tree \<Rightarrow> 'k \<Rightarrow> 'v \<Rightarrow> ('k, 'v) tree comp" where
  "tree_set ord t key val =
     (case t_m_root t of
        None \<Rightarrow>
          (let (h1, l) = new_leaf_kv key val (t_heap t)
           in bindc (new_bpt_internal h1 (Leaf_ptr l)) (\<lambda>(h2, r).
                ret \<lparr>t_heap = h2, t_m_root = Some r\<rparr>))
      | Some r \<Rightarrow>
          bindc (int_set ord (t_heap t) r key val) (\<lambda>(h1, newRoot).
            case newRoot of
              None \<Rightarrow> ret \<lparr>t_heap = h1, t_m_root = Some r\<rparr>
            | Some r' \<Rightarrow> ret \<lparr>t_heap = h1, t_m_root = Some r'\<rparr>))"

text \<open>The equations of the loops are their code.\<close>

declare leaf_iterate.simps [code] ln_ge.simps [code] child_get_val_ptr.simps [code]
  child_iterate.simps [code] int_set.simps [code] delete_child_loop.simps [code]
  child_delete_key.simps [code]

end
