(* ===== verification/Bpt_Inv.thy ===== *)
theory Bpt_Inv
  imports Bpt
begin

text \<open>
  The invariant of the B+ tree. A ghost tree names the objects that make up a tree on the
  heap; \<open>rep\<close> says the heap holds exactly these objects, \<open>rng\<close> that the keys are where a
  search looks for them, \<open>bnd\<close> that no node is over-full. The live entries of an internal
  node are a prefix of its chain: behind them there may be list nodes left over from
  splits, which no search of that node reaches because their keys are too large.
\<close>

section \<open>Ghost trees\<close>

text \<open>
  \<open>GDead\<close> is the left child of a node that is only searched for keys from its first key
  on (the new root of a split, once it is linked in as an entry).
\<close>

datatype ('k, 'v) gt =
    GDead
  | GLeaf addr "('k \<times> 'v) list"
  | GNode addr "('k, 'v) gt" "('k, 'v) ge"
and ('k, 'v) ge =
    ENil
  | ECons 'k addr "('k, 'v) gt" "('k, 'v) ge"

primrec eapp :: "('k, 'v) ge \<Rightarrow> ('k, 'v) ge \<Rightarrow> ('k, 'v) ge" where
  "eapp ENil fs = fs"
| "eapp (ECons k a t es) fs = ECons k a t (eapp es fs)"

primrec elen :: "('k, 'v) ge \<Rightarrow> nat" where
  "elen ENil = 0"
| "elen (ECons k a t es) = Suc (elen es)"

definition first_key :: "'k option \<Rightarrow> ('k, 'v) ge \<Rightarrow> 'k option" where
  "first_key hi es = (case es of ENil \<Rightarrow> hi | ECons k a t fs \<Rightarrow> Some k)"

definition first_addr :: "addr option \<Rightarrow> ('k, 'v) ge \<Rightarrow> addr option" where
  "first_addr nx es = (case es of ENil \<Rightarrow> nx | ECons k a t fs \<Rightarrow> Some a)"

text \<open>All objects of a tree, its leaves from left to right, and its content.\<close>

primrec fp :: "('k, 'v) gt \<Rightarrow> addr list" and fp_e :: "('k, 'v) ge \<Rightarrow> addr list" where
  "fp GDead = []"
| "fp (GLeaf l xs) = [l]"
| "fp (GNode i t es) = i # fp t @ fp_e es"
| "fp_e ENil = []"
| "fp_e (ECons k a t es) = a # fp t @ fp_e es"

primrec lfs :: "('k, 'v) gt \<Rightarrow> addr list" and lfs_e :: "('k, 'v) ge \<Rightarrow> addr list" where
  "lfs GDead = []"
| "lfs (GLeaf l xs) = [l]"
| "lfs (GNode i t es) = lfs t @ lfs_e es"
| "lfs_e ENil = []"
| "lfs_e (ECons k a t es) = lfs t @ lfs_e es"

primrec cont :: "('k, 'v) gt \<Rightarrow> ('k \<times> 'v) list" and cont_e :: "('k, 'v) ge \<Rightarrow> ('k \<times> 'v) list" where
  "cont GDead = []"
| "cont (GLeaf l xs) = xs"
| "cont (GNode i t es) = cont t @ cont_e es"
| "cont_e ENil = []"
| "cont_e (ECons k a t es) = cont t @ cont_e es"

section \<open>The invariant\<close>

primrec rng :: "('k::linorder, 'v) gt \<Rightarrow> 'k option \<Rightarrow> 'k option \<Rightarrow> bool"
  and rng_e :: "('k, 'v) ge \<Rightarrow> 'k option \<Rightarrow> bool" where
  "rng GDead lo hi = (lo = hi \<and> lo \<noteq> None)"
| "rng (GLeaf l xs) lo hi = (sorted_keys xs \<and> (\<forall>k\<in>fst ` set xs. ge_lo lo k \<and> lt_hi k hi))"
| "rng (GNode i t es) lo hi =
     (es \<noteq> ENil \<and> (\<forall>k. first_key None es = Some k \<longrightarrow> ge_lo lo k) \<and>
      rng t lo (first_key hi es) \<and> rng_e es hi)"
| "rng_e ENil hi = True"
| "rng_e (ECons k a t es) hi =
     (lt_hi k (first_key hi es) \<and> rng t (Some k) (first_key hi es) \<and> rng_e es hi)"

primrec bnd :: "('k, 'v) gt \<Rightarrow> nat \<Rightarrow> bool" and bnd_e :: "('k, 'v) ge \<Rightarrow> nat \<Rightarrow> bool" where
  "bnd GDead m = True"
| "bnd (GLeaf l xs) m = (length xs \<le> m)"
| "bnd (GNode i t es) m = (elen es \<le> m \<and> bnd t m \<and> bnd_e es m)"
| "bnd_e ENil m = True"
| "bnd_e (ECons k a t es) m = (bnd t m \<and> bnd_e es m)"

definition ptr_ok :: "('k, 'v) gt \<Rightarrow> child \<Rightarrow> bool" where
  "ptr_ok t c = (case t of GDead \<Rightarrow> True | GLeaf l xs \<Rightarrow> c = Leaf_ptr l | GNode i s es \<Rightarrow> c = Internal_ptr i)"

text \<open>What may follow the live entries of a node that is searched for keys below \<open>hi\<close>.\<close>

definition tail_ok :: "('k::linorder, 'v) heap \<Rightarrow> 'k option \<Rightarrow> addr option \<Rightarrow> bool" where
  "tail_ok h hi nx \<longleftrightarrow>
     nx = None \<or> (\<exists>b ln x. nx = Some b \<and> lnodes h b = Some ln \<and> hi = Some x \<and> x \<le> ln_key ln)"

primrec links :: "('k, 'v) ge \<Rightarrow> ('k, 'v) heap \<Rightarrow> addr option \<Rightarrow> bool" where
  "links ENil h nx = True"
| "links (ECons k a t es) h nx =
     ((\<exists>c. lnodes h a = Some \<lparr>ln_key = k, ln_val = c, ln_next = first_addr nx es\<rparr> \<and> ptr_ok t c) \<and>
      t \<noteq> GDead \<and> links es h nx)"

text \<open>An internal node with left child \<open>c\<close> and live entries \<open>es\<close>.\<close>

definition node_at ::
  "addr \<Rightarrow> child \<Rightarrow> ('k::linorder, 'v) ge \<Rightarrow> ('k, 'v) heap \<Rightarrow> 'k option \<Rightarrow> bool" where
  "node_at i c es h hi \<longleftrightarrow>
     (\<exists>nx. internals h i = Some \<lparr>int_m_lesser = c, int_m_root = first_addr nx es,
             int_m_size = elen es\<rparr> \<and> links es h nx \<and> tail_ok h hi nx)"

primrec rep :: "('k::linorder, 'v) gt \<Rightarrow> ('k, 'v) heap \<Rightarrow> 'k option \<Rightarrow> bool"
  and reps :: "('k, 'v) ge \<Rightarrow> ('k, 'v) heap \<Rightarrow> 'k option \<Rightarrow> bool" where
  "rep GDead h hi = True"
| "rep (GLeaf l xs) h hi =
     (\<exists>nx. leaves h l = Some \<lparr>leaf_m_next = nx,
             leaf_m_list = \<lparr>ll_root = xs, ll_size = length xs\<rparr>\<rparr>)"
| "rep (GNode i t es) h hi =
     ((\<exists>c. node_at i c es h hi \<and> ptr_ok t c) \<and>
      rep t h (first_key hi es) \<and> reps es h hi)"
| "reps ENil h hi = True"
| "reps (ECons k a t es) h hi = (rep t h (first_key hi es) \<and> reps es h hi)"

text \<open>Well placed on the heap: represented, ordered, and made of distinct allocated objects.\<close>

definition good :: "('k::linorder, 'v) heap \<Rightarrow> 'k option \<Rightarrow> 'k option \<Rightarrow> ('k, 'v) gt \<Rightarrow> bool" where
  "good h lo hi t \<longleftrightarrow>
     rep t h hi \<and> rng t lo hi \<and> distinct (fp t) \<and> (\<forall>x\<in>set (fp t). x < fresh h)"

definition good_e :: "('k::linorder, 'v) heap \<Rightarrow> 'k option \<Rightarrow> ('k, 'v) ge \<Rightarrow> bool" where
  "good_e h hi es \<longleftrightarrow>
     reps es h hi \<and> rng_e es hi \<and> distinct (fp_e es) \<and> (\<forall>x\<in>set (fp_e es). x < fresh h)"

text \<open>The leaves of a tree, linked from left to right, with \<open>z\<close> behind the last.\<close>

definition nxt :: "addr list \<Rightarrow> addr option \<Rightarrow> addr option" where
  "nxt ls z = (case ls of [] \<Rightarrow> z | l # _ \<Rightarrow> Some l)"

primrec leaf_chain :: "('k, 'v) heap \<Rightarrow> addr list \<Rightarrow> addr option \<Rightarrow> bool" where
  "leaf_chain h [] z = True"
| "leaf_chain h (l # ls) z =
     ((\<exists>lf. leaves h l = Some lf \<and> leaf_m_next lf = nxt ls z) \<and> leaf_chain h ls z)"

text \<open>
  A change of the heap that keeps the objects outside \<open>S\<close>, never changes the key of a
  list node and only adds objects at fresh addresses.
\<close>

definition same_at :: "('k, 'v) heap \<Rightarrow> ('k, 'v) heap \<Rightarrow> addr \<Rightarrow> bool" where
  "same_at h h' x \<longleftrightarrow>
     leaves h' x = leaves h x \<and> internals h' x = internals h x \<and> lnodes h' x = lnodes h x"

definition keyext :: "('k, 'v) heap \<Rightarrow> ('k, 'v) heap \<Rightarrow> bool" where
  "keyext h h' \<longleftrightarrow>
     (\<forall>a ln. lnodes h a = Some ln \<longrightarrow> (\<exists>ln'. lnodes h' a = Some ln' \<and> ln_key ln' = ln_key ln))"

definition frame :: "('k, 'v) heap \<Rightarrow> ('k, 'v) heap \<Rightarrow> addr set \<Rightarrow> bool" where
  "frame h h' S \<longleftrightarrow>
     (\<forall>x. x < fresh h \<and> x \<notin> S \<longrightarrow> same_at h h' x) \<and> keyext h h' \<and>
     fresh h \<le> fresh h' \<and> garbage h' = garbage h"

text \<open>No object lives at an address that was not handed out yet.\<close>

definition alloc_ok :: "('k, 'v) heap \<Rightarrow> bool" where
  "alloc_ok h \<longleftrightarrow> (\<forall>x \<ge> fresh h. lnodes h x = None \<and> leaves h x = None \<and> internals h x = None)"

section \<open>Basic facts\<close>

lemma eapp_assoc [simp]: "eapp (eapp es fs) gs = eapp es (eapp fs gs)"
  by (induction es) auto

lemma elen_eapp [simp]: "elen (eapp es fs) = elen es + elen fs"
  by (induction es) auto

lemma fp_e_eapp [simp]: "fp_e (eapp es fs) = fp_e es @ fp_e fs"
  by (induction es) auto

lemma lfs_e_eapp [simp]: "lfs_e (eapp es fs) = lfs_e es @ lfs_e fs"
  by (induction es) auto

lemma cont_e_eapp [simp]: "cont_e (eapp es fs) = cont_e es @ cont_e fs"
  by (induction es) auto

lemma bnd_e_eapp [simp]: "bnd_e (eapp es fs) m \<longleftrightarrow> bnd_e es m \<and> bnd_e fs m"
  by (induction es) auto

lemma first_simps [simp]:
  "first_key hi ENil = hi" "first_key hi (ECons k a t es) = Some k"
  "first_addr nx ENil = nx" "first_addr nx (ECons k a t es) = Some a"
  by (simp_all add: first_key_def first_addr_def)

lemma first_eapp [simp]:
  "first_key hi (eapp es fs) = first_key (first_key hi fs) es"
  "first_addr nx (eapp es fs) = first_addr (first_addr nx fs) es"
  by (cases es; simp)+

lemma eapp_neq_ENil [simp]: "eapp es fs = ENil \<longleftrightarrow> es = ENil \<and> fs = ENil"
  by (cases es) auto

lemma eapp_neq_ENil2 [simp]: "ENil = eapp es fs \<longleftrightarrow> es = ENil \<and> fs = ENil"
  by (cases es) auto

lemma eapp_ENil_right [simp]: "eapp es ENil = es"
  by (induction es) auto

lemma rng_e_eapp [simp]:
  "rng_e (eapp es fs) hi \<longleftrightarrow> rng_e es (first_key hi fs) \<and> rng_e fs hi"
  by (induction es) auto

lemma links_eapp [simp]:
  "links (eapp es fs) h nx \<longleftrightarrow> links es h (first_addr nx fs) \<and> links fs h nx"
  by (induction es) auto

lemma reps_eapp [simp]:
  "reps (eapp es fs) h hi \<longleftrightarrow> reps es h (first_key hi fs) \<and> reps fs h hi"
  by (induction es) auto

lemma ptr_ok_simps [simp]:
  "ptr_ok GDead c" "ptr_ok (GLeaf l xs) c \<longleftrightarrow> c = Leaf_ptr l"
  "ptr_ok (GNode i t es) c \<longleftrightarrow> c = Internal_ptr i"
  by (simp_all add: ptr_ok_def)

lemma nxt_simps [simp]: "nxt [] z = z" "nxt (l # ls) z = Some l"
  by (simp_all add: nxt_def)

lemma nxt_append [simp]: "nxt (xs @ ys) z = nxt xs (nxt ys z)"
  by (cases xs) auto

lemma leaf_chain_append [simp]:
  "leaf_chain h (xs @ ys) z \<longleftrightarrow> leaf_chain h xs (nxt ys z) \<and> leaf_chain h ys z"
  by (induction xs) auto

lemma leaf_chain_cong:
  "(\<forall>x\<in>set ls. leaves h' x = leaves h x) \<Longrightarrow> leaf_chain h' ls z = leaf_chain h ls z"
  by (induction ls) auto

lemma lfs_sub_fp:
  fixes t :: "('k, 'v) gt" and es :: "('k, 'v) ge"
  shows "set (lfs t) \<subseteq> set (fp t)" "set (lfs_e es) \<subseteq> set (fp_e es)"
  by (induction t and es rule: gt.induct ge.induct) auto

lemma elen_0_conv [simp]: "elen es = 0 \<longleftrightarrow> es = ENil"
  by (cases es) auto

text \<open>Splitting the entries at an index, as \<open>split\<close> does.\<close>

lemma elen_split:
  "m < elen es \<Longrightarrow> \<exists>es1 k a t es2. es = eapp es1 (ECons k a t es2) \<and> elen es1 = m"
proof (induction m arbitrary: es)
  case 0
  then obtain k a t fs where "es = ECons k a t fs" by (cases es) auto
  then have "es = eapp ENil (ECons k a t fs)" by simp
  then show ?case by (metis elen.simps(1))
next
  case (Suc m)
  then obtain k a t fs where es: "es = ECons k a t fs" and "m < elen fs" by (cases es) auto
  with Suc.IH obtain es1 k' a' t' es2 where "fs = eapp es1 (ECons k' a' t' es2)" and "elen es1 = m"
    by blast
  with es have "es = eapp (ECons k a t es1) (ECons k' a' t' es2) \<and> elen (ECons k a t es1) = Suc m"
    by simp
  then show ?case by blast
qed

subsection \<open>Keys and ranges\<close>

text \<open>Keys of a tree lie in its range; contents are sorted.\<close>

lemma lt_hi_first:
  "rng_e (ECons k a t es) hi \<Longrightarrow> lt_hi k hi"
proof (induction es arbitrary: k a t rule: ge.induct [of "\<lambda>_. True"])
  case (ECons k' a' t' es)
  from ECons.prems have "k < k'" and "rng_e (ECons k' a' t' es) hi" by auto
  with ECons.IH have "lt_hi k' hi" by blast
  with \<open>k < k'\<close> show ?case by (meson less_imp_le lt_hi_trans)
qed auto

lemma rng_keys:
  fixes t :: "('k::linorder, 'v) gt" and es :: "('k, 'v) ge"
  shows "rng t lo hi \<Longrightarrow> \<forall>k\<in>fst ` set (cont t). ge_lo lo k \<and> lt_hi k hi"
  "rng_e es hi \<Longrightarrow>
     \<forall>k\<in>fst ` set (cont_e es). (\<forall>k1. first_key None es = Some k1 \<longrightarrow> k1 \<le> k) \<and> lt_hi k hi"
proof (induction t and es arbitrary: lo hi and hi rule: gt.induct ge.induct)
  case (GNode i t es)
  obtain k1 a1 t1 es1 where es: "es = ECons k1 a1 t1 es1" using GNode.prems by (cases es) auto
  have "\<forall>k\<in>fst ` set (cont t). ge_lo lo k \<and> k < k1"
    using GNode.IH(1) [of lo "first_key hi es"] GNode.prems by (simp add: es)
  moreover have "lt_hi k1 hi" using GNode.prems lt_hi_first by (auto simp: es)
  moreover have "\<forall>k\<in>fst ` set (cont_e es). k1 \<le> k \<and> lt_hi k hi"
    using GNode.IH(2) [of hi] GNode.prems by (simp add: es)
  moreover have "ge_lo lo k1" using GNode.prems by (simp add: es)
  ultimately show ?case
    by (auto dest: less_imp_le intro: ge_lo_trans lt_hi_trans)
next
  case (ECons k a t es)
  have t: "\<forall>k'\<in>fst ` set (cont t). k \<le> k' \<and> lt_hi k' (first_key hi es)"
    using ECons.IH(1) [of "Some k" "first_key hi es"] ECons.prems by simp
  have es: "\<forall>k'\<in>fst ` set (cont_e es).
      (\<forall>k1. first_key None es = Some k1 \<longrightarrow> k1 \<le> k') \<and> lt_hi k' hi"
    using ECons.IH(2) [of hi] ECons.prems by simp
  show ?case
  proof (cases es)
    case ENil
    with t show ?thesis by simp
  next
    case (ECons k' a' t' fs)
    then have "k < k'" and "lt_hi k' hi" using ECons.prems lt_hi_first by auto
    with t es show ?thesis
      by (auto simp: ECons dest: less_imp_le order_trans intro: lt_hi_trans)
  qed
qed auto

lemma cont_e_ge:
  "rng_e (ECons k a t es) hi \<Longrightarrow> \<forall>k'\<in>fst ` set (cont_e (ECons k a t es)). k \<le> k'"
  using rng_keys(2) [of "ECons k a t es" hi] by auto

lemma sorted_keys_append:
  "sorted_keys (xs @ ys) \<longleftrightarrow>
     sorted_keys xs \<and> sorted_keys ys \<and> (\<forall>x\<in>fst ` set xs. \<forall>y\<in>fst ` set ys. x < y)"
  by (auto simp: sorted_wrt_append)

text \<open>The content is sorted.\<close>

lemma cont_sorted:
  fixes t :: "('k::linorder, 'v) gt" and es :: "('k, 'v) ge"
  shows "rng t lo hi \<Longrightarrow> sorted_keys (cont t)"
  "rng_e es hi \<Longrightarrow> sorted_keys (cont_e es)"
proof (induction t and es arbitrary: lo hi and hi rule: gt.induct ge.induct)
  case (GNode i t es)
  obtain k1 a1 t1 es1 where es: "es = ECons k1 a1 t1 es1" using GNode.prems by (cases es) auto
  have "\<forall>k\<in>fst ` set (cont t). k < k1"
    using rng_keys(1) [of t lo "first_key hi es"] GNode.prems by (simp add: es)
  moreover have "\<forall>k\<in>fst ` set (cont_e es). k1 \<le> k"
    using cont_e_ge [of k1 a1 t1 es1 hi] GNode.prems by (simp add: es)
  ultimately have "\<forall>x\<in>fst ` set (cont t). \<forall>y\<in>fst ` set (cont_e es). x < y"
    by (meson less_le_trans)
  then show ?case
    using GNode.IH GNode.prems by (auto simp: sorted_keys_append simp del: map_append)
next
  case (ECons k a t es)
  show ?case
  proof (cases es)
    case ENil
    with ECons show ?thesis by auto
  next
    case (ECons k' a' t' fs)
    have "\<forall>x\<in>fst ` set (cont t). x < k'"
      using rng_keys(1) [of t "Some k" "first_key hi es"] ECons.prems ECons by auto
    moreover have "\<forall>x\<in>fst ` set (cont_e es). k' \<le> x"
      using cont_e_ge [of k' a' t' fs hi] ECons.prems ECons by simp
    ultimately have "\<forall>x\<in>fst ` set (cont t). \<forall>y\<in>fst ` set (cont_e es). x < y"
      by (meson less_le_trans)
    then show ?thesis
      using ECons.IH ECons.prems by (auto simp: sorted_keys_append simp del: map_append)
  qed
qed auto

subsection \<open>Frames\<close>

lemma keyext_refl [simp]: "keyext h h"
  by (simp add: keyext_def)

lemma keyext_trans: "keyext h h1 \<Longrightarrow> keyext h1 h2 \<Longrightarrow> keyext h h2"
  by (fastforce simp: keyext_def)

lemma tail_ok_keyext: "tail_ok h hi nx \<Longrightarrow> keyext h h' \<Longrightarrow> tail_ok h' hi nx"
  by (fastforce simp: tail_ok_def keyext_def)

lemma links_frame:
  "links es h nx \<Longrightarrow> \<forall>x\<in>set (fp_e es). same_at h h' x \<Longrightarrow> links es h' nx"
  by (induction es rule: ge.induct [of "\<lambda>_. True"]) (auto simp: same_at_def)

lemma node_at_frame:
  assumes "node_at i c es h hi" and "same_at h h' i" and "\<forall>x\<in>set (fp_e es). same_at h h' x"
    and "keyext h h'"
  shows "node_at i c es h' hi"
  using assms links_frame [of es h _ h'] tail_ok_keyext [of h hi _ h']
  by (fastforce simp: node_at_def same_at_def)

lemma rep_frame:
  fixes t :: "('k::linorder, 'v) gt" and es :: "('k, 'v) ge"
  shows "rep t h hi \<Longrightarrow> \<forall>x\<in>set (fp t). same_at h h' x \<Longrightarrow> keyext h h' \<Longrightarrow> rep t h' hi"
    and "reps es h hi \<Longrightarrow> \<forall>x\<in>set (fp_e es). same_at h h' x \<Longrightarrow> keyext h h' \<Longrightarrow> reps es h' hi"
proof (induction t and es arbitrary: hi and hi rule: gt.induct ge.induct)
  case (GNode i t es)
  then show ?case using node_at_frame [of i _ es h hi h'] by auto
qed (auto simp: same_at_def)

lemma frame_refl [simp]: "frame h h S"
  by (simp add: frame_def same_at_def)

lemma frame_trans:
  assumes "frame h h1 S" and "frame h1 h2 T" and "T \<subseteq> S \<union> {x. fresh h \<le> x}"
  shows "frame h h2 S"
  using assms unfolding frame_def
  by (auto intro: keyext_trans simp: same_at_def) (metis (no_types, lifting) leD less_le_trans subsetD UnE mem_Collect_eq)+

lemma frame_mono: "frame h h' S \<Longrightarrow> S \<subseteq> T \<Longrightarrow> frame h h' T"
  by (auto simp: frame_def)

lemma frame_keyext: "frame h h' S \<Longrightarrow> keyext h h'"
  by (simp add: frame_def)

lemma frame_same: "frame h h' S \<Longrightarrow> x < fresh h \<Longrightarrow> x \<notin> S \<Longrightarrow> same_at h h' x"
  by (simp add: frame_def)

lemma good_frame:
  assumes "good h lo hi t" and "frame h h' S" and "set (fp t) \<inter> S = {}"
  shows "good h' lo hi t"
proof -
  have "\<forall>x\<in>set (fp t). same_at h h' x"
    using assms by (auto simp: good_def frame_def)
  then show ?thesis
    using assms rep_frame(1) [of t h hi h'] by (fastforce simp: good_def frame_def)
qed

lemma good_e_frame:
  assumes "good_e h hi es" and "frame h h' S" and "set (fp_e es) \<inter> S = {}"
  shows "good_e h' hi es"
proof -
  have "\<forall>x\<in>set (fp_e es). same_at h h' x"
    using assms by (auto simp: good_e_def frame_def)
  then show ?thesis
    using assms rep_frame(2) [of es h hi h'] by (fastforce simp: good_e_def frame_def)
qed

text \<open>What good standing of a node means for its parts.\<close>

lemma good_GNode:
  "good h lo hi (GNode i t es) \<longleftrightarrow>
     (\<exists>c. node_at i c es h hi \<and> ptr_ok t c) \<and> es \<noteq> ENil \<and>
     (\<forall>k. first_key None es = Some k \<longrightarrow> ge_lo lo k) \<and>
     good h lo (first_key hi es) t \<and> good_e h hi es \<and> i < fresh h \<and>
     i \<notin> set (fp t) \<and> i \<notin> set (fp_e es) \<and> set (fp t) \<inter> set (fp_e es) = {}"
  by (auto simp: good_def good_e_def)

lemma good_e_ECons:
  "good_e h hi (ECons k a t es) \<longleftrightarrow>
     lt_hi k (first_key hi es) \<and> good h (Some k) (first_key hi es) t \<and> good_e h hi es \<and>
     a < fresh h \<and> a \<notin> set (fp t) \<and> a \<notin> set (fp_e es) \<and> set (fp t) \<inter> set (fp_e es) = {}"
  by (auto simp: good_def good_e_def)

lemma good_e_ENil [simp]: "good_e h hi ENil"
  by (simp add: good_e_def)

lemma good_e_eapp:
  "good_e h hi (eapp es fs) \<longleftrightarrow>
     good_e h (first_key hi fs) es \<and> good_e h hi fs \<and> set (fp_e es) \<inter> set (fp_e fs) = {}"
  by (auto simp: good_e_def)

end
