(* ===== verification/Bpt_Search.thy ===== *)
theory Bpt_Search
  imports Bpt_Inv
begin

text \<open>
  Searching and iterating over a tree that satisfies the invariant: \<open>get_child_ge\<close> picks
  the subtree whose range holds the key, \<open>get_val_ptr\<close> answers from the content, and
  \<open>iterate\<close> walks all leaves in order.
\<close>

section \<open>The entry for a key\<close>

lemma entry_find:
  assumes "rng_e es hi" and "first_key None es = Some k1" and "k1 \<le> key" and "lt_hi key hi"
  shows "\<exists>es1 k a t es2. es = eapp es1 (ECons k a t es2) \<and> k \<le> key \<and> lt_hi key (first_key hi es2)"
  using assms
proof (induction es arbitrary: k1 rule: ge.induct [of "\<lambda>_. True"])
  case (ECons k a t es)
  show ?case
  proof (cases "lt_hi key (first_key hi es)")
    case True
    have "ECons k a t es = eapp ENil (ECons k a t es) \<and> k \<le> key \<and> lt_hi key (first_key hi es)"
      using ECons.prems True by simp
    then show ?thesis by blast
  next
    case False
    then obtain k' a' t' fs where es: "es = ECons k' a' t' fs" and "k' \<le> key"
      using ECons.prems by (cases es) auto
    with ECons.IH ECons.prems obtain es1 k2 a2 t2 es2 where
      "es = eapp es1 (ECons k2 a2 t2 es2)" "k2 \<le> key" "lt_hi key (first_key hi es2)"
      by (metis first_simps(2) rng_e.simps(2))
    then have "ECons k a t es = eapp (ECons k a t es1) (ECons k2 a2 t2 es2) \<and> k2 \<le> key \<and>
        lt_hi key (first_key hi es2)" by simp
    then show ?thesis by blast
  qed
qed auto

lemma ln_ge_stop:
  assumes "links (ECons k a t es) h nx" and "tail_ok h hi nx" and "lt_hi key (first_key hi es)"
  shows "ln_ge h key a = ret a"
proof (cases es)
  case ENil
  with assms show ?thesis
    by (subst ln_ge.simps) (auto simp: tail_ok_def split: option.split)
next
  case (ECons k' a' t' fs)
  with assms show ?thesis by (subst ln_ge.simps) auto
qed

lemma rng_e_keys_less:
  "rng_e (eapp es (ECons k a t fs)) hi \<Longrightarrow> first_key None es = Some k' \<Longrightarrow> k' < k"
proof (cases es)
  case (ECons k0 a0 t0 es0)
  assume "rng_e (eapp es (ECons k a t fs)) hi" and "first_key None es = Some k'"
  then show "k' < k" using lt_hi_first [of k0 a0 t0 es0 "Some k"] by (simp add: ECons)
qed simp

lemma ln_ge_entry:
  assumes "links (eapp es1 (ECons k a t es2)) h nx" and "rng_e (eapp es1 (ECons k a t es2)) hi"
    and "tail_ok h hi nx" and "k \<le> key" and "lt_hi key (first_key hi es2)"
    and "first_addr nx (eapp es1 (ECons k a t es2)) = Some p"
  shows "ln_ge h key p = ret a"
  using assms(1,2,6)
proof (induction es1 arbitrary: p rule: ge.induct [of "\<lambda>_. True"])
  case ENil
  then show ?case using ln_ge_stop [of k a t es2 h nx hi key] assms(3,5) by simp
next
  case (ECons k0 a0 t0 es0)
  let ?rest = "eapp es0 (ECons k a t es2)"
  obtain q where q: "first_addr nx ?rest = Some q" by (cases es0) auto
  then have IH: "ln_ge h key q = ret a" using ECons by auto
  have "\<exists>ln. lnodes h q = Some ln \<and> ln_key ln \<le> key"
  proof (cases es0)
    case ENil
    with q ECons.prems assms(4) show ?thesis by auto
  next
    case (ECons k3 a3 t3 es3)
    then have "k3 < k" using ECons.prems rng_e_keys_less [of es0 k a t es2 hi k3] by simp
    with q ECons.prems ECons assms(4) show ?thesis by auto
  qed
  with IH q ECons.prems show ?case
    by (subst ln_ge.simps) (auto simp: not_less)
qed auto

section \<open>Choosing a child\<close>

text \<open>The two outcomes of \<open>get_child_ge\<close> on a node in good standing.\<close>

lemma get_child_ge_lesser:
  assumes "rep (GNode i t es) h hi" and "rng (GNode i t es) lo hi"
    and "ge_lo lo key" and "lt_hi key (first_key None es)"
  shows "\<exists>c. get_child_ge h i key = ret c \<and> ptr_ok t c \<and> t \<noteq> GDead"
proof -
  obtain k1 a1 t1 es1 where es: "es = ECons k1 a1 t1 es1" using assms(2) by (cases es) auto
  obtain c nx c1 where
    "internals h i = Some \<lparr>int_m_lesser = c, int_m_root = Some a1, int_m_size = elen es\<rparr>"
    "ptr_ok t c" "lnodes h a1 = Some \<lparr>ln_key = k1, ln_val = c1, ln_next = first_addr nx es1\<rparr>"
    using assms(1) by (auto simp: es node_at_def)
  moreover have "t \<noteq> GDead" using assms(2,3,4) by (auto simp: es)
  ultimately show ?thesis
    using assms(4) by (auto simp: get_child_ge_def int_primary_key_def es)
qed

lemma get_child_ln_ge_entry:
  assumes "node_at i c0 (eapp es1 (ECons k a t es2)) h hi"
    and "rng_e (eapp es1 (ECons k a t es2)) hi"
    and "k \<le> key" and "lt_hi key (first_key hi es2)"
  shows "get_child_ln_ge h i key = ret a"
proof -
  let ?es = "eapp es1 (ECons k a t es2)"
  obtain nx where n: "internals h i = Some \<lparr>int_m_lesser = c0,
      int_m_root = first_addr nx ?es, int_m_size = elen ?es\<rparr>"
    and "links ?es h nx" and "tail_ok h hi nx" using assms(1) by (auto simp: node_at_def)
  moreover obtain p where p: "first_addr nx ?es = Some p" by (cases es1) auto
  ultimately have "ln_ge h key p = ret a" using assms(2-4) by (blast intro: ln_ge_entry)
  with n p show ?thesis by (simp add: get_child_ln_ge_def)
qed

lemma get_child_ge_entry:
  assumes "rep (GNode i t0 (eapp es1 (ECons k a t es2))) h hi"
    and "rng_e (eapp es1 (ECons k a t es2)) hi"
    and "k \<le> key" and "lt_hi key (first_key hi es2)"
  shows "\<exists>c. get_child_ge h i key = ret c \<and> ptr_ok t c \<and> t \<noteq> GDead"
proof -
  let ?es = "eapp es1 (ECons k a t es2)"
  obtain k1 a1 t1 fs where es: "?es = ECons k1 a1 t1 fs" by (cases es1) auto
  then have "k1 \<le> k" using assms(2) rng_e_keys_less [of es1] by (cases es1) fastforce+
  with assms(3) have "\<not> key < k1" by auto
  moreover obtain c0 nx c1 where n: "node_at i c0 ?es h hi" and
    "internals h i = Some \<lparr>int_m_lesser = c0, int_m_root = Some a1, int_m_size = elen ?es\<rparr>"
    "lnodes h a1 = Some \<lparr>ln_key = k1, ln_val = c1, ln_next = first_addr nx fs\<rparr>"
    using assms(1) es by (auto simp: node_at_def)
  moreover obtain c2 nx2 where "lnodes h a = Some \<lparr>ln_key = k, ln_val = c2, ln_next = nx2\<rparr>"
    "ptr_ok t c2" "t \<noteq> GDead" using n by (auto simp: node_at_def)
  ultimately show ?thesis
    using get_child_ln_ge_entry [OF n assms(2-4)]
    by (auto simp: get_child_ge_def int_primary_key_def)
qed

section \<open>Lookup\<close>

lemma map_of_outside:
  fixes k :: "'k::linorder"
  shows "\<forall>x\<in>fst ` set xs. x < k \<Longrightarrow> map_of xs k = None"
  "\<forall>x\<in>fst ` set xs. k < x \<Longrightarrow> map_of xs k = None"
  by (auto simp: map_of_eq_None_iff)

text \<open>Only the subtree of the key's entry can hold the key.\<close>

lemma map_of_lesser:
  assumes "rng (GNode i t es) lo hi" and "lt_hi key (first_key None es)"
  shows "map_of (cont (GNode i t es)) key = map_of (cont t) key"
proof -
  obtain k1 a1 t1 es1 where es: "es = ECons k1 a1 t1 es1" using assms(1) by (cases es) auto
  have "\<forall>k\<in>fst ` set (cont_e es). key < k"
    using cont_e_ge [of k1 a1 t1 es1 hi] assms by (auto simp: es dest: less_le_trans)
  then show ?thesis by (auto simp: map_add_def map_of_outside(2) split: option.split)
qed

lemma cont_before:
  assumes "rng (GNode i t0 (eapp es1 (ECons k a t es2))) lo hi"
  shows "\<forall>x\<in>fst ` set (cont t0 @ cont_e es1). x < k"
proof -
  have "\<forall>x\<in>fst ` set (cont t0). lt_hi x (first_key (Some k) es1)"
    using rng_keys(1) [of t0 lo "first_key (Some k) es1"] assms by simp
  moreover have "\<forall>x\<in>fst ` set (cont_e es1). x < k"
    using rng_keys(2) [of es1 "Some k"] assms by simp
  moreover have "lt_hi x (first_key (Some k) es1) \<Longrightarrow> x < k" for x
    using assms rng_e_keys_less [of es1 k a t es2 hi] by (cases es1) (auto intro: less_trans)
  ultimately show ?thesis by auto
qed

lemma cont_after:
  assumes "rng_e (ECons k a t es2) hi" and "lt_hi key (first_key hi es2)"
  shows "\<forall>x\<in>fst ` set (cont_e es2). key < x"
proof (cases es2)
  case (ECons k' a' t' fs)
  then show ?thesis
    using cont_e_ge [of k' a' t' fs hi] assms by (auto dest: less_le_trans)
qed simp

lemma map_of_entry:
  assumes "rng (GNode i t0 (eapp es1 (ECons k a t es2))) lo hi"
    and "k \<le> key" and "lt_hi key (first_key hi es2)"
  shows "map_of (cont (GNode i t0 (eapp es1 (ECons k a t es2)))) key = map_of (cont t) key"
proof -
  have "\<forall>x\<in>fst ` set (cont t0 @ cont_e es1). x < key"
    using cont_before [OF assms(1)] assms(2) by (auto dest: less_le_trans)
  then have "map_of (cont t0) key = None" and "map_of (cont_e es1) key = None"
    by (auto intro!: map_of_outside(1))
  moreover have "map_of (cont_e es2) key = None"
    using cont_after [of k a t es2 hi key] assms by (intro map_of_outside(2)) auto
  ultimately show ?thesis by (auto simp: map_add_def split: option.split)
qed

lemma child_get_val_ptr_correct:
  fixes t :: "('k::linorder, 'v) gt" and es :: "('k, 'v) ge"
  shows "rep t h hi \<Longrightarrow> rng t lo hi \<Longrightarrow> ptr_ok t c \<Longrightarrow> t \<noteq> GDead \<Longrightarrow> ge_lo lo key \<Longrightarrow> lt_hi key hi \<Longrightarrow>
      child_get_val_ptr h c key = ret (map_of (cont t) key)"
    and "reps es h hi \<Longrightarrow> rng_e es hi \<Longrightarrow> \<forall>es1 k a t es2 c. es = eapp es1 (ECons k a t es2) \<longrightarrow>
      ptr_ok t c \<longrightarrow> t \<noteq> GDead \<longrightarrow> k \<le> key \<longrightarrow> lt_hi key (first_key hi es2) \<longrightarrow>
      child_get_val_ptr h c key = ret (map_of (cont t) key)"
proof (induction t and es arbitrary: lo hi c and hi rule: gt.induct ge.induct)
  case (GLeaf l xs)
  then show ?case
    by (subst child_get_val_ptr.simps) (auto simp: leaf_list_get_val_ptr_def)
next
  case (GNode i t es)
  show ?case
  proof (cases "lt_hi key (first_key None es)")
    case True
    then obtain c' where c': "get_child_ge h i key = ret c'" "ptr_ok t c'" "t \<noteq> GDead"
      using get_child_ge_lesser [of i t es h hi lo key] GNode.prems by blast
    have "lt_hi key (first_key hi es)"
      using True GNode.prems by (cases es) auto
    then have "child_get_val_ptr h c' key = ret (map_of (cont t) key)"
      using GNode.IH(1) [of "first_key hi es" lo c'] GNode.prems c' by simp
    then show ?thesis
      using GNode.prems c' map_of_lesser [OF GNode.prems(2) True]
      by (subst child_get_val_ptr.simps) simp
  next
    case False
    then obtain k1 where "first_key None es = Some k1" and "k1 \<le> key"
      by (cases "first_key None es") auto
    then obtain es1 k a s es2 where es: "es = eapp es1 (ECons k a s es2)" and k: "k \<le> key"
      and hi2: "lt_hi key (first_key hi es2)"
      using entry_find [of es hi k1 key] GNode.prems by auto
    then obtain c' where c': "get_child_ge h i key = ret c'" "ptr_ok s c'" "s \<noteq> GDead"
      using get_child_ge_entry [of i t es1 k a s es2 h hi key] GNode.prems by auto
    then have "child_get_val_ptr h c' key = ret (map_of (cont s) key)"
      using GNode.IH(2) [of hi] GNode.prems es k hi2 by auto
    then show ?thesis
      using GNode.prems c' map_of_entry [of i t es1 k a s es2 lo hi key] es k hi2
      by (subst child_get_val_ptr.simps) simp
  qed
next
  case (ECons k a t es)
  show ?case
  proof (intro allI impI)
    fix es1 k' a' t' es2 c
    assume eq: "ECons k a t es = eapp es1 (ECons k' a' t' es2)" and "ptr_ok t' c" "t' \<noteq> GDead"
      and "k' \<le> key" and "lt_hi key (first_key hi es2)"
    then show "child_get_val_ptr h c key = ret (map_of (cont t') key)"
      using ECons.IH(1) [of "first_key hi es" "Some k" c] ECons.IH(2) [of hi] ECons.prems
      by (cases es1) auto
  qed
qed auto

section \<open>Iteration\<close>

lemma leaf_iterate_chain:
  fixes t :: "('k::linorder, 'v) gt" and es :: "('k, 'v) ge"
  shows "rep t h hi \<Longrightarrow> leaf_chain h (lfs t) z \<Longrightarrow> leaf_iterate h z = ret ys \<Longrightarrow>
      leaf_iterate h (nxt (lfs t) z) = ret (cont t @ ys)"
    and "reps es h hi \<Longrightarrow> leaf_chain h (lfs_e es) z \<Longrightarrow> leaf_iterate h z = ret ys \<Longrightarrow>
      leaf_iterate h (nxt (lfs_e es) z) = ret (cont_e es @ ys)"
proof (induction t and es arbitrary: hi z ys and hi z ys rule: gt.induct ge.induct)
  case (GLeaf l xs)
  then show ?case
    by (subst leaf_iterate.simps) (auto simp: leaf_list_iterate_def)
qed auto

lemma child_iterate_lfs:
  "rep t h hi \<Longrightarrow> rng t None hi \<Longrightarrow> ptr_ok t c \<Longrightarrow> child_iterate h c = leaf_iterate h (nxt (lfs t) z)"
proof (induction t arbitrary: hi c z rule: gt.induct [where ?P2.0 = "\<lambda>_. True"])
  case (GLeaf l xs)
  then show ?case by (subst child_iterate.simps) simp
next
  case (GNode i t es)
  then obtain c' nx where n: "internals h i = Some \<lparr>int_m_lesser = c',
      int_m_root = first_addr nx es, int_m_size = elen es\<rparr>" and "ptr_ok t c'" by (auto simp: node_at_def)
  then have "child_iterate h c = child_iterate h c'"
    using GNode.prems(3) child_iterate.simps [of h c] by simp
  moreover have "child_iterate h c' = leaf_iterate h (nxt (lfs t) (nxt (lfs_e es) z))"
    using GNode.IH(1) [of "first_key hi es" c'] GNode.prems \<open>ptr_ok t c'\<close> by auto
  ultimately show ?case by simp
qed auto

lemma leaf_iterate_None [simp]: "leaf_iterate h None = ret []"
  by (subst leaf_iterate.simps) simp

lemma child_iterate_correct:
  assumes "rep t h hi" and "rng t None hi" and "ptr_ok t c" and "leaf_chain h (lfs t) None"
  shows "child_iterate h c = ret (cont t)"
  using child_iterate_lfs [OF assms(1-3), of None] leaf_iterate_chain(1) [OF assms(1,4), of "[]"]
  by simp

end
