(* ===== verification/Bpt_Node.thy ===== *)
theory Bpt_Node
  imports Bpt_Search
begin

text \<open>
  What the operations on one node do to the heap: inserting into a leaf (with its split),
  linking a new entry into an internal node, and splitting an internal node.
\<close>

section \<open>Allocation\<close>

lemma alloc_okD:
  "alloc_ok h \<Longrightarrow> lnodes h (fresh h) = None"
  "alloc_ok h \<Longrightarrow> leaves h (fresh h) = None"
  "alloc_ok h \<Longrightarrow> internals h (fresh h) = None"
  by (auto simp: alloc_ok_def)

text \<open>Updates of one object at an allocated address, or of a fresh one.\<close>

lemma frame_put_leaf:
  "l \<in> S \<or> l = fresh h \<Longrightarrow> frame h (h\<lparr>leaves := (leaves h)(l \<mapsto> x)\<rparr>) S"
  by (auto simp: frame_def same_at_def keyext_def)

lemma frame_put_internal:
  "i \<in> S \<or> i = fresh h \<Longrightarrow> frame h (h\<lparr>internals := (internals h)(i \<mapsto> x)\<rparr>) S"
  by (auto simp: frame_def same_at_def keyext_def)

lemma alloc_ok_less:
  "alloc_ok h \<Longrightarrow> lnodes h a = Some ln \<Longrightarrow> a < fresh h"
  "alloc_ok h \<Longrightarrow> leaves h a = Some lf \<Longrightarrow> a < fresh h"
  "alloc_ok h \<Longrightarrow> internals h a = Some n \<Longrightarrow> a < fresh h"
  by (auto simp: alloc_ok_def not_less [symmetric])

section \<open>Leaves\<close>

lemma leaf_insert_nosplit:
  assumes "rep (GLeaf l xs) h hi" and "sorted_keys xs" and "length xs + 1 < size_max"
    and "length (upd_kv key val xs) \<le> m"
  shows "\<exists>h'. leaf_insert (Suc m) h l key val = ret (h', None) \<and>
           rep (GLeaf l (upd_kv key val xs)) h' hi \<and> frame h h' {l} \<and> fresh h' = fresh h \<and>
           (alloc_ok h \<longrightarrow> alloc_ok h') \<and> (\<forall>z. leaf_chain h [l] z \<longrightarrow> leaf_chain h' [l] z)"
proof -
  obtain nx where lf: "leaves h l = Some \<lparr>leaf_m_next = nx,
      leaf_m_list = \<lparr>ll_root = xs, ll_size = length xs\<rparr>\<rparr>" using assms(1) by auto
  let ?l0 = "\<lparr>ll_root = xs, ll_size = length xs\<rparr>"
  let ?lst = "leaf_list_set key val ?l0"
  have "ll_ok ?l0" using assms(2) by (simp add: ll_ok_def)
  then have r: "ll_root ?lst = upd_kv key val xs" "ll_size ?lst = length (upd_kv key val xs)"
    using assms(2,3) leaf_list_set_size [of ?l0 key val] by (auto simp: leaf_list_set_root)
  then have lst: "?lst = \<lparr>ll_root = upd_kv key val xs, ll_size = length (upd_kv key val xs)\<rparr>"
    by simp
  let ?h' = "put_leaf l \<lparr>leaf_m_next = nx, leaf_m_list = ?lst\<rparr> h"
  have "leaf_insert (Suc m) h l key val = ret (?h', None)"
    using lf assms(4) by (simp add: leaf_insert_def r Let_def)
  moreover have "frame h ?h' {l}" by (rule frame_put_leaf) simp
  moreover have "alloc_ok h \<longrightarrow> alloc_ok ?h'" using lf by (auto simp: alloc_ok_def)
  ultimately show ?thesis using lf by (auto simp: lst)
qed

lemma leaf_insert_split:
  assumes "rep (GLeaf l xs) h hi" and "sorted_keys xs" and "length xs + 1 < size_max"
    and "m < length (upd_kv key val xs)" and "1 \<le> m" and "alloc_ok h"
  shows "\<exists>h' xs1 xs2. leaf_insert (Suc m) h l key val = ret (h', Some (fresh h)) \<and>
           upd_kv key val xs = xs1 @ xs2 \<and> xs1 \<noteq> [] \<and> xs2 \<noteq> [] \<and>
           length xs1 = length (upd_kv key val xs) div 2 \<and>
           rep (GLeaf l xs1) h' hi1 \<and> rep (GLeaf (fresh h) xs2) h' hi2 \<and>
           frame h h' {l} \<and> fresh h' = Suc (fresh h) \<and> alloc_ok h' \<and>
           (\<forall>z. leaf_chain h [l] z \<longrightarrow> leaf_chain h' [l, fresh h] z)"
proof -
  obtain nx where lf: "leaves h l = Some \<lparr>leaf_m_next = nx,
      leaf_m_list = \<lparr>ll_root = xs, ll_size = length xs\<rparr>\<rparr>" using assms(1) by auto
  let ?l0 = "\<lparr>ll_root = xs, ll_size = length xs\<rparr>"
  let ?ys = "upd_kv key val xs"
  let ?lst = "leaf_list_set key val ?l0"
  have "ll_ok ?l0" using assms(2) by (simp add: ll_ok_def)
  then have ok: "ll_ok ?lst" using leaf_list_set_ok assms(3) by fastforce
  have r: "ll_root ?lst = ?ys" using assms(2) by (simp add: leaf_list_set_root)
  with ok have sz: "ll_size ?lst = length ?ys" by (simp add: ll_ok_def)
  obtain l1 l2 where sp: "leaf_list_split ?lst = Inr (Some (l1, l2))" and "ll_ok l1" "ll_ok l2"
    and cat: "ll_root l1 @ ll_root l2 = ?ys" "ll_root l1 \<noteq> []" "ll_root l2 \<noteq> []"
    "length (ll_root l1) = length ?ys div 2"
    using leaf_list_split_ok [OF ok] assms(4,5) r by auto
  then have l12: "l1 = \<lparr>ll_root = ll_root l1, ll_size = length (ll_root l1)\<rparr>"
    "l2 = \<lparr>ll_root = ll_root l2, ll_size = length (ll_root l2)\<rparr>"
    by (simp_all add: ll_ok_def)
  have ne: "l \<noteq> fresh h" using lf assms(6) by (auto simp: alloc_ok_def)
  let ?h' = "h\<lparr>leaves := (leaves h)(fresh h \<mapsto> \<lparr>leaf_m_next = nx, leaf_m_list = l2\<rparr>,
      l \<mapsto> \<lparr>leaf_m_next = Some (fresh h), leaf_m_list = l1\<rparr>), fresh := Suc (fresh h)\<rparr>"
  have "leaf_insert (Suc m) h l key val = ret (?h', Some (fresh h))"
    using lf assms(4) ne by (simp add: leaf_insert_def leaf_split_def new_leaf_def sz sp Let_def)
  moreover have "frame h ?h' {l}" by (auto simp: frame_def same_at_def keyext_def)
  moreover have "alloc_ok ?h'" using lf assms(6) by (auto simp: alloc_ok_def)
  moreover have "rep (GLeaf l (ll_root l1)) ?h' hi1" "rep (GLeaf (fresh h) (ll_root l2)) ?h' hi2"
    using ne l12 by auto
  ultimately show ?thesis
    using lf cat ne by (intro exI [of _ ?h'] exI [of _ "ll_root l1"] exI [of _ "ll_root l2"]) auto
qed

lemma leaf_primary_key_rep:
  "rep (GLeaf l xs) h hi \<Longrightarrow> xs \<noteq> [] \<Longrightarrow> leaf_primary_key h l = ret (fst (hd xs))"
  by (cases xs) (auto simp: leaf_primary_key_def leaf_list_get_root_key_def)

section \<open>Linking in an entry\<close>

lemma int_primary_key_node:
  "node_at i c (ECons k a t es) h hi \<Longrightarrow> int_primary_key h i = ret k"
  by (auto simp: node_at_def int_primary_key_def)

text \<open>The chain depends on the list nodes of the entries only.\<close>

primrec eaddrs :: "('k, 'v) ge \<Rightarrow> addr list" where
  "eaddrs ENil = []"
| "eaddrs (ECons k a t es) = a # eaddrs es"

lemma eaddrs_eapp [simp]: "eaddrs (eapp es fs) = eaddrs es @ eaddrs fs"
  by (induction es) auto

lemma eaddrs_sub_fp: "set (eaddrs es) \<subseteq> set (fp_e es)"
  by (induction es rule: ge.induct [of "\<lambda>_. True"]) auto

lemma eaddrs_distinct: "distinct (fp_e es) \<Longrightarrow> distinct (eaddrs es)"
  using eaddrs_sub_fp by (induction es rule: ge.induct [of "\<lambda>_. True"]) auto

lemma links_cong:
  "links es h nx \<Longrightarrow> \<forall>x\<in>set (eaddrs es). lnodes h' x = lnodes h x \<Longrightarrow> links es h' nx"
  by (induction es rule: ge.induct [of "\<lambda>_. True"]) auto

lemma links_alloc: "links es h nx \<Longrightarrow> x \<in> set (eaddrs es) \<Longrightarrow> lnodes h x \<noteq> None"
  by (induction es rule: ge.induct [of "\<lambda>_. True"]) auto

lemma links_fresh: "links es h nx \<Longrightarrow> alloc_ok h \<Longrightarrow> fresh h \<notin> set (eaddrs es)"
  using links_alloc alloc_okD(1) by blast

lemma insert_entry_front:
  assumes n: "node_at i c es h hi" and es: "first_key None es = Some k1" and "pk < k1"
    and "alloc_ok h" and "elen es + 1 < size_max" and "ptr_ok s f" and "s \<noteq> GDead"
  shows "\<exists>h'. insert_entry h i pk f back = ret h' \<and>
           node_at i c (ECons pk (fresh h) s es) h' hi \<and> frame h h' {i} \<and>
           fresh h' = Suc (fresh h) \<and> alloc_ok h' \<and> leaves h' = leaves h"
proof -
  obtain a1 t1 es1 where es': "es = ECons k1 a1 t1 es1" using es by (cases es) auto
  obtain nx where i: "internals h i = Some \<lparr>int_m_lesser = c, int_m_root = first_addr nx es,
      int_m_size = elen es\<rparr>" and l: "links es h nx" and t: "tail_ok h hi nx"
    using n by (auto simp: node_at_def)
  have none: "lnodes h (fresh h) = None" using assms(4) by (rule alloc_okD)
  let ?h' = "h\<lparr>lnodes := (lnodes h)(fresh h \<mapsto> \<lparr>ln_key = pk, ln_val = f, ln_next = first_addr nx es\<rparr>),
      fresh := Suc (fresh h), internals := (internals h)(i \<mapsto> \<lparr>int_m_lesser = c,
        int_m_root = Some (fresh h), int_m_size = Suc (elen es)\<rparr>)\<rparr>"
  have "insert_entry h i pk f back = ret ?h'"
    using i assms(3,5) int_primary_key_node [of i c k1 a1 t1 es1 h hi] n
    by (simp add: insert_entry_def new_lnode_def es')
  moreover have fr: "frame h ?h' {i}"
    using none by (auto simp: frame_def same_at_def keyext_def)
  moreover have "tail_ok ?h' hi nx"
    by (rule tail_ok_keyext [OF t frame_keyext [OF fr]])
  moreover have "links es ?h' nx"
    using links_fresh [OF l assms(4)] by - (rule links_cong [OF l], auto)
  ultimately show ?thesis
    using assms(4,6,7) i by (auto simp: node_at_def alloc_ok_def)
qed

lemma insert_entry_back:
  assumes n: "node_at i c (eapp es1 (ECons k a t es2)) h hi"
    and rg: "rng_e (eapp es1 (ECons k a t es2)) hi"
    and dist: "distinct (eaddrs (eapp es1 (ECons k a t es2)))"
    and "k \<le> pk" and "lt_hi pk (first_key hi es2)"
    and "alloc_ok h" and "elen (eapp es1 (ECons k a t es2)) + 1 < size_max"
    and "ptr_ok s f" and "s \<noteq> GDead"
  shows "\<exists>h'. insert_entry h i pk f0 (ret f) = ret h' \<and>
           node_at i c (eapp es1 (ECons k a t (ECons pk (fresh h) s es2))) h' hi \<and>
           frame h h' {i, a} \<and> fresh h' = Suc (fresh h) \<and> alloc_ok h' \<and> leaves h' = leaves h"
proof -
  let ?es = "eapp es1 (ECons k a t es2)"
  obtain k1 a1 t1 fs where es': "?es = ECons k1 a1 t1 fs" by (cases es1) auto
  have "k1 \<le> k" using es' rg rng_e_keys_less [of es1 k a t es2 hi] by (cases es1) fastforce+
  then have nless: "\<not> pk < k1" using assms(4) by auto
  obtain nx where i: "internals h i = Some \<lparr>int_m_lesser = c, int_m_root = first_addr nx ?es,
      int_m_size = elen ?es\<rparr>" and l: "links ?es h nx" and t: "tail_ok h hi nx"
    using n by (auto simp: node_at_def)
  obtain ct where a: "lnodes h a = Some \<lparr>ln_key = k, ln_val = ct, ln_next = first_addr nx es2\<rparr>"
    and ct: "ptr_ok t ct" using l by auto
  have none: "lnodes h (fresh h) = None" using assms(6) by (rule alloc_okD)
  have ln: "get_child_ln_ge h i pk = ret a" by (rule get_child_ln_ge_entry [OF n rg assms(4,5)])
  let ?h' = "h\<lparr>lnodes := (lnodes h)(fresh h \<mapsto> \<lparr>ln_key = pk, ln_val = f, ln_next = first_addr nx es2\<rparr>,
        a \<mapsto> \<lparr>ln_key = k, ln_val = ct, ln_next = Some (fresh h)\<rparr>),
      fresh := Suc (fresh h), internals := (internals h)(i \<mapsto> \<lparr>int_m_lesser = c,
        int_m_root = first_addr nx ?es, int_m_size = Suc (elen ?es)\<rparr>)\<rparr>"
  have "insert_entry h i pk f0 (ret f) = ret ?h'"
    using i a ln nless assms(7) int_primary_key_node [of i c k1 a1 t1 fs h hi] n
    by (simp add: insert_entry_def insert_after_def new_lnode_def es')
  moreover have fr: "frame h ?h' {i, a}"
    using none a by (auto simp: frame_def same_at_def keyext_def)
  moreover have "tail_ok ?h' hi nx"
    by (rule tail_ok_keyext [OF t frame_keyext [OF fr]])
  moreover have "links es1 ?h' (Some a)"
    using links_fresh [OF l assms(6)] dist l by - (rule links_cong [of es1 h], auto)
  moreover have "links es2 ?h' nx"
    using links_fresh [OF l assms(6)] dist l by - (rule links_cong [of es2 h], auto)
  moreover have "a \<noteq> fresh h" using a none by auto
  moreover have "alloc_ok ?h'" using assms(6) i a by (auto simp: alloc_ok_def)
  ultimately have "node_at i c (eapp es1 (ECons k a t (ECons pk (fresh h) s es2))) ?h' hi"
    using assms(8,9) ct l unfolding node_at_def by (intro exI [of _ nx]) simp
  with \<open>insert_entry h i pk f0 (ret f) = ret ?h'\<close> fr \<open>alloc_ok ?h'\<close> show ?thesis
    by (intro exI [of _ ?h']) simp
qed

section \<open>Splitting an internal node\<close>

lemma ln_skip_links:
  "links (eapp es1 (ECons k a t es2)) h nx \<Longrightarrow>
     ln_skip h (elen es1) (first_addr nx (eapp es1 (ECons k a t es2))) = ret (Some a)"
proof (induction es1 rule: ge.induct [of "\<lambda>_. True"])
  case (ECons k0 a0 t0 es0)
  then show ?case by auto
qed auto

lemma int_split_node:
  assumes n: "node_at i c (eapp es1 (ECons mid nd t es2)) h hi"
    and dist: "distinct (eaddrs (eapp es1 (ECons mid nd t es2)))"
    and len: "elen es1 = elen (eapp es1 (ECons mid nd t es2)) div 2"
    and small: "elen (eapp es1 (ECons mid nd t es2)) < size_max"
    and al: "alloc_ok h"
  shows "\<exists>h' ct. int_split h i = ret (h', Suc (fresh h)) \<and> ptr_ok t ct \<and> t \<noteq> GDead \<and>
           node_at i c es1 h' (Some mid) \<and> node_at (fresh h) ct es2 h' hi \<and>
           node_at (Suc (fresh h)) (Internal_ptr i)
             (ECons mid nd (GNode (fresh h) t es2) ENil) h' hi \<and>
           frame h h' {i, nd} \<and> fresh h' = Suc (Suc (fresh h)) \<and> alloc_ok h' \<and> leaves h' = leaves h"
proof -
  let ?es = "eapp es1 (ECons mid nd t es2)"
  obtain nx where i: "internals h i = Some \<lparr>int_m_lesser = c, int_m_root = first_addr nx ?es,
      int_m_size = elen ?es\<rparr>" and l: "links ?es h nx" and t: "tail_ok h hi nx"
    using n by (auto simp: node_at_def)
  obtain ct where nd: "lnodes h nd = Some \<lparr>ln_key = mid, ln_val = ct, ln_next = first_addr nx es2\<rparr>"
    and ct: "ptr_ok t ct" "t \<noteq> GDead" using l by auto
  have sz: "sz_sub (sz_sub (elen es1 + Suc (elen es2)) (elen es1)) (Suc 0) = elen es2"
    using small by simp
  have half: "(elen es1 + Suc (elen es2)) div 2 = elen es1" using len by simp
  have none: "internals h (fresh h) = None" "internals h (Suc (fresh h)) = None"
    using al by (auto simp: alloc_ok_def)
  have ne: "i \<noteq> fresh h" "i \<noteq> Suc (fresh h)" using none i by auto
  let ?h' = "h\<lparr>internals := (internals h)(
        fresh h \<mapsto> \<lparr>int_m_lesser = ct, int_m_root = first_addr nx es2, int_m_size = elen es2\<rparr>,
        Suc (fresh h) \<mapsto> \<lparr>int_m_lesser = Internal_ptr i, int_m_root = Some nd, int_m_size = 1\<rparr>,
        i \<mapsto> \<lparr>int_m_lesser = c, int_m_root = first_addr nx ?es, int_m_size = elen es1\<rparr>),
      fresh := Suc (Suc (fresh h)),
      lnodes := (lnodes h)(nd \<mapsto> \<lparr>ln_key = mid, ln_val = Internal_ptr (fresh h), ln_next = None\<rparr>)\<rparr>"
  have "int_split h i = ret (?h', Suc (fresh h))"
    using i nd ln_skip_links [OF l] half sz
    by (simp add: int_split_def Let_def new_internal_def)
  moreover have fr: "frame h ?h' {i, nd}"
    using nd by (auto simp: frame_def same_at_def keyext_def)
  moreover have "tail_ok ?h' hi nx"
    by (rule tail_ok_keyext [OF t frame_keyext [OF fr]])
  moreover have "links es1 ?h' (Some nd)"
    using dist l by - (rule links_cong [of es1 h], auto)
  moreover have "links es2 ?h' nx"
    using dist l by - (rule links_cong [of es2 h], auto)
  moreover have "alloc_ok ?h'"
    using al i nd by (auto simp: alloc_ok_def)
  moreover have "tail_ok ?h' (Some mid) (Some nd)" by (simp add: tail_ok_def)
  ultimately have "node_at i c es1 ?h' (Some mid)" and "node_at (fresh h) ct es2 ?h' hi"
    and "node_at (Suc (fresh h)) (Internal_ptr i) (ECons mid nd (GNode (fresh h) t es2) ENil) ?h' hi"
    using ne unfolding node_at_def
    by (intro exI [of _ "Some nd"], simp, intro exI [of _ nx], simp, intro exI [of _ None],
        simp add: tail_ok_def)
  with \<open>int_split h i = ret (?h', Suc (fresh h))\<close> fr \<open>alloc_ok ?h'\<close> ct show ?thesis
    by (intro exI [of _ ?h'] exI [of _ ct]) simp
qed

end
