(* ===== verification/Bpt_Set.thy ===== *)
theory Bpt_Set
  imports Bpt_Node
begin

text \<open>
  \<open>set\<close> on a tree in good standing: it returns, keeps the invariant and updates the
  content. A step replaces a subtree by another over the same range and touches only the
  objects of that subtree and fresh ones; steps of children compose to steps of their
  parent.
\<close>

section \<open>Steps\<close>

definition chain_upd :: "('k, 'v) heap \<Rightarrow> ('k, 'v) heap \<Rightarrow> addr list \<Rightarrow> addr list \<Rightarrow> bool" where
  "chain_upd h h' xs ys \<longleftrightarrow>
     (\<forall>z. leaf_chain h xs z \<longrightarrow> leaf_chain h' ys z) \<and> (\<forall>z. nxt ys z = nxt xs z)"

definition step ::
  "('k::linorder, 'v) heap \<Rightarrow> ('k, 'v) heap \<Rightarrow> 'k option \<Rightarrow> 'k option \<Rightarrow>
   ('k, 'v) gt \<Rightarrow> ('k, 'v) gt \<Rightarrow> ('k \<times> 'v) list \<Rightarrow> bool" where
  "step h h' lo hi t t' kvs \<longleftrightarrow>
     good h' lo hi t' \<and> cont t' = kvs \<and> frame h h' (set (fp t)) \<and> alloc_ok h' \<and>
     set (fp t') \<subseteq> set (fp t) \<union> {fresh h..<fresh h'} \<and> chain_upd h h' (lfs t) (lfs t')"

definition same_ptr :: "('k, 'v) gt \<Rightarrow> ('k, 'v) gt \<Rightarrow> bool" where
  "same_ptr t t' \<longleftrightarrow> t \<noteq> GDead \<and> t' \<noteq> GDead \<and> (\<forall>c. ptr_ok t' c \<longleftrightarrow> ptr_ok t c)"

text \<open>A subtree that became two, split at \<open>mid\<close>.\<close>

definition step2 ::
  "('k::linorder, 'v) heap \<Rightarrow> ('k, 'v) heap \<Rightarrow> 'k option \<Rightarrow> 'k option \<Rightarrow>
   ('k, 'v) gt \<Rightarrow> ('k, 'v) gt \<Rightarrow> 'k \<Rightarrow> ('k, 'v) gt \<Rightarrow> ('k \<times> 'v) list \<Rightarrow> bool" where
  "step2 h h' lo hi t tL mid tR kvs \<longleftrightarrow>
     good h' lo (Some mid) tL \<and> good h' (Some mid) hi tR \<and> set (fp tL) \<inter> set (fp tR) = {} \<and>
     cont tL @ cont tR = kvs \<and> frame h h' (set (fp t)) \<and> alloc_ok h' \<and>
     set (fp tL) \<union> set (fp tR) \<subseteq> set (fp t) \<union> {fresh h..<fresh h'} \<and>
     chain_upd h h' (lfs t) (lfs tL @ lfs tR) \<and> same_ptr t tL \<and> tR \<noteq> GDead \<and>
     (\<forall>x. lo = Some x \<longrightarrow> x < mid) \<and> lt_hi mid hi"

lemma chain_upd_context:
  assumes "chain_upd h h' xs ys" and "\<forall>x\<in>set ps \<union> set qs. leaves h' x = leaves h x"
  shows "chain_upd h h' (ps @ xs @ qs) (ps @ ys @ qs)"
  using assms leaf_chain_cong [of ps h' h] leaf_chain_cong [of qs h' h]
  by (auto simp: chain_upd_def)

lemma chain_upd_trans: "chain_upd h h1 xs ys \<Longrightarrow> chain_upd h1 h2 ys zs \<Longrightarrow> chain_upd h h2 xs zs"
  by (auto simp: chain_upd_def)

lemma chain_upd_same: "leaves h' = leaves h \<Longrightarrow> chain_upd h h' xs xs"
  using leaf_chain_cong [of xs h' h] by (auto simp: chain_upd_def)

lemma step_trans:
  assumes "step h h1 lo hi t t1 kvs1" and "step h1 h2 lo hi t1 t2 kvs2"
  shows "step h h2 lo hi t t2 kvs2"
proof -
  have "frame h h2 (set (fp t))"
    using assms by (intro frame_trans [of h h1 _ h2 "set (fp t1)"]) (auto simp: step_def)
  moreover have "set (fp t2) \<subseteq> set (fp t) \<union> {fresh h..<fresh h2}"
    using assms by (fastforce simp: step_def frame_def)
  ultimately show ?thesis
    using assms by (auto simp: step_def intro: chain_upd_trans)
qed

lemma same_ptr_trans: "same_ptr t t1 \<Longrightarrow> same_ptr t1 t2 \<Longrightarrow> same_ptr t t2"
  by (simp add: same_ptr_def)

lemma links_same_ptr:
  "same_ptr t t' \<Longrightarrow>
     links (eapp es1 (ECons k a t es2)) h nx = links (eapp es1 (ECons k a t' es2)) h nx"
  by (auto simp: same_ptr_def)

lemma node_at_same_ptr:
  "same_ptr t t' \<Longrightarrow>
     node_at i c (eapp es1 (ECons k a t es2)) h hi = node_at i c (eapp es1 (ECons k a t' es2)) h hi"
  unfolding node_at_def using links_same_ptr [of t t' es1 k a es2 h] by auto

text \<open>The chain of a node survives a step in one of its subtrees.\<close>

lemma eaddrs_hole:
  "distinct (fp_e (eapp es1 (ECons k a t es2))) \<Longrightarrow>
     set (eaddrs (eapp es1 (ECons k a t es2))) \<inter> set (fp t) = {}"
  using eaddrs_sub_fp [of es1] eaddrs_sub_fp [of es2] by auto

lemma node_at_cong:
  assumes "node_at i c es h hi" and "internals h' i = internals h i"
    and "\<forall>x\<in>set (eaddrs es). lnodes h' x = lnodes h x" and "keyext h h'"
  shows "node_at i c es h' hi"
  using assms links_cong [of es h _ h'] tail_ok_keyext [of h hi _ h']
  by (fastforce simp: node_at_def)

lemma good_e_eaddrs: "good_e h hi es \<Longrightarrow> \<forall>x\<in>set (eaddrs es). x < fresh h"
  using eaddrs_sub_fp [of es] by (auto simp: good_e_def)

lemma node_at_sub_frame:
  assumes "good h lo hi (GNode i t0 es)" and "node_at i c es h hi" and "frame h h' S"
    and "i \<notin> S" and "set (eaddrs es) \<inter> S = {}"
  shows "node_at i c es h' hi"
proof (rule node_at_cong [OF assms(2)])
  show "internals h' i = internals h i"
    using assms by (auto simp: good_GNode frame_def same_at_def)
  show "\<forall>x\<in>set (eaddrs es). lnodes h' x = lnodes h x"
    using assms good_e_eaddrs [of h hi es] by (auto simp: good_GNode frame_def same_at_def)
  show "keyext h h'" by (rule frame_keyext [OF assms(3)])
qed

lemma frame_leaves: "frame h h' S \<Longrightarrow> \<forall>x\<in>X. x < fresh h \<and> x \<notin> S \<Longrightarrow> \<forall>x\<in>X. leaves h' x = leaves h x"
  by (auto simp: frame_def same_at_def)

section \<open>Steps of a child\<close>

lemma fresh_disjoint:
  assumes "step h h1 lo hi t t' kvs" and "X \<inter> set (fp t) = {}" and "\<forall>x\<in>X. x < fresh h"
  shows "X \<inter> set (fp t') = {}"
  using assms by (fastforce simp: step_def)

lemma good_GNode_fp:
  assumes "good h lo hi (GNode i t0 (eapp es1 (ECons k a t es2)))"
  shows "\<forall>x\<in>insert i (insert a (set (fp t0) \<union> set (fp_e es1) \<union> set (fp_e es2))).
           x < fresh h \<and> x \<notin> set (fp t)"
  using assms by (auto simp: good_def)

lemma node_step_lesser:
  assumes g: "good h lo hi (GNode i t es)"
    and st: "step h h1 lo (first_key hi es) t t' kvs" and sp: "same_ptr t t'"
  shows "step h h1 lo hi (GNode i t es) (GNode i t' es) (kvs @ cont_e es)"
proof -
  obtain c where n: "node_at i c es h hi" "ptr_ok t c" using g by (auto simp: good_GNode)
  have fr: "frame h h1 (set (fp t))" using st by (simp add: step_def)
  have "node_at i c es h1 hi"
    using g eaddrs_sub_fp [of es]
    by (intro node_at_sub_frame [OF g n(1) fr]) (auto simp: good_GNode)
  moreover have "good_e h1 hi es" using g by (intro good_e_frame [OF _ fr]) (auto simp: good_GNode)
  moreover have "chain_upd h h1 ([] @ lfs t @ lfs_e es) ([] @ lfs t' @ lfs_e es)"
    using st g lfs_sub_fp(2) [of es]
    by (intro chain_upd_context frame_leaves [OF fr]) (auto simp: step_def good_GNode good_e_def)
  moreover have "set (fp t') \<subseteq> set (fp t) \<union> {fresh h..<fresh h1}" using st by (simp add: step_def)
  moreover have "fresh h \<le> fresh h1" using fr by (simp add: frame_def)
  ultimately show ?thesis
    using g st sp n(2) frame_mono [OF fr, of "set (fp (GNode i t es))"]
    by (fastforce simp: step_def good_GNode same_ptr_def good_e_def)
qed

lemma node_step_entry:
  assumes g: "good h lo hi (GNode i t0 (eapp es1 (ECons k a t es2)))"
    and st: "step h h1 (Some k) (first_key hi es2) t t' kvs" and sp: "same_ptr t t'"
  shows "step h h1 lo hi (GNode i t0 (eapp es1 (ECons k a t es2)))
           (GNode i t0 (eapp es1 (ECons k a t' es2))) (cont t0 @ cont_e es1 @ kvs @ cont_e es2)"
proof -
  let ?es = "eapp es1 (ECons k a t es2)"
  obtain c where n: "node_at i c ?es h hi" "ptr_ok t0 c" using g by (auto simp: good_GNode)
  have fr: "frame h h1 (set (fp t))" using st by (simp add: step_def)
  have d: "distinct (fp_e ?es)" using g by (auto simp: good_GNode good_e_def)
  have "node_at i c ?es h1 hi"
    using g eaddrs_hole [OF d]
    by (intro node_at_sub_frame [OF g n(1) fr]) (auto simp: good_GNode)
  then have "node_at i c (eapp es1 (ECons k a t' es2)) h1 hi"
    using node_at_same_ptr [OF sp] by blast
  moreover have "good h1 lo (first_key (Some k) es1) t0"
    using g by (intro good_frame [OF _ fr]) (auto simp: good_GNode)
  moreover have "good_e h1 (Some k) es1" "good_e h1 hi es2"
    using g by (auto intro!: good_e_frame [OF _ fr] simp: good_GNode good_e_eapp good_e_ECons)
  moreover have X: "insert i (insert a (set (fp t0) \<union> set (fp_e es1) \<union> set (fp_e es2))) \<inter> set (fp t') = {}"
    using fresh_disjoint [OF st, of "insert i (insert a (set (fp t0) \<union> set (fp_e es1) \<union> set (fp_e es2)))"]
      good_GNode_fp [OF g] by auto
  moreover have le: "fresh h \<le> fresh h1" using fr by (simp add: frame_def)
  moreover have "good h1 (Some k) (first_key hi es2) t'" using st by (simp add: step_def)
  ultimately have "good h1 lo hi (GNode i t0 (eapp es1 (ECons k a t' es2)))"
    using g n(2) by (auto simp: good_GNode good_e_eapp good_e_ECons)
  moreover have "chain_upd h h1 ((lfs t0 @ lfs_e es1) @ lfs t @ lfs_e es2)
      ((lfs t0 @ lfs_e es1) @ lfs t' @ lfs_e es2)"
    using st lfs_sub_fp(2) [of es1] lfs_sub_fp(2) [of es2] lfs_sub_fp(1) [of t0]
      good_GNode_fp [OF g]
    by (intro chain_upd_context frame_leaves [OF fr]) (auto simp: step_def)
  moreover have "frame h h1 (set (fp (GNode i t0 ?es)))"
    by (rule frame_mono [OF fr]) auto
  ultimately show ?thesis
    using st by (auto simp: step_def)
qed

section \<open>Splits of a child\<close>

lemma fresh_disjoint2:
  assumes "step2 h h1 lo hi t tL mid tR kvs" and "X \<inter> set (fp t) = {}" and "\<forall>x\<in>X. x < fresh h"
  shows "X \<inter> (set (fp tL) \<union> set (fp tR)) = {}"
  using assms by (fastforce simp: step2_def)

lemma ge_lo_strict: "\<forall>x. lo = Some x \<longrightarrow> x < mid \<Longrightarrow> ge_lo lo mid"
  by (cases lo) auto

lemma step2_less_fresh:
  "step2 h h1 lo hi t tL mid tR kvs \<Longrightarrow> \<forall>x\<in>set (fp tL) \<union> set (fp tR). x < fresh h1"
  by (auto simp: step2_def good_def)

lemma node_split_lesser:
  assumes g: "good h lo hi (GNode i t es)"
    and st: "step2 h h1 lo (first_key hi es) t tL mid s kvs" and f: "ptr_ok s f"
    and small: "elen es + 1 < size_max"
  shows "\<exists>h2 n. insert_entry h1 i mid f bk = ret h2 \<and>
           step h h2 lo hi (GNode i t es) (GNode i tL (ECons mid n s es)) (kvs @ cont_e es)"
proof -
  obtain k1 a1 t1 es1 where es: "es = ECons k1 a1 t1 es1" using g by (cases es) (auto simp: good_GNode)
  obtain c where n: "node_at i c es h hi" "ptr_ok t c" using g by (auto simp: good_GNode)
  have fr: "frame h h1 (set (fp t))" using st by (simp add: step2_def)
  have n1: "node_at i c es h1 hi"
    using g eaddrs_sub_fp [of es]
    by (intro node_at_sub_frame [OF g n(1) fr]) (auto simp: good_GNode)
  have g1: "good_e h1 hi es" using g by (intro good_e_frame [OF _ fr]) (auto simp: good_GNode)
  have old: "\<forall>x\<in>insert i (set (fp_e es)). x < fresh h \<and> x \<notin> set (fp t)"
    using g by (auto simp: good_def)
  have X: "insert i (set (fp_e es)) \<inter> (set (fp tL) \<union> set (fp s)) = {}"
    using old by (intro fresh_disjoint2 [OF st]) auto
  have "mid < k1" and "alloc_ok h1" and "s \<noteq> GDead" using st by (auto simp: step2_def es)
  then obtain h2 where ins: "insert_entry h1 i mid f bk = ret h2"
    and n2: "node_at i c (ECons mid (fresh h1) s es) h2 hi" and fr2: "frame h1 h2 {i}"
    and fs: "fresh h2 = Suc (fresh h1)" and al2: "alloc_ok h2" and lv: "leaves h2 = leaves h1"
    using insert_entry_front [OF n1, of k1 mid s f bk] small f by (auto simp: es)
  have "good h2 lo (Some mid) tL" "good h2 (Some mid) (first_key hi es) s" "good_e h2 hi es"
    using st X g1 old
    by (auto intro!: good_frame [OF _ fr2] good_e_frame [OF _ fr2] simp: step2_def)
      (use g in \<open>auto simp: good_GNode\<close>)
  moreover have "ptr_ok tL c" using st n(2) by (simp add: step2_def same_ptr_def)
  moreover have "ge_lo lo mid" using st by (intro ge_lo_strict) (simp add: step2_def)
  moreover have "fresh h1 \<notin> set (fp tL) \<union> set (fp s)" using step2_less_fresh [OF st] by blast
  moreover have "fresh h \<le> fresh h1" using fr by (simp add: frame_def)
  moreover have "fresh h1 \<notin> insert i (set (fp_e es))" using old \<open>fresh h \<le> fresh h1\<close> by auto
  ultimately have "good h2 lo hi (GNode i tL (ECons mid (fresh h1) s es))"
    using n2 X st old fs g by (auto simp: good_GNode good_e_ECons step2_def)
  moreover have "chain_upd h h1 ([] @ lfs t @ lfs_e es) ([] @ (lfs tL @ lfs s) @ lfs_e es)"
    using st old lfs_sub_fp(2) [of es]
    by (intro chain_upd_context frame_leaves [OF fr]) (auto simp: step2_def)
  then have "chain_upd h h2 (lfs (GNode i t es)) (lfs (GNode i tL (ECons mid (fresh h1) s es)))"
    using chain_upd_trans chain_upd_same [OF lv] by fastforce
  moreover have "frame h h2 (set (fp (GNode i t es)))"
    by (rule frame_trans [OF frame_mono [OF fr] fr2]) auto
  moreover have "set (fp tL) \<union> set (fp s) \<subseteq> set (fp t) \<union> {fresh h..<fresh h1}"
    using st by (simp add: step2_def)
  moreover have "cont tL @ cont s = kvs" using st by (simp add: step2_def)
  ultimately have "step h h2 lo hi (GNode i t es) (GNode i tL (ECons mid (fresh h1) s es)) (kvs @ cont_e es)"
    using al2 fs \<open>fresh h \<le> fresh h1\<close> by (auto simp: step_def)
  with ins show ?thesis by blast
qed

lemma node_split_entry:
  assumes g: "good h lo hi (GNode i t0 (eapp es1 (ECons k a t es2)))"
    and st: "step2 h h1 (Some k) (first_key hi es2) t tL mid s kvs" and f: "ptr_ok s f"
    and small: "elen (eapp es1 (ECons k a t es2)) + 1 < size_max"
  shows "\<exists>h2 n. insert_entry h1 i mid f0 (ret f) = ret h2 \<and>
           step h h2 lo hi (GNode i t0 (eapp es1 (ECons k a t es2)))
             (GNode i t0 (eapp es1 (ECons k a tL (ECons mid n s es2))))
             (cont t0 @ cont_e es1 @ kvs @ cont_e es2)"
proof -
  let ?es = "eapp es1 (ECons k a t es2)"
  let ?X = "insert i (insert a (set (fp t0) \<union> set (fp_e es1) \<union> set (fp_e es2)))"
  obtain c where n: "node_at i c ?es h hi" "ptr_ok t0 c" using g by (auto simp: good_GNode)
  have fr: "frame h h1 (set (fp t))" using st by (simp add: step2_def)
  have d: "distinct (fp_e ?es)" and rg: "rng_e ?es hi" using g by (auto simp: good_GNode good_e_def)
  have n1: "node_at i c ?es h1 hi"
    using g eaddrs_hole [OF d]
    by (intro node_at_sub_frame [OF g n(1) fr]) (auto simp: good_GNode)
  have g1: "good h1 lo (first_key (Some k) es1) t0" "good_e h1 (Some k) es1" "good_e h1 hi es2"
    using g by (auto intro!: good_frame [OF _ fr] good_e_frame [OF _ fr]
        simp: good_GNode good_e_eapp good_e_ECons)
  note old = good_GNode_fp [OF g]
  have X: "?X \<inter> (set (fp tL) \<union> set (fp s)) = {}"
    using old by (intro fresh_disjoint2 [OF st]) auto
  have mid: "k < mid" "lt_hi mid (first_key hi es2)" and "alloc_ok h1" and "s \<noteq> GDead"
    and sp: "same_ptr t tL" using st by (auto simp: step2_def)
  then obtain h2 where ins: "insert_entry h1 i mid f0 (ret f) = ret h2"
    and n2: "node_at i c (eapp es1 (ECons k a t (ECons mid (fresh h1) s es2))) h2 hi"
    and fr2: "frame h1 h2 {i, a}"
    and fs: "fresh h2 = Suc (fresh h1)" and al2: "alloc_ok h2" and lv: "leaves h2 = leaves h1"
    using insert_entry_back [OF n1 rg eaddrs_distinct [OF d] less_imp_le [OF mid(1)], of s f f0] small f by auto
  have n2': "node_at i c (eapp es1 (ECons k a tL (ECons mid (fresh h1) s es2))) h2 hi"
    using n2 node_at_same_ptr [OF sp] by blast
  have dis: "{i, a} \<inter> set (fp t0) = {}" "{i, a} \<inter> set (fp_e es1) = {}" "{i, a} \<inter> set (fp_e es2) = {}"
    using g by (auto simp: good_def)
  have le: "fresh h \<le> fresh h1" using fr by (simp add: frame_def)
  have "good h2 (Some k) (Some mid) tL" "good h2 (Some mid) (first_key hi es2) s"
    using st X by (auto intro!: good_frame [OF _ fr2] simp: step2_def)
  moreover have "good h2 lo (first_key (Some k) es1) t0" "good_e h2 (Some k) es1" "good_e h2 hi es2"
    using g1 dis by (auto intro!: good_frame [OF _ fr2] good_e_frame [OF _ fr2])
  moreover have "fresh h1 \<notin> set (fp tL) \<union> set (fp s)" using step2_less_fresh [OF st] by blast
  moreover have "fresh h1 \<notin> ?X"
    by (rule bound_notin [OF _ le]) (use old in blast)
  ultimately have "good h2 lo hi (GNode i t0 (eapp es1 (ECons k a tL (ECons mid (fresh h1) s es2))))"
    using n(2) n2' X st old fs le g mid
    by (auto simp: good_GNode good_e_ECons good_e_eapp step2_def)
  moreover have "chain_upd h h1 ((lfs t0 @ lfs_e es1) @ lfs t @ lfs_e es2)
      ((lfs t0 @ lfs_e es1) @ (lfs tL @ lfs s) @ lfs_e es2)"
    using st old lfs_sub_fp(2) [of es1] lfs_sub_fp(2) [of es2] lfs_sub_fp(1) [of t0]
    by (intro chain_upd_context frame_leaves [OF fr]) (auto simp: step2_def)
  then have "chain_upd h h2 (lfs (GNode i t0 ?es))
      (lfs (GNode i t0 (eapp es1 (ECons k a tL (ECons mid (fresh h1) s es2)))))"
    using chain_upd_trans chain_upd_same [OF lv] by fastforce
  moreover have "frame h h2 (set (fp (GNode i t0 ?es)))"
    by (rule frame_trans [OF frame_mono [OF fr] fr2]) auto
  moreover have "set (fp tL) \<union> set (fp s) \<subseteq> set (fp t) \<union> {fresh h..<fresh h1}"
    using st by (simp add: step2_def)
  moreover have "cont tL @ cont s = kvs" using st by (simp add: step2_def)
  ultimately have "step h h2 lo hi (GNode i t0 ?es)
      (GNode i t0 (eapp es1 (ECons k a tL (ECons mid (fresh h1) s es2))))
      (cont t0 @ cont_e es1 @ kvs @ cont_e es2)"
    using al2 fs le by (auto simp: step_def)
  with ins show ?thesis by blast
qed

section \<open>Splitting a full node\<close>

lemma int_split_step:
  assumes g: "good h lo hi (GNode i t es)" and al: "alloc_ok h"
    and "3 \<le> elen es" and "elen es < size_max" and "bnd t m" and "bnd_e es m" and "elen es = Suc m"
  shows "\<exists>h' j tL mid nd tR. int_split h i = ret (h', j) \<and>
           step h h' lo hi (GNode i t es) (GNode j tL (ECons mid nd tR ENil)) (cont (GNode i t es)) \<and>
           same_ptr (GNode i t es) tL \<and> tR \<noteq> GDead \<and> (\<forall>x. lo = Some x \<longrightarrow> x < mid) \<and>
           bnd (GNode j tL (ECons mid nd tR ENil)) m"
proof -
  have "elen es div 2 < elen es" using assms(3) by simp
  then obtain es1 mid nd s es2 where es: "es = eapp es1 (ECons mid nd s es2)"
    and len: "elen es1 = elen es div 2" using elen_split by blast
  have len2: "elen es2 = elen es - elen es div 2 - 1" using arg_cong [OF es, of elen] len by simp
  have ne: "es1 \<noteq> ENil" "es2 \<noteq> ENil"
    using len len2 assms(3) elen_0_conv [of es1] elen_0_conv [of es2] by linarith+
  have ln: "elen es1 \<le> m" "elen es2 \<le> m" "1 \<le> m" using len len2 assms(3,7) by linarith+
  obtain c where n: "node_at i c es h hi" "ptr_ok t c" using g by (auto simp: good_GNode)
  have d: "distinct (fp_e es)" and rg: "rng_e es hi" using g by (auto simp: good_GNode good_e_def)
  obtain h' ct where sp: "int_split h i = ret (h', Suc (fresh h))" and ct: "ptr_ok s ct" "s \<noteq> GDead"
    and nl: "node_at i c es1 h' (Some mid)" and nr: "node_at (fresh h) ct es2 h' hi"
    and nn: "node_at (Suc (fresh h)) (Internal_ptr i)
          (ECons mid nd (GNode (fresh h) s es2) ENil) h' hi"
    and fr: "frame h h' {i, nd}" and fs: "fresh h' = Suc (Suc (fresh h))" and al': "alloc_ok h'"
    and lv: "leaves h' = leaves h"
    using int_split_node [OF n(1) [unfolded es] eaddrs_distinct [OF d, unfolded es]
        len [unfolded es] assms(4) [unfolded es] al] by blast
  let ?tL = "GNode i t es1" and ?tR = "GNode (fresh h) s es2"
  have parts: "good h lo (first_key (Some mid) es1) t" "good_e h (Some mid) es1"
    "good h (Some mid) (first_key hi es2) s" "good_e h hi es2" "lt_hi mid (first_key hi es2)"
    using g by (auto simp: good_GNode good_e_eapp good_e_ECons es)
  have dis: "{i, nd} \<inter> (set (fp t) \<union> set (fp_e es1) \<union> set (fp s) \<union> set (fp_e es2)) = {}"
    using g by (auto simp: good_def es)
  have parts': "good h' lo (first_key (Some mid) es1) t" "good_e h' (Some mid) es1"
    "good h' (Some mid) (first_key hi es2) s" "good_e h' hi es2"
    using parts dis by (auto intro!: good_frame [OF _ fr] good_e_frame [OF _ fr])
  have old: "\<forall>x\<in>set (fp (GNode i t es)). x < fresh h" and dd: "distinct (fp (GNode i t es))"
    using g by (auto simp: good_def)
  have new: "fresh h \<notin> set (fp (GNode i t es))" "Suc (fresh h) \<notin> set (fp (GNode i t es))"
    using bound_notin [OF old] by auto
  obtain k1 where k1: "first_key None es1 = Some k1" using ne by (cases es1) auto
  have "k1 < mid" using rng_e_keys_less [of es1 mid nd s es2 hi k1] rg k1 by (simp add: es)
  moreover have "ge_lo lo k1" using g k1 ne by (cases es1) (auto simp: good_GNode es)
  ultimately have lo: "\<forall>x. lo = Some x \<longrightarrow> x < mid" by (auto dest: le_less_trans)
  have r1: "\<forall>k. first_key None es1 = Some k \<longrightarrow> ge_lo lo k" using \<open>ge_lo lo k1\<close> k1 by simp
  have r2: "\<forall>k. first_key None es2 = Some k \<longrightarrow> mid \<le> k"
    using parts(5) ne by (cases es2) auto
  have gl: "good h' lo (Some mid) ?tL"
    using nl n(2) ne parts' r1 old dd fs by (auto simp: good_GNode es)
  have gr: "good h' (Some mid) hi ?tR"
    using nr ct ne parts' r2 old dd fs by (auto simp: good_GNode es)
  have "lt_hi mid hi" using rg by (auto simp: es intro: lt_hi_first)
  then have "good h' lo hi (GNode (Suc (fresh h)) ?tL (ECons mid nd ?tR ENil))"
    using nn gl gr lo old dd fs new
    by (auto simp: good_GNode [of h' lo hi "Suc (fresh h)"] good_e_ECons ge_lo_strict es)
  moreover have "chain_upd h h' (lfs (GNode i t es)) (lfs (GNode (Suc (fresh h)) ?tL (ECons mid nd ?tR ENil)))"
    using chain_upd_same [OF lv] by (simp add: es)
  moreover have "frame h h' (set (fp (GNode i t es)))" by (rule frame_mono [OF fr]) (auto simp: es)
  ultimately have "step h h' lo hi (GNode i t es) (GNode (Suc (fresh h)) ?tL (ECons mid nd ?tR ENil))
      (cont (GNode i t es))"
    using al' fs by (auto simp: step_def es)
  moreover have "bnd (GNode (Suc (fresh h)) ?tL (ECons mid nd ?tR ENil)) m"
    using assms(5) assms(6) [unfolded es] ln by simp
  moreover have "same_ptr (GNode i t es) ?tL" by (simp add: same_ptr_def)
  ultimately show ?thesis using sp lo by blast
qed

end
