(* ===== verification/Bpt_Correct.thy ===== *)
theory Bpt_Correct
  imports Bpt_Set
begin

text \<open>
  The B+ tree is an ordered key-value store: for \<open>ORDER\<close> at least 3, and fresh memory
  that holds zero where \<open>leaf_list::m_size\<close> is left uninitialised, every \<open>set\<close> returns
  without a fault and updates the content, \<open>get\<close> answers from it and \<open>iterate\<close> visits
  it in key order. The theory ends with what happens when these conditions fail.
\<close>

section \<open>Updating a child\<close>

lemma leaf_child:
  assumes g: "good h lo hi (GLeaf l xs)" and al: "alloc_ok h"
    and m: "length xs \<le> m" "1 \<le> m" "m + 1 < size_max"
    and key: "ge_lo lo key" "lt_hi key hi"
  shows "(\<exists>h1. leaf_insert (Suc m) h l key val = ret (h1, None) \<and>
            step h h1 lo hi (GLeaf l xs) (GLeaf l (upd_kv key val xs)) (upd_kv key val xs) \<and>
            length (upd_kv key val xs) \<le> m) \<or>
         (\<exists>h1 l' xs1 xs2 mid. leaf_insert (Suc m) h l key val = ret (h1, Some l') \<and>
            step2 h h1 lo hi (GLeaf l xs) (GLeaf l xs1) mid (GLeaf l' xs2) (upd_kv key val xs) \<and>
            leaf_primary_key h1 l' = ret mid \<and> length xs1 \<le> m \<and> length xs2 \<le> m)"
proof -
  let ?ys = "upd_kv key val xs"
  have r: "rep (GLeaf l xs) h hi" "sorted_keys xs" and kin: "\<forall>k\<in>fst ` set xs. ge_lo lo k \<and> lt_hi k hi"
    and l: "l < fresh h" using g by (auto simp: good_def)
  have ys: "sorted_keys ?ys" "\<forall>k\<in>fst ` set ?ys. ge_lo lo k \<and> lt_hi k hi"
    using r kin key by (auto simp: sorted_upd_kv)
  have len: "length xs + 1 < size_max" using m by linarith
  show ?thesis
  proof (cases "length ?ys \<le> m")
    case True
    obtain h' where "leaf_insert (Suc m) h l key val = ret (h', None)"
      "rep (GLeaf l ?ys) h' hi" "frame h h' {l}" "fresh h' = fresh h" "alloc_ok h'"
      "\<forall>z. leaf_chain h [l] z \<longrightarrow> leaf_chain h' [l] z"
      using leaf_insert_nosplit [OF r len True] al by blast
    then have "leaf_insert (Suc m) h l key val = ret (h', None) \<and>
        step h h' lo hi (GLeaf l xs) (GLeaf l ?ys) ?ys"
      using ys l by (simp add: step_def good_def chain_upd_def)
    with True show ?thesis by blast
  next
    case False
    then have "m < length ?ys" by simp
    obtain h' xs1 xs2 where ins: "leaf_insert (Suc m) h l key val = ret (h', Some (fresh h))"
      and sp: "?ys = xs1 @ xs2" "xs1 \<noteq> []" "xs2 \<noteq> []" "length xs1 = length ?ys div 2"
      and rp: "rep (GLeaf l xs1) h' None" "rep (GLeaf (fresh h) xs2) h' hi"
      and fr: "frame h h' {l}" "fresh h' = Suc (fresh h)" "alloc_ok h'"
      and ch: "\<forall>z. leaf_chain h [l] z \<longrightarrow> leaf_chain h' [l, fresh h] z"
      using leaf_insert_split [OF r len \<open>m < length ?ys\<close> m(2) al, of None hi] by blast
    obtain mid v2 ys2 where xs2: "xs2 = (mid, v2) # ys2" using sp(3) by (cases xs2) auto
    have "length ?ys \<le> m + 1" using length_upd_kv [of key val xs] m(1) by linarith
    moreover have "length ?ys = length xs1 + length xs2" by (simp add: sp(1))
    ultimately have ln: "length xs1 \<le> m" "length xs2 \<le> m"
      using sp(4) \<open>m < length ?ys\<close> m(2) by linarith+
    have so: "sorted_keys xs1" "sorted_keys xs2" "\<forall>x\<in>fst ` set xs1. x < mid" "\<forall>x\<in>fst ` set ys2. mid < x"
      using ys(1) by (auto simp: sp(1) xs2 sorted_keys_append simp del: map_append)
    obtain k0 where "k0 \<in> fst ` set xs1" using sp(2) by (cases xs1) auto
    moreover from this have "ge_lo lo k0" "k0 < mid" using ys(2) so(3) unfolding sp(1) by auto
    ultimately have lo: "\<forall>x. lo = Some x \<longrightarrow> x < mid" by (auto dest: le_less_trans)
    have "step2 h h' lo hi (GLeaf l xs) (GLeaf l xs1) mid (GLeaf (fresh h) xs2) ?ys"
      using rp fr ch l so lo ys(2) sp(1)
      by (auto simp: step2_def good_def same_ptr_def chain_upd_def xs2 dest: less_imp_le)
    moreover have "leaf_primary_key h' (fresh h) = ret mid"
      using leaf_primary_key_rep [OF rp(2)] by (simp add: xs2)
    ultimately show ?thesis using ins ln by blast
  qed
qed

text \<open>The new root of a split node, seen as two trees or as a left tree and an entry.\<close>

lemma split_root_step2:
  assumes st: "step h h1 lo hi t (GNode j tL (ECons mid nd tR ENil)) kvs" and sp: "same_ptr t tL"
    and "tR \<noteq> GDead" and lo: "\<forall>x. lo = Some x \<longrightarrow> x < mid"
  shows "step2 h h1 lo hi t tL mid tR kvs"
    and "step2 h h1 lo hi t tL mid (GNode j GDead (ECons mid nd tR ENil)) kvs"
    and "int_primary_key h1 j = ret mid"
    and "\<exists>b. ptr_ok tR b \<and> bindc (deref (internals h1) j) (\<lambda>n.
          bindc (nonnull (int_m_root n)) (\<lambda>r.
          bindc (deref (lnodes h1) r) (\<lambda>ln. ret (ln_val ln)))) = ret b"
proof -
  have g: "good h1 lo hi (GNode j tL (ECons mid nd tR ENil))" using st by (simp add: step_def)
  then obtain c where n: "node_at j c (ECons mid nd tR ENil) h1 hi" by (auto simp: good_GNode)
  have parts: "good h1 lo (Some mid) tL" "good h1 (Some mid) hi tR" "lt_hi mid hi"
    "nd < fresh h1" "j < fresh h1" using g by (auto simp: good_GNode good_e_ECons)
  have d: "distinct (j # fp tL @ nd # fp tR)" using g by (simp add: good_def)
  have gd: "good h1 (Some mid) hi (GNode j GDead (ECons mid nd tR ENil))"
    using n parts d by (auto simp: good_GNode good_e_ECons) (simp add: good_def)
  show "step2 h h1 lo hi t tL mid tR kvs"
    using st sp assms(3) lo parts d by (auto simp: step2_def step_def)
  show "step2 h h1 lo hi t tL mid (GNode j GDead (ECons mid nd tR ENil)) kvs"
    using st sp assms(3) lo parts gd d by (auto simp: step2_def step_def)
  show "int_primary_key h1 j = ret mid" by (rule int_primary_key_node [OF n])
  show "\<exists>b. ptr_ok tR b \<and> bindc (deref (internals h1) j) (\<lambda>n.
          bindc (nonnull (int_m_root n)) (\<lambda>r.
          bindc (deref (lnodes h1) r) (\<lambda>ln. ret (ln_val ln)))) = ret b"
    using n by (auto simp: node_at_def)
qed

text \<open>
  What \<open>set\<close> promises on the internal node \<open>i\<close> at the root of \<open>t\<close>: a step to \<open>kvs\<close>,
  either in place or to a new root over the old node and its new right neighbour.
\<close>

definition set_post ::
  "nat \<Rightarrow> ('k::linorder, 'v) heap \<Rightarrow> addr \<Rightarrow> 'k \<Rightarrow> 'v \<Rightarrow> 'k option \<Rightarrow> 'k option \<Rightarrow>
   ('k, 'v) gt \<Rightarrow> ('k \<times> 'v) list \<Rightarrow> bool" where
  "set_post m h i key val lo hi t kvs \<longleftrightarrow>
     (\<exists>h' r t'. int_set (Suc m) h i key val = ret (h', r) \<and> step h h' lo hi t t' kvs \<and> bnd t' m \<and>
        (case r of
           None \<Rightarrow> same_ptr t t'
         | Some j \<Rightarrow> \<exists>tL mid nd tR. t' = GNode j tL (ECons mid nd tR ENil) \<and>
             same_ptr t tL \<and> tR \<noteq> GDead \<and> (\<forall>x. lo = Some x \<longrightarrow> x < mid)))"

definition set_ok :: "nat \<Rightarrow> 'k::linorder \<Rightarrow> 'v \<Rightarrow> ('k, 'v) gt \<Rightarrow> bool" where
  "set_ok m key val t \<longleftrightarrow>
     (\<forall>i t0 es h lo hi. t = GNode i t0 es \<longrightarrow> good h lo hi t \<longrightarrow> bnd t m \<longrightarrow> alloc_ok h \<longrightarrow>
        ge_lo lo key \<longrightarrow> lt_hi key hi \<longrightarrow> set_post m h i key val lo hi t (upd_kv key val (cont t)))"

text \<open>The child update inside \<open>bpt_internal::set\<close>.\<close>

abbreviation update_child ::
  "nat \<Rightarrow> ('k::linorder, 'v) heap \<Rightarrow> child \<Rightarrow> 'k \<Rightarrow> 'v \<Rightarrow> addr \<Rightarrow> ('k, 'v) heap comp" where
  "update_child ord h c key val i \<equiv>
     (case c of
        Leaf_ptr l \<Rightarrow>
          bindc (leaf_insert ord h l key val) (\<lambda>(h1, newLeaf).
            case newLeaf of None \<Rightarrow> ret h1 | Some l' \<Rightarrow> insert_leaf h1 i l')
      | Internal_ptr j \<Rightarrow>
          bindc (int_set ord h j key val) (\<lambda>(h1, newInternal).
            case newInternal of None \<Rightarrow> ret h1 | Some j' \<Rightarrow> insert_internal h1 i j'))"

lemma update_child_cases:
  assumes s: "s \<noteq> GDead" "ptr_ok s c" and g: "good h lo hi s" and b: "bnd s m" and al: "alloc_ok h"
    and key: "ge_lo lo key" "lt_hi key hi" and ok: "set_ok m key val s"
    and m: "1 \<le> m" "m + 1 < size_max"
  obtains (keep) h1 s' where "\<And>i. update_child (Suc m) h c key val i = ret h1"
      "step h h1 lo hi s s' (upd_kv key val (cont s))" "same_ptr s s'" "bnd s' m"
  | (split) h1 tL mid sf f sb b where
      "\<And>i. update_child (Suc m) h c key val i = insert_entry h1 i mid f (ret b)"
      "step2 h h1 lo hi s tL mid sf (upd_kv key val (cont s))" "ptr_ok sf f"
      "step2 h h1 lo hi s tL mid sb (upd_kv key val (cont s))" "ptr_ok sb b"
      "bnd tL m" "bnd sf m" "bnd sb m"
proof (cases s)
  case GDead
  with s show ?thesis by simp
next
  case (GLeaf l xs)
  then have c: "c = Leaf_ptr l" and xs: "length xs \<le> m" using s b by auto
  from leaf_child [OF g [unfolded GLeaf] al xs m key, of val] show ?thesis
  proof (elim disjE exE conjE)
    fix h1
    assume a: "leaf_insert (Suc m) h l key val = ret (h1, None)"
      "step h h1 lo hi (GLeaf l xs) (GLeaf l (upd_kv key val xs)) (upd_kv key val xs)"
      "length (upd_kv key val xs) \<le> m"
    show ?thesis
      by (rule keep [of h1 "GLeaf l (upd_kv key val xs)"])
        (use a in \<open>auto simp: c GLeaf same_ptr_def\<close>)
  next
    fix h1 l' xs1 xs2 mid
    assume a: "leaf_insert (Suc m) h l key val = ret (h1, Some l')"
      "step2 h h1 lo hi (GLeaf l xs) (GLeaf l xs1) mid (GLeaf l' xs2) (upd_kv key val xs)"
      "leaf_primary_key h1 l' = ret mid" "length xs1 \<le> m" "length xs2 \<le> m"
    show ?thesis
      by (rule split [of h1 mid "Leaf_ptr l'" "Leaf_ptr l'" "GLeaf l xs1" "GLeaf l' xs2" "GLeaf l' xs2"])
        (use a in \<open>auto simp: c GLeaf insert_leaf_def\<close>)
  qed
next
  case (GNode j t0 es)
  then have c: "c = Internal_ptr j" using s by auto
  obtain h1 r s' where st: "int_set (Suc m) h j key val = ret (h1, r)"
    "step h h1 lo hi s s' (upd_kv key val (cont s))" "bnd s' m"
    and r: "case r of None \<Rightarrow> same_ptr s s'
       | Some j' \<Rightarrow> \<exists>tL mid nd tR. s' = GNode j' tL (ECons mid nd tR ENil) \<and>
           same_ptr s tL \<and> tR \<noteq> GDead \<and> (\<forall>x. lo = Some x \<longrightarrow> x < mid)"
    using ok g b al key unfolding set_ok_def set_post_def GNode by blast
  show ?thesis
  proof (cases r)
    case None
    show ?thesis
      by (rule keep [of h1 s']) (use st r None in \<open>auto simp: c\<close>)
  next
    case (Some j')
    then obtain tL mid nd tR where s': "s' = GNode j' tL (ECons mid nd tR ENil)"
      and q: "same_ptr s tL" "tR \<noteq> GDead" "\<forall>x. lo = Some x \<longrightarrow> x < mid" using r by auto
    note w = split_root_step2 [OF st(2) [unfolded s'] q]
    obtain b' where b': "ptr_ok tR b'" "bindc (deref (internals h1) j') (\<lambda>n.
          bindc (nonnull (int_m_root n)) (\<lambda>r.
          bindc (deref (lnodes h1) r) (\<lambda>ln. ret (ln_val ln)))) = ret b'" using w(4) by blast
    show ?thesis
      by (rule split [of h1 mid "Internal_ptr j'" b' tL "GNode j' GDead (ECons mid nd tR ENil)" tR])
        (use st Some w b' s' in \<open>auto simp: c insert_internal_def\<close>)
  qed
qed

section \<open>\<open>bpt_internal::set\<close>\<close>

lemma step_size:
  "step h h' lo hi t (GNode i t0 es) kvs \<Longrightarrow> \<exists>n. internals h' i = Some n \<and> int_m_size n = elen es"
  by (auto simp: step_def good_GNode node_at_def)

text \<open>After the child update: split if the node is over-full, else done.\<close>

lemma finish_set:
  assumes gc: "get_child_ge h i key = ret c"
    and up: "update_child (Suc m) h c key val i = ret h2"
    and st: "step h h2 lo hi (GNode i t0 es) (GNode i t' es') kvs"
    and b: "bnd t' m" "bnd_e es' m" "elen es' \<le> Suc m" and m: "2 \<le> m" "m + 1 < size_max"
  shows "set_post m h i key val lo hi (GNode i t0 es) kvs"
proof -
  obtain n where n: "internals h2 i = Some n" "int_m_size n = elen es'" using step_size [OF st] by blast
  have set: "int_set (Suc m) h i key val =
      (if m < elen es' then bindc (int_split h2 i) (\<lambda>(h3, r). ret (h3, Some r)) else ret (h2, None))"
    using gc up n by (subst int_set.simps) simp
  show ?thesis
  proof (cases "m < elen es'")
    case False
    with set st b show ?thesis
      unfolding set_post_def by (intro exI [of _ h2] exI [of _ None] exI [of _ "GNode i t' es'"]) (simp add: same_ptr_def)
  next
    case True
    then have e: "elen es' = Suc m" using b by simp
    have "good h2 lo hi (GNode i t' es')" "alloc_ok h2" and kvs: "cont (GNode i t' es') = kvs"
      using st by (auto simp: step_def)
    then obtain h3 j tL mid nd tR where sp: "int_split h2 i = ret (h3, j)"
      and st3: "step h2 h3 lo hi (GNode i t' es') (GNode j tL (ECons mid nd tR ENil)) kvs"
      and q: "same_ptr (GNode i t' es') tL" "tR \<noteq> GDead" "\<forall>x. lo = Some x \<longrightarrow> x < mid"
        "bnd (GNode j tL (ECons mid nd tR ENil)) m"
      using int_split_step [of h2 lo hi i t' es' m] m b e by auto
    have "same_ptr (GNode i t0 es) tL" using q(1) by (simp add: same_ptr_def)
    with set sp True step_trans [OF st st3] q show ?thesis
      unfolding set_post_def by (intro exI [of _ h3] exI [of _ "Some j"] exI [of _ "GNode j tL (ECons mid nd tR ENil)"]) simp
  qed
qed

primrec subs :: "('k, 'v) ge \<Rightarrow> ('k, 'v) gt list" where
  "subs ENil = []"
| "subs (ECons k a t es) = t # subs es"

lemma subs_eapp [simp]: "subs (eapp es fs) = subs es @ subs fs"
  by (induction es) auto

lemma set_at_lesser:
  assumes g: "good h lo hi (GNode i t es)" and b: "bnd (GNode i t es) m" and al: "alloc_ok h"
    and key: "ge_lo lo key" and lt: "lt_hi key (first_key None es)" and ok: "set_ok m key val t"
    and m: "2 \<le> m" "m + 1 < size_max"
  shows "set_post m h i key val lo hi (GNode i t es) (upd_kv key val (cont (GNode i t es)))"
proof -
  have rp: "rep (GNode i t es) h hi" "rng (GNode i t es) lo hi" using g by (auto simp: good_def)
  obtain c where c: "get_child_ge h i key = ret c" "ptr_ok t c" "t \<noteq> GDead"
    using get_child_ge_lesser [OF rp key lt] by blast
  obtain k1 a1 t1 es1 where es: "es = ECons k1 a1 t1 es1" using g by (cases es) (auto simp: good_GNode)
  have k: "lt_hi key (first_key hi es)" using lt by (simp add: es)
  have gt: "good h lo (first_key hi es) t" and bt: "bnd t m" and m1: "1 \<le> m"
    and sz: "elen es + 1 < size_max" using g b m by (auto simp: good_GNode)
  have "\<forall>x\<in>fst ` set (cont_e es). key < x"
    using cont_e_ge [of k1 a1 t1 es1 hi] rp(2) lt by (auto simp: es dest: less_le_trans)
  then have upd: "upd_kv key val (cont (GNode i t es)) = upd_kv key val (cont t) @ cont_e es"
    by (simp add: upd_kv_append_left)
  from c(3,2) gt bt al key k ok m1 m(2)
  have "set_post m h i key val lo hi (GNode i t es) (upd_kv key val (cont t) @ cont_e es)"
  proof (cases rule: update_child_cases)
    case (keep h1 s')
    then show ?thesis
      using node_step_lesser [OF g] b by (intro finish_set [OF c(1) _ _ _ _ _ m]) auto
  next
    case (split h1 tL mid sf f sb bk)
    obtain h2 n where "insert_entry h1 i mid f (ret bk) = ret h2"
      "step h h2 lo hi (GNode i t es) (GNode i tL (ECons mid n sf es)) (upd_kv key val (cont t) @ cont_e es)"
      using node_split_lesser [OF g split(2,3) sz] by blast
    then show ?thesis
      using split b by (intro finish_set [OF c(1) _ _ _ _ _ m]) auto
  qed
  then show ?thesis by (simp only: upd)
qed

lemma set_at_entry:
  assumes g: "good h lo hi (GNode i t (eapp es1 (ECons k a s es2)))"
    and b: "bnd (GNode i t (eapp es1 (ECons k a s es2))) m" and al: "alloc_ok h"
    and key: "k \<le> key" and hi2: "lt_hi key (first_key hi es2)" and ok: "set_ok m key val s"
    and m: "2 \<le> m" "m + 1 < size_max"
  shows "set_post m h i key val lo hi (GNode i t (eapp es1 (ECons k a s es2)))
           (upd_kv key val (cont (GNode i t (eapp es1 (ECons k a s es2)))))"
proof -
  let ?es = "eapp es1 (ECons k a s es2)"
  have rp: "rep (GNode i t ?es) h hi" "rng (GNode i t ?es) lo hi" using g by (auto simp: good_def)
  obtain c where c: "get_child_ge h i key = ret c" "ptr_ok s c" "s \<noteq> GDead"
    using get_child_ge_entry [of i t es1 k a s es2 h hi key] rp key hi2 by auto
  have gs: "good h (Some k) (first_key hi es2) s" and bs: "bnd s m" and m1: "1 \<le> m"
    and sz: "elen ?es + 1 < size_max" and kk: "ge_lo (Some k) key"
    using g b m key by (auto simp: good_GNode good_e_eapp good_e_ECons)
  have "\<forall>x\<in>fst ` set (cont t @ cont_e es1). x < key"
    using cont_before [OF rp(2)] key by (auto dest: less_le_trans)
  moreover have "\<forall>x\<in>fst ` set (cont_e es2). key < x"
    using cont_after [of k a s es2 hi key] rp(2) hi2 by auto
  ultimately have upd: "upd_kv key val (cont (GNode i t ?es)) =
      cont t @ cont_e es1 @ upd_kv key val (cont s) @ cont_e es2"
    using upd_kv_append_right [of "cont t @ cont_e es1" key val "cont s @ cont_e es2"]
      upd_kv_append_left [of "cont_e es2" key val "cont s"] by simp
  from c(3,2) gs bs al kk hi2 ok m1 m(2)
  have "set_post m h i key val lo hi (GNode i t ?es)
          (cont t @ cont_e es1 @ upd_kv key val (cont s) @ cont_e es2)"
  proof (cases rule: update_child_cases)
    case (keep h1 s')
    then show ?thesis
      using node_step_entry [OF g] b
      by (intro finish_set [OF c(1) _ _ _ _ _ m, where t' = t and es' = "eapp es1 (ECons k a s' es2)"]) auto
  next
    case (split h1 tL mid sf f sb bk)
    obtain h2 n where "insert_entry h1 i mid f (ret bk) = ret h2"
      "step h h2 lo hi (GNode i t ?es) (GNode i t (eapp es1 (ECons k a tL (ECons mid n sb es2))))
        (cont t @ cont_e es1 @ upd_kv key val (cont s) @ cont_e es2)"
      using node_split_entry [OF g split(4,5) sz] by blast
    then show ?thesis
      using split b
      by (intro finish_set [OF c(1) _ _ _ _ _ m, where t' = t and es' = "eapp es1 (ECons k a tL (ECons mid n sb es2))"]) auto
  qed
  then show ?thesis by (simp only: upd)
qed

lemma set_ok_all:
  fixes t :: "('k::linorder, 'v) gt" and es :: "('k, 'v) ge"
  assumes m: "2 \<le> m" "m + 1 < size_max"
  shows "set_ok m key val t" and "\<forall>s\<in>set (subs es). set_ok m key val s"
proof (induction t and es rule: gt.induct ge.induct)
  case (GNode i t es)
  have "set_post m h i key val lo hi (GNode i t es) (upd_kv key val (cont (GNode i t es)))"
    if g: "good h lo hi (GNode i t es)" and b: "bnd (GNode i t es) m" and al: "alloc_ok h"
      and key: "ge_lo lo key" "lt_hi key hi" for h lo hi
  proof (cases "lt_hi key (first_key None es)")
    case True
    then show ?thesis by (rule set_at_lesser [OF g b al key(1) _ GNode.IH(1) m])
  next
    case False
    then obtain k1 where "first_key None es = Some k1" and "k1 \<le> key"
      by (cases "first_key None es") auto
    then obtain es1 k a s es2 where es: "es = eapp es1 (ECons k a s es2)" and k: "k \<le> key"
      and hi2: "lt_hi key (first_key hi es2)"
      using entry_find [of es hi k1 key] g key by (auto simp: good_def)
    have "set_ok m key val s" using GNode.IH(2) by (simp add: es)
    then show ?thesis
      using set_at_entry [OF g [unfolded es] b [unfolded es] al k hi2 _ m] by (simp add: es)
  qed
  then show ?case by (simp add: set_ok_def)
qed (auto simp: set_ok_def)

end
