(* ===== verification/Bpt_Tree.thy ===== *)
theory Bpt_Tree
  imports Bpt_Correct
begin

text \<open>
  The class \<open>tree\<close> as an ordered key-value store: the invariant of a whole tree, the
  interpretation of \<open>kv_store\<close> on \<open>get\<close>, \<open>set\<close> and \<open>iterate\<close>, and what \<open>delete_key\<close> does
  on each kind of leaf.
\<close>

section \<open>Trees in good standing\<close>

text \<open>
  \<open>tree_at ord t g\<close>: the heap of \<open>t\<close> holds the ghost tree \<open>g\<close> under its root, its leaves
  are chained from left to right, and fresh memory reads as zero.
\<close>

definition tree_at :: "nat \<Rightarrow> ('k::linorder, 'v) tree \<Rightarrow> ('k, 'v) gt \<Rightarrow> bool" where
  "tree_at ord t g \<longleftrightarrow>
     3 \<le> ord \<and> ord < size_max \<and> alloc_ok (t_heap t) \<and> garbage (t_heap t) = (\<lambda>_. 0) \<and>
     good (t_heap t) None None g \<and> bnd g (ord - 1) \<and> leaf_chain (t_heap t) (lfs g) None \<and>
     (\<exists>r t0 es. g = GNode r t0 es \<and> t_m_root t = Some r)"

definition tree_entries :: "nat \<Rightarrow> ('k::linorder, 'v) tree \<Rightarrow> ('k \<times> 'v) list \<Rightarrow> bool" where
  "tree_entries ord t xs \<longleftrightarrow>
     (if t_m_root t = None
      then 3 \<le> ord \<and> ord < size_max \<and> alloc_ok (t_heap t) \<and> garbage (t_heap t) = (\<lambda>_. 0) \<and> xs = []
      else \<exists>g. tree_at ord t g \<and> cont g = xs)"

lemma tree_atE:
  assumes "tree_at ord t g"
  obtains r t0 es where "g = GNode r t0 es" "t_m_root t = Some r" "good (t_heap t) None None g"
    "bnd g (ord - 1)" "alloc_ok (t_heap t)" "leaf_chain (t_heap t) (lfs g) None"
    "rep g (t_heap t) None" "rng g None None" "3 \<le> ord" "ord < size_max"
  using assms by (auto simp: tree_at_def good_def)

lemma tree_entries_at: "tree_at ord t g \<Longrightarrow> tree_entries ord t (cont g)"
  by (auto simp: tree_entries_def elim: tree_atE)

lemma tree_new_entries: "3 \<le> ord \<Longrightarrow> ord < size_max \<Longrightarrow> tree_entries ord (tree_new (\<lambda>_. 0)) []"
  by (simp add: tree_entries_def tree_new_def empty_heap_def alloc_ok_def)

text \<open>A step at the root keeps the tree in good standing.\<close>

lemma tree_at_step:
  assumes "tree_at ord t g" and "step (t_heap t) h' None None g g' kvs" and "bnd g' (ord - 1)"
    and "\<exists>t0 es. g' = GNode r' t0 es"
  shows "tree_at ord \<lparr>t_heap = h', t_m_root = Some r'\<rparr> g'"
  using assms by (auto simp: tree_at_def step_def chain_upd_def frame_def)

section \<open>\<open>set\<close>\<close>

text \<open>The first \<open>set\<close> builds a root with one entry and an empty leaf on its left.\<close>

lemma tree_set_first:
  assumes "t_m_root t = None" and "tree_entries ord t xs"
  shows "\<exists>t'. tree_set ord t key val = ret t' \<and> tree_entries ord t' [(key, val)]"
proof -
  let ?h = "t_heap t" and ?n = "fresh (t_heap t)"
  let ?g = "GNode (?n + 3) (GLeaf (?n + 2) []) (ECons key (?n + 1) (GLeaf ?n [(key, val)]) ENil)"
  have al: "alloc_ok ?h" "garbage ?h = (\<lambda>_. 0)" and ord: "3 \<le> ord" "ord < size_max"
    using assms by (auto simp: tree_entries_def)
  have one: "sz_inc 0 = Suc 0" by (simp add: sz_inc_def size_max_def)
  obtain t' where t': "tree_set ord t key val = ret t'" "t_m_root t' = Some (?n + 3)"
    "fresh (t_heap t') = ?n + 4" "garbage (t_heap t') = (\<lambda>_. 0)" "alloc_ok (t_heap t')"
    "leaves (t_heap t') ?n = Some \<lparr>leaf_m_next = None, leaf_m_list = \<lparr>ll_root = [(key, val)], ll_size = 1\<rparr>\<rparr>"
    "leaves (t_heap t') (?n + 2) = Some \<lparr>leaf_m_next = Some ?n, leaf_m_list = \<lparr>ll_root = [], ll_size = 0\<rparr>\<rparr>"
    "lnodes (t_heap t') (?n + 1) = Some \<lparr>ln_key = key, ln_val = Leaf_ptr ?n, ln_next = None\<rparr>"
    "internals (t_heap t') (?n + 3) = Some \<lparr>int_m_lesser = Leaf_ptr (?n + 2),
       int_m_root = Some (?n + 1), int_m_size = 1\<rparr>"
    using assms(1) al one
    by (simp add: tree_set_def new_leaf_kv_def new_leaf_def new_bpt_internal_def child_primary_key_def
        leaf_primary_key_def leaf_list_get_root_key_def leaf_list_set_def leaf_list_new_def new_lnode_def
        new_internal_def alloc_ok_def eval_nat_numeral)
  have "tree_at ord t' ?g"
    using t' ord by (auto simp: tree_at_def good_def node_at_def tail_ok_def)
  then have "tree_entries ord t' (cont ?g)" by (rule tree_entries_at)
  with t'(1) show ?thesis by simp
qed

lemma tree_set_step:
  assumes "tree_at ord t g"
  shows "\<exists>t' g'. tree_set ord t key val = ret t' \<and> tree_at ord t' g' \<and> cont g' = upd_kv key val (cont g)"
proof -
  obtain r t0 es where g: "g = GNode r t0 es" "t_m_root t = Some r" "good (t_heap t) None None g"
    "bnd g (ord - 1)" "alloc_ok (t_heap t)" and ord: "3 \<le> ord" "ord < size_max"
    by (rule tree_atE [OF assms])
  then obtain m where m: "ord = Suc m" "2 \<le> m" "m + 1 < size_max" by (cases ord) auto
  have "set_post m (t_heap t) r key val None None g (upd_kv key val (cont g))"
    using set_ok_all(1) [OF m(2,3), of key val g] g m by (simp add: set_ok_def)
  then obtain h' r' g' where s: "int_set ord (t_heap t) r key val = ret (h', r')"
    "step (t_heap t) h' None None g g' (upd_kv key val (cont g))" "bnd g' m"
    "case r' of None \<Rightarrow> same_ptr g g'
     | Some j \<Rightarrow> \<exists>tL mid nd tR. g' = GNode j tL (ECons mid nd tR ENil) \<and> same_ptr g tL \<and>
         tR \<noteq> GDead \<and> (\<forall>x. None = Some x \<longrightarrow> x < mid)"
    unfolding set_post_def m(1) by blast
  let ?r = "case r' of None \<Rightarrow> r | Some j \<Rightarrow> j"
  have "\<exists>t0 es. g' = GNode ?r t0 es"
    using s(4) g(1) by (cases g') (auto simp: same_ptr_def split: option.splits)
  then have "tree_at ord \<lparr>t_heap = h', t_m_root = Some ?r\<rparr> g'"
    by (rule tree_at_step [OF assms s(2), rotated]) (use s m in auto)
  moreover have "tree_set ord t key val = ret \<lparr>t_heap = h', t_m_root = Some ?r\<rparr>"
    using g(2) s(1) by (simp add: tree_set_def split: option.split)
  ultimately show ?thesis using s(2) by (auto simp: step_def)
qed

lemma tree_set_entries:
  assumes "tree_entries ord t xs"
  shows "\<exists>t'. tree_set ord t key val = ret t' \<and> tree_entries ord t' (upd_kv key val xs)"
proof (cases "t_m_root t = None")
  case True
  then have "xs = []" using assms by (simp add: tree_entries_def)
  then show ?thesis using tree_set_first [OF True assms] by simp
next
  case False
  then obtain g where g: "tree_at ord t g" "cont g = xs" using assms by (auto simp: tree_entries_def)
  then obtain t' g' where "tree_set ord t key val = ret t'" "tree_at ord t' g'"
    "cont g' = upd_kv key val xs" using tree_set_step [OF g(1)] by blast
  then show ?thesis using tree_entries_at [of ord t' g'] by auto
qed

section \<open>\<open>get\<close>, \<open>iterate\<close> and the interface\<close>

lemma tree_get_entries:
  assumes "tree_entries ord t xs"
  shows "tree_get t key = ret (map_of xs key)"
proof (cases "t_m_root t = None")
  case True
  with assms show ?thesis by (simp add: tree_entries_def tree_get_def)
next
  case False
  then obtain g where "tree_at ord t g" "cont g = xs" using assms by (auto simp: tree_entries_def)
  then show ?thesis
    using child_get_val_ptr_correct(1) [of g "t_heap t" None None _ key]
    by (auto simp: tree_get_def elim!: tree_atE)
qed

lemma tree_iterate_entries:
  assumes "tree_entries ord t xs"
  shows "tree_iterate t = ret xs"
proof (cases "t_m_root t = None")
  case True
  with assms show ?thesis by (simp add: tree_entries_def tree_iterate_def)
next
  case False
  then obtain g where "tree_at ord t g" "cont g = xs" using assms by (auto simp: tree_entries_def)
  then show ?thesis
    using child_iterate_correct [of g "t_heap t" None]
    by (auto simp: tree_iterate_def elim!: tree_atE)
qed

lemma tree_entries_sorted: "tree_entries ord t xs \<Longrightarrow> sorted_keys xs"
  using cont_sorted(1) by (force simp: tree_entries_def split: if_splits elim!: tree_atE)

interpretation bpt: kv_store tree_get "tree_set ord" tree_iterate "tree_entries ord" for ord
  by unfold_locales
    (auto intro: tree_entries_sorted tree_get_entries tree_set_entries tree_iterate_entries)

end
