(* ===== verification/Bpt_Delete.thy ===== *)
theory Bpt_Delete
  imports Bpt_Tree
begin

text \<open>
  \<open>delete_key\<close>. What it does depends on the leaf the search for the key ends in: with an
  empty leaf it dereferences a null pointer; otherwise the tree stays in good standing
  without the key, unless the last entry of a leaf goes that is not its parent's
  \<open>m_lesser\<close>. Then the code unlinks the wrong list node, a broken tree or an endless loop;
  and the last entry of an \<open>m_lesser\<close> leaf is deleted but reported as absent.
\<close>

section \<open>The leaf a search ends in\<close>

text \<open>
  The content of that leaf, with a flag that says whether it hangs at \<open>m_lesser\<close> of its
  parent.
\<close>

primrec route :: "('k::linorder, 'v) gt \<Rightarrow> 'k \<Rightarrow> bool \<Rightarrow> bool \<times> ('k \<times> 'v) list"
  and route_e :: "('k, 'v) ge \<Rightarrow> 'k \<Rightarrow> bool \<times> ('k \<times> 'v) list" where
  "route GDead key b = (b, [])"
| "route (GLeaf l xs) key b = (b, xs)"
| "route (GNode i t es) key b =
     (if lt_hi key (first_key None es) then route t key True else route_e es key)"
| "route_e ENil key = (False, [])"
| "route_e (ECons k a t es) key =
     (if lt_hi key (first_key None es) then route t key False else route_e es key)"

lemma route_e_entry:
  assumes "rng_e (eapp es1 (ECons k a s es2)) hi" and "k \<le> key" and "lt_hi key (first_key hi es2)"
  shows "route_e (eapp es1 (ECons k a s es2)) key = route s key False"
  using assms(1)
proof (induction es1 rule: ge.induct [of "\<lambda>_. True"])
  case ENil
  then show ?case using assms(3) by (cases es2) auto
next
  case (ECons k0 a0 t0 es0)
  have "\<not> lt_hi key (first_key (Some k) es0)"
  proof (cases es0)
    case ENil
    then show ?thesis using assms(2) by auto
  next
    case (ECons k1 a1 t1 es3)
    then have "k1 < k" using rng_e_keys_less [of es0 k a s es2 hi] ECons.prems by auto
    with assms(2) show ?thesis by (auto simp: ECons)
  qed
  with ECons show ?case by simp
qed auto

text \<open>Where the key falls among the children of a node.\<close>

lemma node_child_cases:
  assumes "rng (GNode i t es) lo hi" and "lt_hi key hi"
  obtains (lesser) "lt_hi key (first_key None es)"
  | (entry) es1 k a s es2 where "es = eapp es1 (ECons k a s es2)" "k \<le> key"
      "lt_hi key (first_key hi es2)" "\<not> lt_hi key (first_key None es)"
proof (cases "lt_hi key (first_key None es)")
  case False
  then obtain k1 where "first_key None es = Some k1" "k1 \<le> key" by (cases "first_key None es") auto
  with entry_find [of es hi k1 key] assms False show ?thesis using entry by auto
qed (use lesser in blast)

lemma route_map_of_all:
  fixes t :: "('k::linorder, 'v) gt" and es :: "('k, 'v) ge"
  shows "\<And>b. rng t lo hi \<Longrightarrow> ge_lo lo key \<Longrightarrow> lt_hi key hi \<Longrightarrow>
      map_of (snd (route t key b)) key = map_of (cont t) key"
    and "\<forall>s\<in>set (subs es). \<forall>lo hi b. rng s lo hi \<longrightarrow> ge_lo lo key \<longrightarrow> lt_hi key hi \<longrightarrow>
      map_of (snd (route s key b)) key = map_of (cont s) key"
proof (induction t and es arbitrary: lo hi rule: gt.induct ge.induct)
  case (GNode i t es)
  from GNode.prems(1,3) show ?case
  proof (cases rule: node_child_cases)
    case lesser
    then have "lt_hi key (first_key hi es)" using GNode.prems by (cases es) auto
    then have "map_of (snd (route t key True)) key = map_of (cont t) key"
      using GNode.prems by (intro GNode.IH(1) [of lo "first_key hi es"]) auto
    then show ?thesis
      using map_of_lesser [OF GNode.prems(1) lesser] lesser by (simp del: cont.simps)
  next
    case (entry es1 k a s es2)
    then have "map_of (snd (route s key False)) key = map_of (cont s) key"
      using GNode.IH(2) GNode.prems by auto
    then show ?thesis
      using entry GNode.prems route_e_entry [of es1 k a s es2 hi key]
        map_of_entry [of i t es1 k a s es2 lo hi key] by (simp del: cont.simps)
  qed
qed auto

lemmas route_map_of = route_map_of_all(1)

lemma del_kv_context:
  "key \<notin> fst ` set ps \<Longrightarrow> key \<notin> fst ` set qs \<Longrightarrow>
     del_kv key (ps @ xs @ qs) = ps @ del_kv key xs @ qs"
  by (simp add: del_kv_append)

lemma elen_pos [simp]: "0 < elen es \<longleftrightarrow> es \<noteq> ENil"
  by (cases es) auto

section \<open>One level\<close>

lemma leaf_del:
  assumes g: "good h lo hi (GLeaf l xs)" and al: "alloc_ok h" and xs: "xs \<noteq> []" "length xs < size_max"
  shows "\<exists>h'. child_delete_key h (Leaf_ptr l) key = ret (h', key \<in> fst ` set xs) \<and>
           step h h' lo hi (GLeaf l xs) (GLeaf l (del_kv key xs)) (del_kv key xs) \<and>
           child_size h' (Leaf_ptr l) = ret (length (del_kv key xs))"
proof -
  obtain nx where lf: "leaves h l = Some \<lparr>leaf_m_next = nx,
      leaf_m_list = \<lparr>ll_root = xs, ll_size = length xs\<rparr>\<rparr>" and so: "sorted_keys xs"
    and kin: "\<forall>k\<in>fst ` set xs. ge_lo lo k \<and> lt_hi k hi" and l: "l < fresh h"
    using g by (auto simp: good_def)
  let ?ys = "del_kv key xs"
  let ?h' = "put_leaf l \<lparr>leaf_m_next = nx, leaf_m_list = \<lparr>ll_root = ?ys, ll_size = length ?ys\<rparr>\<rparr> h"
  have "ll_ok \<lparr>ll_root = xs, ll_size = length xs\<rparr>" using so by (simp add: ll_ok_def)
  from leaf_list_delete_key_ok [OF this, of key] xs
  obtain l' where l': "leaf_list_delete_key key \<lparr>ll_root = xs, ll_size = length xs\<rparr> =
      Inr (l', key \<in> fst ` set xs)" "ll_ok l'" "ll_root l' = ?ys" by auto
  then have "l' = \<lparr>ll_root = ?ys, ll_size = length ?ys\<rparr>" by (simp add: ll_ok_def)
  with l'(1) lf have "child_delete_key h (Leaf_ptr l) key = ret (?h', key \<in> fst ` set xs)"
    by (subst child_delete_key.simps) (simp add: leaf_delete_key_def)
  moreover have "frame h ?h' {l}" by (rule frame_put_leaf) simp
  moreover have "alloc_ok ?h'" using al lf by (auto simp: alloc_ok_def)
  moreover have "\<forall>k\<in>fst ` set ?ys. ge_lo lo k \<and> lt_hi k hi" using kin set_del_kv_sub [of key xs] by blast
  ultimately show ?thesis
    using lf so l by (auto simp: step_def good_def chain_upd_def sorted_del_kv child_size_def)
qed

text \<open>\<open>bpt_internal::delete_key\<close> on top of the child's, when no entry has to be unlinked.\<close>

lemma node_del:
  assumes "get_child_ge h i key = ret c" and "child_delete_key h c key = ret (h1, f)"
    and "child_size h1 c = ret n" and "n = 0 \<longrightarrow> (\<exists>nd. internals h1 i = Some nd \<and> int_m_lesser nd = c)"
  shows "child_delete_key h (Internal_ptr i) key = ret (h1, f \<and> n \<noteq> 0)"
  using assms by (subst child_delete_key.simps) auto

lemma node_del_fault:
  "get_child_ge h i key = ret c \<Longrightarrow> child_delete_key h c key = fail e \<Longrightarrow>
     child_delete_key h (Internal_ptr i) key = fail e"
  by (subst child_delete_key.simps) simp

lemma node_size:
  "good h lo hi (GNode i t es) \<Longrightarrow> child_size h (Internal_ptr i) = ret (elen es) \<and> elen es \<noteq> 0"
  by (auto simp: good_GNode node_at_def child_size_def)

section \<open>The whole path\<close>

definition del_fine :: "'k \<Rightarrow> bool \<times> ('k \<times> 'v) list \<Rightarrow> bool" where
  "del_fine key r \<longleftrightarrow> snd r \<noteq> [] \<and> (fst r \<or> del_kv key (snd r) \<noteq> [])"

definition del_found :: "'k \<Rightarrow> ('k \<times> 'v) list \<Rightarrow> bool" where
  "del_found key xs \<longleftrightarrow> key \<in> fst ` set xs \<and> del_kv key xs \<noteq> []"

definition del_post ::
  "('k::linorder, 'v) heap \<Rightarrow> child \<Rightarrow> 'k \<Rightarrow> 'k option \<Rightarrow> 'k option \<Rightarrow> ('k, 'v) gt \<Rightarrow> bool \<Rightarrow>
   nat \<Rightarrow> ('k \<times> 'v) list \<Rightarrow> bool" where
  "del_post h c key lo hi t b m xs \<longleftrightarrow>
     (\<exists>h' t' f n. child_delete_key h c key = ret (h', f) \<and>
        step h h' lo hi t t' (del_kv key (cont t)) \<and> same_ptr t t' \<and> bnd t' m \<and>
        child_size h' c = ret n \<and> (f \<and> n \<noteq> 0 \<longleftrightarrow> del_found key xs) \<and> (n = 0 \<longrightarrow> b))"

definition del_ok :: "'k::linorder \<Rightarrow> ('k, 'v) gt \<Rightarrow> bool" where
  "del_ok key t \<longleftrightarrow>
     (\<forall>h lo hi c b m. good h lo hi t \<longrightarrow> t \<noteq> GDead \<longrightarrow> ptr_ok t c \<longrightarrow> alloc_ok h \<longrightarrow> bnd t m \<longrightarrow>
        m < size_max \<longrightarrow> ge_lo lo key \<longrightarrow> lt_hi key hi \<longrightarrow>
        (snd (route t key b) = [] \<longrightarrow> child_delete_key h c key = fail Null_Deref) \<and>
        (del_fine key (route t key b) \<longrightarrow> del_post h c key lo hi t b m (snd (route t key b))))"

lemma del_okD:
  assumes "del_ok key t" "good h lo hi t" "t \<noteq> GDead" "ptr_ok t c" "alloc_ok h" "bnd t m"
    "m < size_max" "ge_lo lo key" "lt_hi key hi"
  shows "snd (route t key b) = [] \<Longrightarrow> child_delete_key h c key = fail Null_Deref"
    and "del_fine key (route t key b) \<Longrightarrow> del_post h c key lo hi t b m (snd (route t key b))"
  using assms unfolding del_ok_def by blast+

lemma del_ok_leaf: "del_ok key (GLeaf l xs)"
proof -
  have "child_delete_key h (Leaf_ptr l) key = fail Null_Deref"
    if "good h lo hi (GLeaf l [])" for h lo hi
    using that by (subst child_delete_key.simps)
      (auto simp: good_def leaf_delete_key_def leaf_list_delete_key_def)
  moreover have "del_post h (Leaf_ptr l) key lo hi (GLeaf l xs) b m xs"
    if "good h lo hi (GLeaf l xs)" "alloc_ok h" "length xs \<le> m" "m < size_max" "xs \<noteq> []"
      "b \<or> del_kv key xs \<noteq> []" for h lo hi b m
  proof -
    have "length (del_kv key xs) \<le> m"
      using that length_del_kv [of key xs] by (cases "key \<in> fst ` set xs") auto
    with leaf_del [OF that(1,2,5), of key] that show ?thesis
      unfolding del_post_def del_found_def by (fastforce simp: same_ptr_def)
  qed
  ultimately show ?thesis by (auto simp: del_ok_def del_fine_def)
qed

lemma node_lesser_ptr:
  assumes "step h h1 lo hi t0 (GNode i t es) kvs" and "ptr_ok t c" and "t \<noteq> GDead"
  shows "\<exists>nd. internals h1 i = Some nd \<and> int_m_lesser nd = c"
  using assms by (cases t) (auto simp: step_def good_GNode node_at_def)

lemma del_post_lesser:
  assumes g: "good h lo hi (GNode i t es)" and c: "get_child_ge h i key = ret c" "ptr_ok t c"
    and lt: "lt_hi key (first_key None es)"
    and b: "bnd (GNode i t es) m" and post: "del_post h c key lo (first_key hi es) t True m xs"
  shows "del_post h (Internal_ptr i) key lo hi (GNode i t es) bb m xs"
proof -
  obtain h' t' f n where p: "child_delete_key h c key = ret (h', f)"
    "step h h' lo (first_key hi es) t t' (del_kv key (cont t))" "same_ptr t t'" "bnd t' m"
    "child_size h' c = ret n" "f \<and> n \<noteq> 0 \<longleftrightarrow> del_found key xs"
    using post by (auto simp: del_post_def)
  note st = node_step_lesser [OF g p(2,3)]
  obtain k1 a1 t1 es1 where es: "es = ECons k1 a1 t1 es1" using g by (cases es) (auto simp: good_GNode)
  have "\<forall>x\<in>fst ` set (cont_e es). key < x"
    using cont_e_ge [of k1 a1 t1 es1 hi] g lt by (auto simp: es good_def dest: less_le_trans)
  then have dk: "del_kv key (cont (GNode i t es)) = del_kv key (cont t) @ cont_e es"
    using del_kv_context [of key "[]" "cont_e es"] by auto
  have "\<exists>nd. internals h' i = Some nd \<and> int_m_lesser nd = c"
    using p(3) c(2) by (intro node_lesser_ptr [OF st]) (auto simp: same_ptr_def)
  with node_del [OF c(1) p(1,5)] have "child_delete_key h (Internal_ptr i) key = ret (h', f \<and> n \<noteq> 0)"
    by blast
  moreover have "child_size h' (Internal_ptr i) = ret (elen es) \<and> elen es \<noteq> 0"
    using st by (intro node_size [of h' lo hi]) (auto simp: step_def)
  ultimately show ?thesis
    unfolding del_post_def using st dk b p(4,6)
    by (intro exI [of _ h'] exI [of _ "GNode i t' es"] exI [of _ "f \<and> n \<noteq> 0"] exI [of _ "elen es"])
      (simp add: same_ptr_def del: cont.simps)
qed

lemma del_post_entry:
  assumes g: "good h lo hi (GNode i t (eapp es1 (ECons k a s es2)))"
    and c: "get_child_ge h i key = ret c" "ptr_ok s c"
    and key: "k \<le> key" "lt_hi key (first_key hi es2)"
    and b: "bnd (GNode i t (eapp es1 (ECons k a s es2))) m"
    and post: "del_post h c key (Some k) (first_key hi es2) s False m xs"
  shows "del_post h (Internal_ptr i) key lo hi (GNode i t (eapp es1 (ECons k a s es2))) bb m xs"
proof -
  let ?es = "eapp es1 (ECons k a s es2)"
  obtain h' s' f n where p: "child_delete_key h c key = ret (h', f)"
    "step h h' (Some k) (first_key hi es2) s s' (del_kv key (cont s))" "same_ptr s s'" "bnd s' m"
    "child_size h' c = ret n" "f \<and> n \<noteq> 0 \<longleftrightarrow> del_found key xs" "n \<noteq> 0"
    using post unfolding del_post_def by blast
  note st = node_step_entry [OF g p(2,3)]
  have rp: "rng (GNode i t ?es) lo hi" using g by (simp add: good_def)
  have "\<forall>x\<in>fst ` set (cont t @ cont_e es1). x < key"
    using cont_before [OF rp] key by (auto dest: less_le_trans)
  moreover have "\<forall>x\<in>fst ` set (cont_e es2). key < x"
    using cont_after [of k a s es2 hi key] rp key by auto
  ultimately have dk: "del_kv key (cont (GNode i t ?es)) =
      cont t @ cont_e es1 @ del_kv key (cont s) @ cont_e es2"
    using del_kv_context [of key "cont t @ cont_e es1" "cont_e es2" "cont s"] by auto
  have "child_delete_key h (Internal_ptr i) key = ret (h', f \<and> n \<noteq> 0)"
    using node_del [OF c(1) p(1,5)] p(7) by blast
  moreover have "child_size h' (Internal_ptr i) = ret (elen (eapp es1 (ECons k a s' es2))) \<and>
      elen (eapp es1 (ECons k a s' es2)) \<noteq> 0"
    using st by (intro node_size [of h' lo hi]) (auto simp: step_def)
  ultimately show ?thesis
    unfolding del_post_def using st dk b p(4,6)
    by (intro exI [of _ h'] exI [of _ "GNode i t (eapp es1 (ECons k a s' es2))"]
        exI [of _ "f \<and> n \<noteq> 0"] exI [of _ "elen (eapp es1 (ECons k a s' es2))"])
      (simp add: same_ptr_def del: cont.simps)
qed

lemma del_ok_all:
  fixes t :: "('k::linorder, 'v) gt" and es :: "('k, 'v) ge"
  shows "del_ok key t" and "\<forall>s\<in>set (subs es). del_ok key s"
proof (induction t and es rule: gt.induct ge.induct)
  case (GNode i t es)
  have "(snd (route (GNode i t es) key b) = [] \<longrightarrow> child_delete_key h c key = fail Null_Deref) \<and>
      (del_fine key (route (GNode i t es) key b) \<longrightarrow>
       del_post h c key lo hi (GNode i t es) b m (snd (route (GNode i t es) key b)))"
    if g: "good h lo hi (GNode i t es)" and cc: "ptr_ok (GNode i t es) c" and al: "alloc_ok h"
      and b: "bnd (GNode i t es) m" "m < size_max" and key: "ge_lo lo key" "lt_hi key hi" for h lo hi c b m
  proof -
    have rp: "rep (GNode i t es) h hi" "rng (GNode i t es) lo hi" using g by (auto simp: good_def)
    have c: "c = Internal_ptr i" using cc by simp
    from rp(2) key(2) show ?thesis
    proof (cases rule: node_child_cases)
      case lesser
      obtain c' where c': "get_child_ge h i key = ret c'" "ptr_ok t c'" "t \<noteq> GDead"
        using get_child_ge_lesser [OF rp key(1) lesser] by blast
      have "lt_hi key (first_key hi es)" using lesser rp(2) by (cases es) auto
      then have d: "snd (route t key True) = [] \<Longrightarrow> child_delete_key h c' key = fail Null_Deref"
        "del_fine key (route t key True) \<Longrightarrow>
          del_post h c' key lo (first_key hi es) t True m (snd (route t key True))"
        using del_okD [OF GNode.IH(1), of h lo "first_key hi es" c' m] g c' al b key by (auto simp: good_GNode)
      show ?thesis
        using d node_del_fault [OF c'(1)] del_post_lesser [OF g c'(1,2) lesser b(1)] lesser
        by (auto simp: c)
    next
      case (entry es1 k a s es2)
      obtain c' where c': "get_child_ge h i key = ret c'" "ptr_ok s c'" "s \<noteq> GDead"
        using get_child_ge_entry [of i t es1 k a s es2 h hi key] rp entry by auto
      have "del_ok key s" using GNode.IH(2) entry(1) by simp
      then have d: "snd (route s key False) = [] \<Longrightarrow> child_delete_key h c' key = fail Null_Deref"
        "del_fine key (route s key False) \<Longrightarrow>
          del_post h c' key (Some k) (first_key hi es2) s False m (snd (route s key False))"
        using del_okD [of key s h "Some k" "first_key hi es2" c' m] g c' al b entry(1-3)
        by (auto simp: good_GNode good_e_eapp good_e_ECons)
      have r: "route (GNode i t es) key b = route s key False"
        using entry route_e_entry [of es1 k a s es2 hi key] rp(2) by simp
      show ?thesis
        unfolding r unfolding entry(1) c
        using d node_del_fault [OF c'(1)]
          del_post_entry [OF g [unfolded entry(1)] c'(1,2) entry(2,3) b(1) [unfolded entry(1)]] by blast
    qed
  qed
  then show ?case unfolding del_ok_def by blast
qed (auto simp: del_ok_leaf, auto simp: del_ok_def)

section \<open>\<open>tree::delete_key\<close>\<close>

lemma tree_delete_fault:
  assumes "tree_at ord t g" and "snd (route g key True) = []"
  shows "tree_delete_key t key = fail Null_Deref"
proof -
  obtain r t0 es where g: "g = GNode r t0 es" "t_m_root t = Some r" "good (t_heap t) None None g"
    "bnd g (ord - 1)" "alloc_ok (t_heap t)" "3 \<le> ord" "ord < size_max"
    by (rule tree_atE [OF assms(1)])
  then have "child_delete_key (t_heap t) (Internal_ptr r) key = fail Null_Deref"
    by (intro del_okD(1) [OF del_ok_all(1), of "t_heap t" None None g _ "ord - 1" _ True] assms(2)) auto
  then show ?thesis by (simp add: tree_delete_key_def g(2))
qed

lemma tree_delete_ok:
  assumes "tree_at ord t g" and "del_fine key (route g key True)"
  shows "\<exists>t' g'. tree_delete_key t key = ret (t', del_found key (snd (route g key True))) \<and>
           tree_at ord t' g' \<and> cont g' = del_kv key (cont g)"
proof -
  obtain r t0 es where g: "g = GNode r t0 es" "t_m_root t = Some r" "good (t_heap t) None None g"
    "bnd g (ord - 1)" "alloc_ok (t_heap t)" "3 \<le> ord" "ord < size_max"
    by (rule tree_atE [OF assms(1)])
  then have "del_post (t_heap t) (Internal_ptr r) key None None g True (ord - 1) (snd (route g key True))"
    by (intro del_okD(2) [OF del_ok_all(1)] assms(2)) auto
  then obtain h' g' f n where p: "child_delete_key (t_heap t) (Internal_ptr r) key = ret (h', f)"
    "step (t_heap t) h' None None g g' (del_kv key (cont g))" "same_ptr g g'" "bnd g' (ord - 1)"
    "child_size h' (Internal_ptr r) = ret n" "f \<and> n \<noteq> 0 \<longleftrightarrow> del_found key (snd (route g key True))"
    by (auto simp: del_post_def)
  have g': "\<exists>t0 es. g' = GNode r t0 es" using p(3) g(1) by (cases g') (auto simp: same_ptr_def)
  then obtain t1 es1 where "good h' None None (GNode r t1 es1)" using p(2) by (auto simp: step_def)
  then obtain nd where nd: "internals h' r = Some nd" "int_m_size nd \<noteq> 0"
    using node_size [of h' None None r t1 es1]
    by (cases "internals h' r") (auto simp: child_size_def deref_def)
  then have "tree_delete_key t key = ret (\<lparr>t_heap = h', t_m_root = Some r\<rparr>, f)" and "n \<noteq> 0"
    using p(1,5) g(2) by (auto simp: tree_delete_key_def child_size_def)
  with p(6) tree_at_step [OF assms(1) p(2,4) g'] p(2) show ?thesis
    by (auto simp: step_def)
qed

end
