(* ===== verification/Bpt_Props.thy ===== *)
theory Bpt_Props
  imports Bpt_Delete
begin

text \<open>
  The properties of the B+ tree: runs of \<open>set\<close> from the empty tree, \<open>delete_key\<close> on every
  kind of leaf, and the faults of \<open>delete_key\<close> and of the uninitialised size.
\<close>

section \<open>Runs of \<open>set\<close>\<close>

fun tree_set_all :: "nat \<Rightarrow> ('k::linorder, 'v) tree \<Rightarrow> ('k \<times> 'v) list \<Rightarrow> ('k, 'v) tree comp" where
  "tree_set_all ord t [] = ret t"
| "tree_set_all ord t ((k, v) # ps) = bindc (tree_set ord t k v) (\<lambda>t'. tree_set_all ord t' ps)"

lemma tree_set_all_insert_all: "tree_set_all ord t ps = bpt.insert_all ord t ps"
  by (induction ord t ps rule: tree_set_all.induct) (simp_all add: bpt.insert_all.simps)

text \<open>
  C1. From the empty tree, over memory that reads as zero and for every \<open>ORDER\<close> from 3 on,
  any run of \<open>set\<close>s returns without a fault, and a \<open>get\<close> then answers the value of the last
  \<open>set\<close> of its key, or null when there was none.
\<close>

theorem tree_sets_get:
  assumes "3 \<le> ord" and "ord < size_max"
  shows "\<exists>t. tree_set_all ord (tree_new (\<lambda>_. 0)) ps = ret t \<and>
           (\<forall>k. tree_get t k = ret (map_of (rev ps) k))"
  using bpt.insert_all_lookup [OF tree_new_entries [OF assms], of ps]
  by (simp add: tree_set_all_insert_all)

theorem tree_sets_get_witness:
  "\<exists>t. tree_set_all 6 (tree_new (\<lambda>_. 0)) [(3, ''c''), (1 :: nat, ''a''), (3, ''d'')] = ret t \<and>
     tree_get t 3 = ret (Some ''d'') \<and> tree_get t 2 = ret None"
  using tree_sets_get [of 6 "[(3, ''c''), (1 :: nat, ''a''), (3, ''d'')]"]
  by (auto simp: size_max_def)

text \<open>
  C6. After any such run, \<open>iterate\<close> returns and visits the keys in strictly ascending order,
  each key that was set exactly once and with its last value, and no other.
\<close>

theorem tree_sets_iterate:
  assumes "3 \<le> ord" and "ord < size_max"
  shows "\<exists>t xs. tree_set_all ord (tree_new (\<lambda>_. 0)) ps = ret t \<and> tree_iterate t = ret xs \<and>
           sorted_wrt (<) (map fst xs) \<and> map_of xs = map_of (rev ps) \<and> set (map fst xs) = fst ` set ps"
proof -
  obtain t where t: "tree_set_all ord (tree_new (\<lambda>_. 0)) ps = ret t"
    and e: "tree_entries ord t (fold (\<lambda>(k, v). upd_kv k v) ps [])"
    using bpt.insert_all_entries [OF tree_new_entries [OF assms], of ps]
    by (auto simp: tree_set_all_insert_all)
  let ?xs = "fold (\<lambda>(k, v). upd_kv k v) ps []"
  have m: "map_of ?xs = map_of (rev ps)" using bpt.map_of_fold_upd [of ps "[]"] by simp
  then have "set (map fst ?xs) = fst ` set ps"
    using dom_map_of_conv_image_fst [of ?xs] dom_map_of_conv_image_fst [of "rev ps"] by simp
  then show ?thesis
    using t m tree_iterate_entries [OF e] tree_entries_sorted [OF e] by blast
qed

theorem tree_sets_iterate_witness:
  "\<exists>t xs. tree_set_all 6 (tree_new (\<lambda>_. 0)) [(3, ''c''), (1 :: nat, ''a''), (3, ''d'')] = ret t \<and>
     tree_iterate t = ret xs \<and> sorted_wrt (<) (map fst xs) \<and>
     map_of xs = map_of [(3, ''d''), (1, ''a''), (3, ''c'')] \<and> set (map fst xs) = {1, 3}"
  using tree_sets_iterate [of 6 "[(3, ''c''), (1 :: nat, ''a''), (3, ''d'')]"]
  by (auto simp: size_max_def insert_commute)

text \<open>The tree after two \<open>set\<close>s, used as a concrete tree in good standing below.\<close>

definition sample_tree :: "(nat, nat) tree" where
  "sample_tree = \<lparr>t_heap =
     \<lparr>lnodes = [1 \<mapsto> \<lparr>ln_key = 5, ln_val = Leaf_ptr 0, ln_next = None\<rparr>],
      leaves = [0 \<mapsto> \<lparr>leaf_m_next = None, leaf_m_list = \<lparr>ll_root = [(5, 50), (7, 70)], ll_size = 2\<rparr>\<rparr>,
                2 \<mapsto> \<lparr>leaf_m_next = Some 0, leaf_m_list = \<lparr>ll_root = [], ll_size = 0\<rparr>\<rparr>],
      internals = [3 \<mapsto> \<lparr>int_m_lesser = Leaf_ptr 2, int_m_root = Some 1, int_m_size = 1\<rparr>],
      fresh = 4, garbage = (\<lambda>_. 0)\<rparr>, t_m_root = Some 3\<rparr>"

definition sample_gt :: "(nat, nat) gt" where
  "sample_gt = GNode 3 (GLeaf 2 []) (ECons 5 1 (GLeaf 0 [(5, 50), (7, 70)]) ENil)"

lemma sample_at: "tree_at 6 sample_tree sample_gt"
  by (auto simp: tree_at_def sample_tree_def sample_gt_def size_max_def alloc_ok_def good_def
      node_at_def tail_ok_def)

text \<open>
  C5. \<open>set\<close> keeps the B+ tree invariant: every node holds at most \<open>ORDER - 1\<close> entries, the
  children cover disjoint ascending key ranges, the leaves are chained in key order, the
  objects are distinct and allocated, and the content is the old one with the key updated.
\<close>

theorem tree_set_keeps_invariant:
  assumes "tree_at ord t g"
  shows "\<exists>t' g'. tree_set ord t key val = ret t' \<and> tree_at ord t' g' \<and>
           cont g' = upd_kv key val (cont g)"
  by (rule tree_set_step [OF assms])

theorem tree_set_keeps_invariant_witness:
  "\<exists>t' g'. tree_set 6 sample_tree 6 60 = ret t' \<and> tree_at 6 t' g' \<and>
     cont g' = [(5, 50), (6, 60), (7, 70)]"
  using tree_set_keeps_invariant [OF sample_at, of 6 60] by (simp add: sample_gt_def)

section \<open>\<open>delete_key\<close>\<close>

text \<open>
  C13. \<open>delete_key\<close> on a tree in good standing, when the leaf the search ends in is not empty
  and either keeps an entry or hangs at \<open>m_lesser\<close>: it returns, the tree stays in good
  standing and loses exactly this key. The answer is true iff the key was there and the leaf
  kept an entry: the last entry of an \<open>m_lesser\<close> leaf is deleted, yet the answer is false.
\<close>

theorem tree_delete_key_correct:
  assumes "tree_at ord t g" and "route g key True = (lesser, ys)" and "ys \<noteq> []"
    and "lesser \<or> del_kv key ys \<noteq> []"
  shows "\<exists>t' g'. tree_delete_key t key = ret (t', map_of (cont g) key \<noteq> None \<and> del_kv key ys \<noteq> []) \<and>
           tree_at ord t' g' \<and> map_of (cont g') = (map_of (cont g))(key := None)"
proof -
  have rg: "rng g None None" using assms(1) by (auto elim: tree_atE)
  have "map_of (cont g) key \<noteq> None \<longleftrightarrow> key \<in> fst ` set ys"
    using route_map_of [OF rg, of key True] assms(2) map_of_eq_None_iff [of ys key] by simp
  moreover obtain t' g' where "tree_delete_key t key = ret (t', del_found key ys)"
    "tree_at ord t' g'" "cont g' = del_kv key (cont g)"
    using tree_delete_ok [OF assms(1), of key] assms(2-4) by (auto simp: del_fine_def)
  ultimately show ?thesis
    using map_of_del_kv [OF cont_sorted(1) [OF rg], of key]
    by (intro exI [of _ t'] exI [of _ g']) (simp add: del_found_def)
qed

theorem tree_delete_key_correct_witness:
  "\<exists>t' g'. tree_delete_key sample_tree 5 = ret (t', True) \<and> tree_at 6 t' g' \<and>
     map_of (cont g') = [7 \<mapsto> 70]"
  using tree_delete_key_correct [OF sample_at, of 5 False "[(5, 50), (7, 70)]"]
  by (fastforce simp: sample_gt_def fun_eq_iff)




text \<open>The loop of \<open>delete_child\<close> does not end when the second key is another one.\<close>

lemma delete_child_loop_stuck:
  assumes "lnodes h a = Some ln" "ln_next ln = Some b" "lnodes h b = Some nx" "ln_key nx \<noteq> key"
  shows "delete_child_loop h a key = None"
proof -
  let ?P = "\<lambda>h' a' key' y. h' = h \<longrightarrow> a' = a \<longrightarrow> key' = key \<longrightarrow> False"
  have "?P h' a' key' y" if "delete_child_loop h' a' key' = Some y" for h' a' key' y
    by (rule delete_child_loop.raw_induct [where P = ?P, OF _ that])
      (use assms in \<open>auto simp: bindc_def deref_def, blast\<close>)
  then show ?thesis by (cases "delete_child_loop h a key") auto
qed

text \<open>
  C15. Deleting the last entry of a leaf below the root never returns when the leaf is not
  the root's \<open>m_lesser\<close> and the key is neither of the first two separators: the loop of
  \<open>delete_child\<close> compares the second list node for ever.
\<close>

theorem tree_delete_key_hangs:
  assumes t: "tree_at ord t (GNode r t0 (eapp es1 (ECons k a (GLeaf l [(key, v)]) es2)))"
    and key: "k \<le> key" "lt_hi key (first_key None es2)"
    and es: "eapp es1 (ECons k a (GLeaf l [(key, v)]) es2) = ECons k1 a1 t1 (ECons k2 a2 t2 es3)"
    and ne: "k1 \<noteq> key" "k2 \<noteq> key"
  shows "tree_delete_key t key = None"
proof -
  let ?es = "eapp es1 (ECons k a (GLeaf l [(key, v)]) es2)" and ?h = "t_heap t"
  from t have g: "good ?h None None (GNode r t0 ?es)" and al: "alloc_ok ?h" and root: "t_m_root t = Some r"
    by (auto simp: tree_at_def)
  obtain c where c: "node_at r c ?es ?h None" "ptr_ok t0 c" using g by (auto simp: good_GNode)
  have ch: "get_child_ge ?h r key = ret (Leaf_ptr l)"
    using get_child_ge_entry [of r t0 es1 k a "GLeaf l [(key, v)]" es2 ?h None key] g key
    by (auto simp: good_def)
  have gl: "good ?h (Some k) (first_key None es2) (GLeaf l [(key, v)])"
    using g by (auto simp: good_GNode good_e_eapp good_e_ECons)
  from leaf_del [OF gl al, of key] obtain h' where h': "child_delete_key ?h (Leaf_ptr l) key = ret (h', True)"
    "frame ?h h' {l}" "child_size h' (Leaf_ptr l) = ret 0"
    by (auto simp: size_max_def step_def)
  have d: "distinct (fp (GNode r t0 ?es))" using g by (simp add: good_def)
  then have "node_at r c ?es h' None"
    using eaddrs_hole [of es1 k a "GLeaf l [(key, v)]" es2]
    by (intro node_at_sub_frame [OF g c(1) h'(2)]) auto
  then obtain n c1 c2 nx where n: "internals h' r = Some n" "int_m_lesser n = c" "int_m_root n = Some a1"
    "lnodes h' a1 = Some \<lparr>ln_key = k1, ln_val = c1, ln_next = Some a2\<rparr>"
    "lnodes h' a2 = Some \<lparr>ln_key = k2, ln_val = c2, ln_next = nx\<rparr>"
    unfolding es by (auto simp: node_at_def)
  have "t0 \<noteq> GDead" using g by (auto simp: good_def)
  then have "c \<noteq> Leaf_ptr l" using c(2) d by (cases t0) auto
  moreover have "delete_child h' r key = None"
    using n ne delete_child_loop_stuck [OF n(4) _ n(5), of key] by (simp add: delete_child_def deref_def nonnull_def)
  ultimately have "child_delete_key ?h (Internal_ptr r) key = None"
    using ch h' n by (subst child_delete_key.simps) (simp add: deref_def)
  then show ?thesis by (simp add: tree_delete_key_def root)
qed

text \<open>A tree in good standing with two leaves under the root, the second with one entry.\<close>

definition sample_tree2 :: "(nat, nat) tree" where
  "sample_tree2 = \<lparr>t_heap =
     \<lparr>lnodes = [1 \<mapsto> \<lparr>ln_key = 1, ln_val = Leaf_ptr 0, ln_next = Some 5\<rparr>,
                5 \<mapsto> \<lparr>ln_key = 4, ln_val = Leaf_ptr 4, ln_next = None\<rparr>],
      leaves = [0 \<mapsto> \<lparr>leaf_m_next = Some 4, leaf_m_list = \<lparr>ll_root = [(1, 10), (2, 20)], ll_size = 2\<rparr>\<rparr>,
                2 \<mapsto> \<lparr>leaf_m_next = Some 0, leaf_m_list = \<lparr>ll_root = [], ll_size = 0\<rparr>\<rparr>,
                4 \<mapsto> \<lparr>leaf_m_next = None, leaf_m_list = \<lparr>ll_root = [(6, 60)], ll_size = 1\<rparr>\<rparr>],
      internals = [3 \<mapsto> \<lparr>int_m_lesser = Leaf_ptr 2, int_m_root = Some 1, int_m_size = 2\<rparr>],
      fresh = 6, garbage = (\<lambda>_. 0)\<rparr>, t_m_root = Some 3\<rparr>"

lemma sample_at2:
  "tree_at 6 sample_tree2 (GNode 3 (GLeaf 2 [])
     (eapp (ECons 1 1 (GLeaf 0 [(1, 10), (2, 20)]) ENil) (ECons 4 5 (GLeaf 4 [(6, 60)]) ENil)))"
  by (auto simp: tree_at_def sample_tree2_def size_max_def alloc_ok_def good_def
      node_at_def tail_ok_def)

theorem tree_delete_key_hangs_witness: "tree_delete_key sample_tree2 6 = None"
  by (rule tree_delete_key_hangs [OF sample_at2]) auto

section \<open>The uninitialised size\<close>

text \<open>
  C16. \<open>leaf_list\<close> does not initialise \<open>m_size\<close>. When the memory of the first leaf held 4 or
  more there, the second \<open>set\<close> with a larger key takes the leaf for over-full, splits it at
  an index behind its end and dereferences a null pointer (\<open>ORDER\<close> is 6, as in \<open>db_inner\<close>).
\<close>

theorem tree_set_uninitialised_size:
  assumes "4 \<le> g 0" and "g 0 + 2 < size_max" and "k < k'"
  shows "\<exists>t. tree_set 6 (tree_new g) k v = ret t \<and> tree_set 6 t k' v' = fail Null_Deref"
proof -
  let ?t = "\<lparr>t_heap =
     \<lparr>lnodes = [1 \<mapsto> \<lparr>ln_key = k, ln_val = Leaf_ptr 0, ln_next = None\<rparr>],
      leaves = [0 \<mapsto> \<lparr>leaf_m_next = None, leaf_m_list = \<lparr>ll_root = [(k, v)], ll_size = g 0 + 1\<rparr>\<rparr>,
                2 \<mapsto> \<lparr>leaf_m_next = Some 0, leaf_m_list = \<lparr>ll_root = [], ll_size = g 2\<rparr>\<rparr>],
      internals = [3 \<mapsto> \<lparr>int_m_lesser = Leaf_ptr 2, int_m_root = Some 1, int_m_size = 1\<rparr>],
      fresh = 4, garbage = g\<rparr>, t_m_root = Some 3\<rparr>"
  have inc: "sz_inc (g 0) = g 0 + 1" "sz_inc (g 0 + 1) = g 0 + 2" using assms by simp_all
  have t: "tree_set 6 (tree_new g) k v = ret ?t"
    using inc
    by (simp add: tree_set_def tree_new_def empty_heap_def new_leaf_kv_def new_leaf_def
        new_bpt_internal_def child_primary_key_def leaf_primary_key_def leaf_list_get_root_key_def
        leaf_list_set_def leaf_list_new_def new_lnode_def new_internal_def eval_nat_numeral)
  let ?l = "\<lparr>ll_root = [(k, v), (k', v')], ll_size = g 0 + 2\<rparr>"
  have set: "leaf_list_set k' v' \<lparr>ll_root = [(k, v)], ll_size = g 0 + 1\<rparr> = ?l"
    using assms(3) inc by (auto simp: leaf_list_set_def)
  have "2 \<le> (g 0 + 2) div 2 - 1" using assms(1) by linarith
  then have "leaf_list_split ?l = Inl Null_Deref"
    by (auto simp: leaf_list_split_def Let_def)
  then have "leaf_insert 6 (t_heap ?t) 0 k' v' = fail Null_Deref"
    using assms(1) by (simp add: leaf_insert_def set Let_def leaf_split_def del: One_nat_def)
  moreover have "get_child_ge (t_heap ?t) 3 k' = ret (Leaf_ptr 0)"
    using assms(3) by (simp add: get_child_ge_def int_primary_key_def deref_def nonnull_def
        get_child_ln_ge_def ln_ge.simps)
  ultimately have "int_set 6 (t_heap ?t) 3 k' v' = fail Null_Deref"
    by (subst int_set.simps) simp
  then have "tree_set 6 ?t k' v' = fail Null_Deref" by (simp add: tree_set_def)
  with t show ?thesis by blast
qed

theorem tree_set_uninitialised_size_witness:
  "\<exists>t. tree_set 6 (tree_new (\<lambda>_. 4)) (1 :: nat) ''a'' = ret t \<and>
     tree_set 6 t 2 ''b'' = fail Null_Deref"
  using tree_set_uninitialised_size [of "\<lambda>_. 4" "1 :: nat" 2 "''a''" "''b''"] by (simp add: size_max_def)

end
