(* ===== verification/Bigint.thy ===== *)
theory Bigint
  imports Prelude
begin

text \<open>
  The arbitrary-precision integers of \<open>bigint.h\<close>: a sign and a vector of base \<open>10 ^ 9\<close>
  digits, least significant first. Every intermediate result is converted to the width the
  code computes it in (\<open>i32\<close>, \<open>i64\<close>); loop indices are positions in lists, so vectors are
  taken to be shorter than \<open>2 ^ 31\<close>. Operations that index a vector or divide return a
  fault where the code has undefined behaviour.
\<close>

section \<open>Data\<close>

record bigint =
  big_a :: "int list"
  big_sign :: int

definition base :: int where "base = 1000000000"
definition base_digits :: nat where "base_digits = 9"

definition big_new :: bigint where
  "big_new = \<lparr>big_a = [], big_sign = 1\<rparr>"

text \<open>The loop of \<open>operator=(long long)\<close>.\<close>

function ll_digits :: "int \<Rightarrow> int list" where
  "ll_digits v = (if v > 0 then i32 (cmod v base) # ll_digits (cdiv v base) else [])"
  by auto
termination by (relation "measure nat") (auto simp: base_def)

definition big_of_ll :: "int \<Rightarrow> bigint" where
  "big_of_ll v =
     (if v < 0 then \<lparr>big_a = ll_digits (i64 (- v)), big_sign = -1\<rparr>
      else \<lparr>big_a = ll_digits v, big_sign = 1\<rparr>)"

definition trim_digits :: "int list \<Rightarrow> int list" where
  "trim_digits a = rev (dropWhile (\<lambda>d. d = 0) (rev a))"

definition big_trim :: "bigint \<Rightarrow> bigint" where
  "big_trim x =
     (let a = trim_digits (big_a x)
      in \<lparr>big_a = a, big_sign = (if a = [] then 1 else big_sign x)\<rparr>)"

definition isZero :: "bigint \<Rightarrow> bool" where
  "isZero x \<longleftrightarrow> big_a x = [] \<or> (length (big_a x) = 1 \<and> big_a x ! 0 = 0)"

definition big_neg :: "bigint \<Rightarrow> bigint" where
  "big_neg x = x\<lparr>big_sign := i32 (- big_sign x)\<rparr>"

definition big_abs :: "bigint \<Rightarrow> bigint" where
  "big_abs x = x\<lparr>big_sign := i32 (big_sign x * big_sign x)\<rparr>"

section \<open>Comparison\<close>

text \<open>The digits are compared from the most significant on; the lists have equal length.\<close>

fun digits_less :: "int \<Rightarrow> int list \<Rightarrow> int list \<Rightarrow> bool" where
  "digits_less s (x # xs) (y # ys) =
     (if x \<noteq> y then i32 (x * s) < i32 (y * s) else digits_less s xs ys)"
| "digits_less s _ _ = False"

text \<open>\<open>a.size() * sign\<close> is computed in \<open>size_t\<close>: the sign is converted to unsigned.\<close>

definition size_times :: "nat \<Rightarrow> int \<Rightarrow> int" where
  "size_times n s = (int n * s) mod 2 ^ 64"

definition big_less :: "bigint \<Rightarrow> bigint \<Rightarrow> bool" where
  "big_less x v =
     (if big_sign x \<noteq> big_sign v then big_sign x < big_sign v
      else if length (big_a x) \<noteq> length (big_a v)
      then size_times (length (big_a x)) (big_sign x) < size_times (length (big_a v)) (big_sign v)
      else digits_less (big_sign x) (rev (big_a x)) (rev (big_a v)))"

definition big_greater :: "bigint \<Rightarrow> bigint \<Rightarrow> bool" where
  "big_greater x v \<longleftrightarrow> big_less v x"

definition big_le :: "bigint \<Rightarrow> bigint \<Rightarrow> bool" where
  "big_le x v \<longleftrightarrow> \<not> big_less v x"

definition big_ge :: "bigint \<Rightarrow> bigint \<Rightarrow> bool" where
  "big_ge x v \<longleftrightarrow> \<not> big_less x v"

definition big_eq :: "bigint \<Rightarrow> bigint \<Rightarrow> bool" where
  "big_eq x v \<longleftrightarrow> \<not> big_less x v \<and> \<not> big_less v x"

definition big_neq :: "bigint \<Rightarrow> bigint \<Rightarrow> bool" where
  "big_neq x v \<longleftrightarrow> big_less x v \<or> big_less v x"

section \<open>Addition and subtraction\<close>

text \<open>
  One round of the addition loop: \<open>y\<close> is the digit of the result so far, \<open>x\<close> the other
  digit (0 behind its end), \<open>c\<close> the carry.
\<close>

definition digit_add :: "int \<Rightarrow> int \<Rightarrow> bool \<Rightarrow> int \<times> bool" where
  "digit_add x y c =
     (let s = i32 (y + i32 (of_bool c + x))
      in if base \<le> s then (i32 (s - base), True) else (s, False))"

text \<open>The last carry is one more digit, and it does not carry itself (1 is below the base).\<close>

fun add_loop :: "int list \<Rightarrow> int list \<Rightarrow> bool \<Rightarrow> int list" where
  "add_loop [] [] c = (if c then [fst (digit_add 0 0 c)] else [])"
| "add_loop (x # xs) [] c = (let (d, c') = digit_add x 0 c in d # add_loop xs [] c')"
| "add_loop [] (y # ys) c = (let (d, c') = digit_add 0 y c in d # add_loop [] ys c')"
| "add_loop (x # xs) (y # ys) c = (let (d, c') = digit_add x y c in d # add_loop xs ys c')"

definition add_same :: "bigint \<Rightarrow> bigint \<Rightarrow> bigint" where
  "add_same x v = v\<lparr>big_a := add_loop (big_a x) (big_a v) False\<rparr>"

definition digit_sub :: "int \<Rightarrow> int \<Rightarrow> bool \<Rightarrow> int \<times> bool" where
  "digit_sub x y c =
     (let s = i32 (x - i32 (of_bool c + y))
      in if s < 0 then (i32 (s + base), True) else (s, False))"

text \<open>The subtraction loop indexes the minuend without a bound check.\<close>

fun sub_loop :: "int list \<Rightarrow> int list \<Rightarrow> bool \<Rightarrow> int list res" where
  "sub_loop xs [] False = Inr xs"
| "sub_loop [] [] True = Inl Out_Of_Bounds"
| "sub_loop (x # xs) [] True =
     (let (d, c') = digit_sub x 0 True in bindr (sub_loop xs [] c') (\<lambda>ds. Inr (d # ds)))"
| "sub_loop [] (y # ys) c = Inl Out_Of_Bounds"
| "sub_loop (x # xs) (y # ys) c =
     (let (d, c') = digit_sub x y c in bindr (sub_loop xs ys c') (\<lambda>ds. Inr (d # ds)))"

definition sub_ge :: "bigint \<Rightarrow> bigint \<Rightarrow> bigint res" where
  "sub_ge x v =
     bindr (sub_loop (big_a x) (big_a v) False) (\<lambda>ds. Inr (big_trim (x\<lparr>big_a := ds\<rparr>)))"

text \<open>\<open>operator-\<close> for equal signs calls itself with the operands exchanged at most once.\<close>

lemma digits_less_asym: "digits_less s xs ys \<Longrightarrow> \<not> digits_less s ys xs"
  by (induction s xs ys rule: digits_less.induct) (auto split: if_splits)

lemma big_less_asym: "big_less x y \<Longrightarrow> \<not> big_less y x"
  by (auto simp: big_less_def digits_less_asym split: if_splits)

function sub_same :: "bigint \<Rightarrow> bigint \<Rightarrow> bigint res" where
  "sub_same x v =
     (if big_ge (big_abs x) (big_abs v) then sub_ge x v
      else bindr (sub_same v x) (\<lambda>r. Inr (big_neg r)))"
  by auto
termination
  by (relation "measure (\<lambda>(x, v). of_bool (big_less (big_abs x) (big_abs v)))")
    (auto simp: big_ge_def big_less_asym)

text \<open>
  A sign is 1 or -1, so when the signs differ the negated operand has the same sign as the
  other: \<open>operator+\<close> and \<open>operator-\<close> call each other at most once.
\<close>

definition big_add :: "bigint \<Rightarrow> bigint \<Rightarrow> bigint res" where
  "big_add x v =
     (if big_sign x = big_sign v then Inr (add_same x v) else sub_same x (big_neg v))"

definition big_sub :: "bigint \<Rightarrow> bigint \<Rightarrow> bigint res" where
  "big_sub x v =
     (if big_sign x = big_sign v then sub_same x v else Inr (add_same x (big_neg v)))"

section \<open>Multiplication and division by machine integers\<close>

text \<open>Behind the last digit the loop goes on while there is a carry.\<close>

function mul_tail :: "int \<Rightarrow> int \<Rightarrow> int list" where
  "mul_tail v carry =
     (if carry = 0 then []
      else let cur = i64 (i64 (0 * v) + carry)
           in i32 (cmod cur base) # mul_tail v (i32 (cdiv cur base)))"
  by auto
termination
proof (relation "measure (\<lambda>(v, c). nat \<bar>c\<bar>)")
  show "((v, i32 (cdiv x base)), (v, carry)) \<in> measure (\<lambda>(v, c). nat \<bar>c\<bar>)"
    if "carry \<noteq> 0" "x = i64 (i64 (0 * v) + carry)" for v carry x
  proof -
    have "\<bar>cdiv x base\<bar> < \<bar>carry\<bar>"
    proof (cases "x = 0")
      case True
      then show ?thesis using that(1) by (simp add: cdiv_def)
    next
      case False
      then show ?thesis
        using abs_cdiv_less [of base x] abs_i64_le [of carry] that(2) by (simp add: base_def)
    qed
    then show ?thesis using abs_i32_le [of "cdiv x base"] by simp
  qed
qed simp

fun mul_loop :: "int list \<Rightarrow> int \<Rightarrow> int \<Rightarrow> int list" where
  "mul_loop [] v carry = mul_tail v carry"
| "mul_loop (x # xs) v carry =
     (let cur = i64 (i64 (x * v) + carry)
      in i32 (cmod cur base) # mul_loop xs v (i32 (cdiv cur base)))"

definition big_mul_int :: "bigint \<Rightarrow> int \<Rightarrow> bigint" where
  "big_mul_int x v =
     (let s = (if v < 0 then i32 (- big_sign x) else big_sign x);
          w = (if v < 0 then i32 (- v) else v)
      in big_trim \<lparr>big_a = mul_loop (big_a x) w 0, big_sign = s\<rparr>)"

definition big_mul_ll :: "bigint \<Rightarrow> int \<Rightarrow> bigint" where
  "big_mul_ll x v =
     (let s = (if v < 0 then i32 (- big_sign x) else big_sign x);
          w = (if v < 0 then i64 (- v) else v)
      in big_trim \<lparr>big_a = mul_loop (big_a x) w 0, big_sign = s\<rparr>)"

text \<open>Digits from the most significant on.\<close>

fun div_loop :: "int list \<Rightarrow> int \<Rightarrow> int \<Rightarrow> int list res" where
  "div_loop [] v rem = Inr []"
| "div_loop (x # xs) v rem =
     (if v = 0 then Inl Div_By_Zero
      else let cur = i64 (x + i64 (rem * base))
           in bindr (div_loop xs v (i32 (cmod cur v))) (\<lambda>qs. Inr (i32 (cdiv cur v) # qs)))"

definition big_div_int :: "bigint \<Rightarrow> int \<Rightarrow> bigint res" where
  "big_div_int x v =
     (let s = (if v < 0 then i32 (- big_sign x) else big_sign x);
          w = (if v < 0 then i32 (- v) else v)
      in bindr (div_loop (rev (big_a x)) w 0) (\<lambda>qs.
           Inr (big_trim \<lparr>big_a = rev qs, big_sign = s\<rparr>)))"

fun mod_loop :: "int list \<Rightarrow> int \<Rightarrow> int \<Rightarrow> int res" where
  "mod_loop [] v m = Inr m"
| "mod_loop (x # xs) v m =
     (if v = 0 then Inl Div_By_Zero
      else mod_loop xs v (i32 (cmod (i64 (x + i64 (m * base))) v)))"

definition big_mod_int :: "bigint \<Rightarrow> int \<Rightarrow> int res" where
  "big_mod_int x v =
     (let w = (if v < 0 then i32 (- v) else v)
      in bindr (mod_loop (rev (big_a x)) w 0) (\<lambda>m. Inr (i32 (m * big_sign x))))"

definition longValue :: "bigint \<Rightarrow> int" where
  "longValue x =
     i64 (foldr (\<lambda>d r. i64 (i64 (r * base) + d)) (big_a x) 0 * big_sign x)"

section \<open>Division\<close>

text \<open>The loop that corrects an estimated quotient digit: it ends once \<open>r\<close> is not negative.\<close>

partial_function (option) fix_loop :: "bigint \<Rightarrow> bigint \<Rightarrow> int \<Rightarrow> (bigint \<times> int) comp" where
  "fix_loop b r d =
     (if big_less r (big_of_ll 0)
      then bindc (Some (big_add r b)) (\<lambda>r'. fix_loop b r' (i32 (d - 1)))
      else ret (r, d))"

declare fix_loop.simps [code]

text \<open>One round of the loop of \<open>divmod\<close>: the next remainder and the quotient digit.\<close>

definition divmod_step :: "bigint \<Rightarrow> bigint \<Rightarrow> int \<Rightarrow> (bigint \<times> int) comp" where
  "divmod_step b r ai =
     bindc (Some (big_add (big_mul_int r base) (big_of_ll ai))) (\<lambda>r1.
       (let n = length (big_a b);
            s1 = (if length (big_a r1) \<le> n then 0 else big_a r1 ! n);
            s2 = (if length (big_a r1) \<le> n - 1 then 0 else big_a r1 ! (n - 1))
        in if n = 0 then fail Out_Of_Bounds
           else if last (big_a b) = 0 then fail Div_By_Zero
           else (let d = i32 (cdiv (i64 (i64 (base * s1) + s2)) (last (big_a b)))
                 in bindc (Some (big_sub r1 (big_mul_int b d))) (\<lambda>r2. fix_loop b r2 d))))"

text \<open>The digits of the dividend from the most significant on; \<open>q\<close> holds the digits so far.\<close>

fun divmod_loop :: "bigint \<Rightarrow> int list \<Rightarrow> bigint \<Rightarrow> int list \<Rightarrow> (bigint \<times> int list) comp" where
  "divmod_loop b [] r q = ret (r, q)"
| "divmod_loop b (ai # as) r q =
     bindc (divmod_step b r ai) (\<lambda>(r', d). divmod_loop b as r' (d # q))"

definition divmod_big :: "bigint \<Rightarrow> bigint \<Rightarrow> (bigint \<times> bigint) comp" where
  "divmod_big a1 b1 =
     (if big_a b1 = [] then fail Out_Of_Bounds
      else if i32 (last (big_a b1) + 1) = 0 then fail Div_By_Zero
      else
        (let norm = i32 (cdiv base (i32 (last (big_a b1) + 1)));
             a = big_mul_int (big_abs a1) norm;
             b = big_mul_int (big_abs b1) norm
         in bindc (divmod_loop b (rev (big_a a)) big_new []) (\<lambda>(r, q).
              (let q' = big_trim \<lparr>big_a = q, big_sign = i32 (big_sign a1 * big_sign b1)\<rparr>;
                   r' = big_trim (r\<lparr>big_sign := big_sign a1\<rparr>)
               in bindc (Some (big_div_int r' norm)) (\<lambda>r''. ret (q', r''))))))"

definition big_div :: "bigint \<Rightarrow> bigint \<Rightarrow> bigint comp" where
  "big_div x v = bindc (divmod_big x v) (\<lambda>(q, r). ret q)"

definition big_mod :: "bigint \<Rightarrow> bigint \<Rightarrow> bigint comp" where
  "big_mod x v = bindc (divmod_big x v) (\<lambda>(q, r). ret r)"

partial_function (option) big_gcd :: "bigint \<Rightarrow> bigint \<Rightarrow> bigint comp" where
  "big_gcd a b = (if isZero b then ret a else bindc (big_mod a b) (\<lambda>r. big_gcd b r))"

declare big_gcd.simps [code]

end
