(* ===== verification/Bigint_Val.thy ===== *)
theory Bigint_Val
  imports Bigint
begin

text \<open>
  The value of a big integer and what the basic operations compute: comparison, addition,
  subtraction, multiplication and division by machine integers are exact on normalised
  numbers (digits in range, no leading zero, one representation of zero), and their
  results are normalised again.
\<close>

section \<open>Values\<close>

fun dval :: "int list \<Rightarrow> int" where
  "dval [] = 0"
| "dval (d # ds) = d + base * dval ds"

definition bval :: "bigint \<Rightarrow> int" where
  "bval x = big_sign x * dval (big_a x)"

definition digits_ok :: "int list \<Rightarrow> bool" where
  "digits_ok ds \<longleftrightarrow> (\<forall>d\<in>set ds. 0 \<le> d \<and> d < base)"

definition trimmed :: "int list \<Rightarrow> bool" where
  "trimmed ds \<longleftrightarrow> (ds = [] \<or> last ds \<noteq> 0)"

text \<open>Normalised up to the sign of zero, and normalised.\<close>

definition big_wf :: "bigint \<Rightarrow> bool" where
  "big_wf x \<longleftrightarrow> digits_ok (big_a x) \<and> trimmed (big_a x) \<and> (big_sign x = 1 \<or> big_sign x = -1)"

definition big_ok :: "bigint \<Rightarrow> bool" where
  "big_ok x \<longleftrightarrow> big_wf x \<and> (big_a x = [] \<longrightarrow> big_sign x = 1)"

lemma base_pos [simp]: "0 < base" "0 \<le> base" "1 < base" "1 \<le> base" "base \<noteq> 0"
  by (simp_all add: base_def)

lemma digits_ok_simps [simp]:
  "digits_ok []" "digits_ok (d # ds) \<longleftrightarrow> 0 \<le> d \<and> d < base \<and> digits_ok ds"
  "digits_ok (ds @ es) \<longleftrightarrow> digits_ok ds \<and> digits_ok es" "digits_ok (rev ds) \<longleftrightarrow> digits_ok ds"
  by (auto simp: digits_ok_def)

lemma trimmed_simps [simp]:
  "trimmed []" "trimmed (d # ds) \<longleftrightarrow> (if ds = [] then d \<noteq> 0 else trimmed ds)"
  by (auto simp: trimmed_def)

lemma dval_append: "dval (ds @ es) = dval ds + base ^ length ds * dval es"
  by (induction ds) (auto simp: algebra_simps)

lemma dval_nonneg [simp]: "digits_ok ds \<Longrightarrow> 0 \<le> dval ds"
  by (induction ds) auto

lemma dval_upper: "digits_ok ds \<Longrightarrow> dval ds < base ^ length ds"
proof (induction ds)
  case (Cons d ds)
  then have "base * (dval ds + 1) \<le> base * base ^ length ds" by simp
  with Cons.prems show ?case by (simp add: algebra_simps)
qed simp

lemma dval_lower:
  assumes "digits_ok ds" "ds \<noteq> []"
  shows "last ds * base ^ (length ds - 1) \<le> dval ds"
proof -
  have "ds = butlast ds @ [last ds]" using assms by simp
  moreover have "0 \<le> dval (butlast ds)"
    using assms by (intro dval_nonneg) (auto simp: digits_ok_def dest: in_set_butlastD)
  ultimately show ?thesis
    using dval_append [of "butlast ds" "[last ds]"] by (simp add: algebra_simps)
qed

lemma last_digit_range: "digits_ok ds \<Longrightarrow> ds \<noteq> [] \<Longrightarrow> 0 \<le> last ds \<and> last ds < base"
  using last_in_set [of ds] by (auto simp: digits_ok_def)

lemma dval_trimmed_lower:
  assumes "digits_ok ds" "trimmed ds" "ds \<noteq> []"
  shows "base ^ (length ds - 1) \<le> dval ds"
proof -
  have "1 \<le> last ds" using last_digit_range [OF assms(1,3)] assms(2,3) by (auto simp: trimmed_def)
  then have "base ^ (length ds - 1) \<le> last ds * base ^ (length ds - 1)" by simp
  with dval_lower [OF assms(1,3)] show ?thesis by linarith
qed

lemma dval_zero_iff: "digits_ok ds \<Longrightarrow> trimmed ds \<Longrightarrow> dval ds = 0 \<longleftrightarrow> ds = []"
proof (cases "ds = []")
  case False
  assume "digits_ok ds" "trimmed ds"
  with False have "base ^ (length ds - 1) \<le> dval ds" by (intro dval_trimmed_lower)
  moreover have "0 < base ^ (length ds - 1)" by simp
  ultimately show ?thesis using False by linarith
qed simp

lemma dval_pos: "digits_ok ds \<Longrightarrow> trimmed ds \<Longrightarrow> ds \<noteq> [] \<Longrightarrow> 0 < dval ds"
  using dval_zero_iff [of ds] dval_nonneg [of ds] by linarith

section \<open>Trimming, constructors\<close>

lemma trim_digits_dval [simp]: "dval (trim_digits a) = dval a"
proof (induction a rule: rev_induct)
  case (snoc d a)
  then show ?case by (cases "d = 0") (simp_all add: trim_digits_def dval_append)
qed (simp add: trim_digits_def)

lemma trim_digits_ok: "digits_ok a \<Longrightarrow> digits_ok (trim_digits a)"
  by (auto simp: trim_digits_def digits_ok_def dest: set_dropWhileD)

lemma trim_digits_trimmed: "trimmed (trim_digits a)"
  using hd_dropWhile [of "\<lambda>d. d = 0" "rev a"]
  by (auto simp: trim_digits_def trimmed_def last_rev)

lemma trim_digits_id: "trimmed a \<Longrightarrow> trim_digits a = a"
  by (cases a rule: rev_cases) (auto simp: trim_digits_def trimmed_def)

lemma big_trim_ok:
  "digits_ok (big_a x) \<Longrightarrow> big_sign x = 1 \<or> big_sign x = -1 \<Longrightarrow> big_ok (big_trim x)"
  by (simp add: big_ok_def big_wf_def big_trim_def Let_def trim_digits_ok trim_digits_trimmed)

lemma big_trim_val: "bval (big_trim x) = bval x"
proof (cases "trim_digits (big_a x) = []")
  case True
  then have "dval (big_a x) = 0" by (metis dval.simps(1) trim_digits_dval)
  with True show ?thesis by (simp add: bval_def big_trim_def)
qed (simp add: bval_def big_trim_def Let_def)

declare ll_digits.simps [simp del]

lemma ll_digits_val:
  "0 \<le> v \<Longrightarrow> dval (ll_digits v) = v \<and> digits_ok (ll_digits v) \<and> trimmed (ll_digits v)"
proof (induction v rule: ll_digits.induct)
  case (1 v)
  show ?case
  proof (cases "v > 0")
    case True
    have m: "i32 (cmod v base) = v mod base" using True by (simp add: base_def)
    have IH: "dval (ll_digits (v div base)) = v div base" "digits_ok (ll_digits (v div base))"
      "trimmed (ll_digits (v div base))"
      using 1 True by (auto simp: pos_imp_zdiv_nonneg_iff)
    have "v mod base \<noteq> 0" if "ll_digits (v div base) = []"
      using IH(1) that True by (metis dval.simps(1) mod_div_trivial mult_div_mod_eq mult_zero_right add_0 less_irrefl)
    then show ?thesis
      using True IH m by (subst (1 2 3) ll_digits.simps) (auto simp: base_def)
  next
    case False
    with 1 show ?thesis by (simp add: ll_digits.simps)
  qed
qed

lemma big_of_ll_val:
  assumes "- (2 ^ 63) < v" "v < 2 ^ 63"
  shows "bval (big_of_ll v) = v" "big_ok (big_of_ll v)"
proof -
  have "i64 (- v) = - v" using assms by simp
  then show "bval (big_of_ll v) = v" "big_ok (big_of_ll v)"
    using ll_digits_val [of v] ll_digits_val [of "- v"] dval_zero_iff [of "ll_digits (- v)"]
    by (auto simp: big_of_ll_def bval_def big_ok_def big_wf_def)
qed

lemma big_new_val [simp]: "bval big_new = 0" "big_ok big_new"
  by (simp_all add: big_new_def bval_def big_ok_def big_wf_def)

lemma big_wf_sign: "big_wf x \<Longrightarrow> big_sign x = 1 \<or> big_sign x = -1"
  by (simp add: big_wf_def)

lemma big_neg_wf: "big_wf x \<Longrightarrow> big_wf (big_neg x) \<and> bval (big_neg x) = - bval x \<and>
    big_sign (big_neg x) = - big_sign x \<and> big_a (big_neg x) = big_a x"
  by (auto simp: big_wf_def big_neg_def bval_def)

lemma big_abs_ok: "big_wf x \<Longrightarrow> big_ok (big_abs x) \<and> bval (big_abs x) = dval (big_a x) \<and>
    big_sign (big_abs x) = 1 \<and> big_a (big_abs x) = big_a x"
  by (auto simp: big_ok_def big_wf_def big_abs_def bval_def)

lemma big_ok_wf: "big_ok x \<Longrightarrow> big_wf x"
  by (simp add: big_ok_def)

lemma abs_bval: "big_wf x \<Longrightarrow> \<bar>bval x\<bar> = dval (big_a x)"
  by (auto simp: big_wf_def bval_def)

lemma isZero_iff: "big_wf x \<Longrightarrow> isZero x \<longleftrightarrow> bval x = 0"
  using dval_zero_iff [of "big_a x"]
  by (cases "big_a x") (auto simp: big_wf_def isZero_def bval_def)

section \<open>Comparison\<close>

lemma digits_less_val:
  assumes "length xs = length ys" "digits_ok xs" "digits_ok ys" "s = 1 \<or> s = -1"
  shows "digits_less s (rev xs) (rev ys) \<longleftrightarrow> s * dval xs < s * dval ys"
  using assms(1,2,3)
proof (induction xs arbitrary: ys rule: rev_induct)
  case (snoc x xs)
  then obtain y zs where ys: "ys = zs @ [y]" and len: "length xs = length zs"
    by (cases ys rule: rev_cases) auto
  have r: "0 \<le> x" "x < base" "0 \<le> y" "y < base" "digits_ok xs" "digits_ok zs"
    using snoc.prems by (auto simp: ys)
  have i: "i32 (x * s) = x * s" "i32 (y * s) = y * s" using r assms(4) by (auto simp: base_def)
  let ?B = "base ^ length zs"
  have up: "0 \<le> dval xs" "dval xs < ?B" "0 \<le> dval zs" "dval zs < ?B"
    using dval_upper [of xs] dval_upper [of zs] r len by auto
  have lt: "dval xs + ?B * a < dval zs + ?B * b" if "a < b" for a b :: int
  proof -
    have "?B * (a + 1) \<le> ?B * b" using that by (intro mult_left_mono) auto
    then show ?thesis using up by (simp add: algebra_simps)
  qed
  have gt: "dval zs + ?B * a < dval xs + ?B * b" if "a < b" for a b :: int
  proof -
    have "?B * (a + 1) \<le> ?B * b" using that by (intro mult_left_mono) auto
    then show ?thesis using up by (simp add: algebra_simps)
  qed
  show ?case
  proof (cases "x = y")
    case True
    then show ?thesis
      using snoc.IH [OF len r(5,6)] assms(4) by (auto simp: ys dval_append len)
  next
    case False
    then show ?thesis
      using lt [of x y] gt [of y x] lt [of y x] gt [of x y] assms(4) i
      by (cases "x < y") (auto simp: ys dval_append len)
  qed
qed simp

lemma dval_length_mono:
  assumes "digits_ok xs" "digits_ok ys" "trimmed ys" "length xs < length ys"
  shows "dval xs < dval ys"
proof -
  have "dval xs < base ^ length xs" by (rule dval_upper [OF assms(1)])
  also have "\<dots> \<le> base ^ (length ys - 1)" using assms(4) by (intro power_increasing) auto
  also have "\<dots> \<le> dval ys" using assms by (intro dval_trimmed_lower) auto
  finally show ?thesis .
qed

lemma size_times_less:
  assumes "s = 1 \<or> s = -1" "int m < 2 ^ 64" "int n < 2 ^ 64" "s = -1 \<longrightarrow> m \<noteq> 0 \<and> n \<noteq> 0"
  shows "size_times m s < size_times n s \<longleftrightarrow> s * int m < s * int n"
  using assms by (auto simp: size_times_def zmod_zminus1_eq_if)

text \<open>Sizes of vectors are below \<open>2 ^ 64\<close>.\<close>

definition fits :: "bigint \<Rightarrow> bool" where
  "fits x \<longleftrightarrow> int (length (big_a x)) < 2 ^ 64"

lemma big_less_val:
  assumes "big_ok x" "big_ok y" "fits x" "fits y"
  shows "big_less x y \<longleftrightarrow> bval x < bval y"
proof -
  have ok: "digits_ok (big_a x)" "trimmed (big_a x)" "digits_ok (big_a y)" "trimmed (big_a y)"
    and s: "big_sign x = 1 \<or> big_sign x = -1" "big_sign y = 1 \<or> big_sign y = -1"
    and z: "big_a x = [] \<longrightarrow> big_sign x = 1" "big_a y = [] \<longrightarrow> big_sign y = 1"
    using assms by (auto simp: big_ok_def big_wf_def)
  have nn: "big_a x \<noteq> [] \<longrightarrow> 0 < dval (big_a x)" "big_a y \<noteq> [] \<longrightarrow> 0 < dval (big_a y)"
    using ok by (auto intro: dval_pos)
  show ?thesis
  proof (cases "big_sign x = big_sign y")
    case False
    then show ?thesis
      using s z nn by (cases "big_a x = []"; cases "big_a y = []") (auto simp: big_less_def bval_def)
  next
    case eq: True
    show ?thesis
    proof (cases "length (big_a x) = length (big_a y)")
      case True
      with eq ok s show ?thesis
        using digits_less_val [of "big_a x" "big_a y" "big_sign x"] by (simp add: big_less_def bval_def)
    next
      case False
      have "size_times (length (big_a x)) (big_sign x) < size_times (length (big_a y)) (big_sign x) \<longleftrightarrow>
          big_sign x * int (length (big_a x)) < big_sign x * int (length (big_a y))"
        using s z eq assms by (intro size_times_less) (auto simp: fits_def)
      then show ?thesis
        using False eq s ok dval_length_mono [of "big_a x" "big_a y"] dval_length_mono [of "big_a y" "big_a x"]
        by (auto simp: big_less_def bval_def)
    qed
  qed
qed

section \<open>Addition and subtraction\<close>

lemma digit_add_val:
  assumes "0 \<le> x" "x < base" "0 \<le> y" "y < base" "digit_add x y c = (d, c')"
  shows "d + base * of_bool c' = x + y + of_bool c" "0 \<le> d" "d < base"
proof -
  have "i32 (y + i32 (of_bool c + x)) = x + y + of_bool c" using assms by (auto simp: base_def)
  moreover have "i32 (x + y + of_bool c - base) = x + y + of_bool c - base"
    using assms by (auto simp: base_def)
  ultimately show "d + base * of_bool c' = x + y + of_bool c" "0 \<le> d" "d < base"
    using assms by (auto simp: digit_add_def Let_def split: if_splits)
qed

lemma add_loop_val:
  "digits_ok xs \<Longrightarrow> digits_ok ys \<Longrightarrow>
     dval (add_loop xs ys c) = dval xs + dval ys + of_bool c \<and> digits_ok (add_loop xs ys c)"
proof (induction xs ys c rule: add_loop.induct)
  case (1 c)
  then show ?case using digit_add_val [of 0 0 c] by (auto simp: digit_add_def base_def)
next
  case (2 x xs c)
  obtain d c' where d: "digit_add x 0 c = (d, c')" by force
  then show ?case using 2 digit_add_val [OF _ _ _ _ d] by (auto simp: algebra_simps)
next
  case (3 y ys c)
  obtain d c' where d: "digit_add 0 y c = (d, c')" by force
  then show ?case using 3 digit_add_val [OF _ _ _ _ d] by (auto simp: algebra_simps)
next
  case (4 x xs y ys c)
  obtain d c' where d: "digit_add x y c = (d, c')" by force
  then show ?case using 4 digit_add_val [OF _ _ _ _ d] by (auto simp: algebra_simps)
qed

lemma add_loop_Nil: "add_loop xs ys c = [] \<longleftrightarrow> xs = [] \<and> ys = [] \<and> \<not> c"
  by (cases xs; cases ys) (auto split: prod.splits)

lemma digit_add_last [simp]: "digit_add 0 0 True = (1, False)"
  by (simp add: digit_add_def base_def)

lemma digit_add_nonzero:
  "0 \<le> x \<Longrightarrow> x < base \<Longrightarrow> 0 \<le> y \<Longrightarrow> y < base \<Longrightarrow> digit_add x y c = (d, False) \<Longrightarrow> x \<noteq> 0 \<or> y \<noteq> 0 \<Longrightarrow> d \<noteq> 0"
  using digit_add_val(1) [of x y c d False] by (cases c) auto

lemma add_loop_last:
  "digits_ok xs \<Longrightarrow> digits_ok ys \<Longrightarrow> trimmed xs \<Longrightarrow> trimmed ys \<Longrightarrow> trimmed (add_loop xs ys c)"
proof (induction xs ys c rule: add_loop.induct)
  case (1 c)
  then show ?case by (simp add: digit_add_def base_def)
next
  case (2 x xs c)
  obtain d c' where d: "digit_add x 0 c = (d, c')" by force
  then show ?case
    using 2 digit_add_nonzero [of x 0 c d] by (auto simp: add_loop_Nil split: if_splits)
next
  case (3 y ys c)
  obtain d c' where d: "digit_add 0 y c = (d, c')" by force
  then show ?case
    using 3 digit_add_nonzero [of 0 y c d] by (auto simp: add_loop_Nil split: if_splits)
next
  case (4 x xs y ys c)
  obtain d c' where d: "digit_add x y c = (d, c')" by force
  then show ?case
    using 4 digit_add_nonzero [of x y c d] by (auto simp: add_loop_Nil split: if_splits)
qed

lemma add_same_ok:
  assumes "big_ok x" "big_wf y" "big_sign x = big_sign y"
  shows "bval (add_same x y) = bval x + bval y" "big_ok (add_same x y)"
proof -
  let ?a = "add_loop (big_a x) (big_a y) False"
  have ok: "digits_ok (big_a x)" "trimmed (big_a x)" "digits_ok (big_a y)" "trimmed (big_a y)"
    using assms by (auto simp: big_ok_def big_wf_def)
  have v: "dval ?a = dval (big_a x) + dval (big_a y)" "digits_ok ?a" "trimmed ?a"
    using add_loop_val [OF ok(1,3), of False] add_loop_last [OF ok(1,3,2,4)] by auto
  show "bval (add_same x y) = bval x + bval y"
    using v assms(3) by (simp add: add_same_def bval_def algebra_simps)
  have "big_a x = []" if "?a = []"
    using v(1) ok that dval_pos [of "big_a x"] dval_nonneg [OF ok(3)] by force
  then show "big_ok (add_same x y)"
    using v assms by (auto simp: add_same_def big_ok_def big_wf_def)
qed

lemma digit_sub_val:
  assumes "0 \<le> x" "x < base" "0 \<le> y" "y < base" "digit_sub x y c = (d, c')"
  shows "d - base * of_bool c' = x - y - of_bool c" "0 \<le> d" "d < base"
proof -
  have "i32 (x - i32 (of_bool c + y)) = x - y - of_bool c" using assms by (auto simp: base_def)
  moreover have "i32 (x - y - of_bool c + base) = x - y - of_bool c + base" if "x - y - of_bool c < 0"
    using assms that by (auto simp: base_def)
  ultimately show "d - base * of_bool c' = x - y - of_bool c" "0 \<le> d" "d < base"
    using assms by (auto simp: digit_sub_def Let_def split: if_splits)
qed

lemma sub_loop_val:
  "digits_ok xs \<Longrightarrow> digits_ok ys \<Longrightarrow> trimmed ys \<Longrightarrow> dval ys + of_bool c \<le> dval xs \<Longrightarrow>
     \<exists>ds. sub_loop xs ys c = Inr ds \<and> dval ds = dval xs - dval ys - of_bool c \<and> digits_ok ds"
proof (induction xs ys c rule: sub_loop.induct)
  case (3 x xs)
  obtain d c' where d: "digit_sub x 0 True = (d, c')" by force
  note v = digit_sub_val [OF _ _ _ _ d]
  have "base * of_bool c' \<le> base * dval xs + (base - 1)" using 3 v by auto
  then have "of_bool c' \<le> dval xs" using 3 by (cases c') (auto simp: base_def)
  then obtain ds where ds: "sub_loop xs [] c' = Inr ds" "dval ds = dval xs - of_bool c'" "digits_ok ds"
    using 3 d by (auto, blast)
  have "base * dval ds = base * dval xs - base * of_bool c'" by (simp add: ds(2) algebra_simps)
  then show ?case using ds 3 d v by auto
next
  case (4 y ys c)
  then have "0 < dval (y # ys)" by (intro dval_pos) auto
  with 4 show ?case by (cases c) auto
next
  case (5 x xs y ys c)
  obtain d c' where d: "digit_sub x y c = (d, c')" by force
  note v = digit_sub_val [OF _ _ _ _ d]
  have e: "base * (dval ys + of_bool c' - dval xs) \<le> d" using 5 v by (auto simp: algebra_simps)
  have "dval ys + of_bool c' \<le> dval xs"
  proof (rule ccontr)
    assume "\<not> dval ys + of_bool c' \<le> dval xs"
    then have "base * 1 \<le> base * (dval ys + of_bool c' - dval xs)" by (intro mult_left_mono) auto
    with e v(3) 5 show False by auto
  qed
  moreover have "trimmed ys" using 5 by (auto split: if_splits)
  ultimately obtain ds where ds: "sub_loop xs ys c' = Inr ds"
    "dval ds = dval xs - dval ys - of_bool c'" "digits_ok ds"
    using 5 d by (auto, blast)
  have "base * dval ds = base * dval xs - base * dval ys - base * of_bool c'"
    by (simp add: ds(2) algebra_simps)
  then show ?case using ds 5 d v by auto
qed auto

lemma sub_ge_ok:
  assumes "big_wf x" "big_wf y" "big_sign x = big_sign y" "dval (big_a y) \<le> dval (big_a x)"
  shows "\<exists>r. sub_ge x y = Inr r \<and> bval r = bval x - bval y \<and> big_ok r"
proof -
  have "\<exists>ds. sub_loop (big_a x) (big_a y) False = Inr ds \<and>
      dval ds = dval (big_a x) - dval (big_a y) - of_bool False \<and> digits_ok ds"
    using assms by (intro sub_loop_val) (auto simp: big_wf_def)
  then obtain ds where ds: "sub_loop (big_a x) (big_a y) False = Inr ds"
    "dval ds = dval (big_a x) - dval (big_a y)" "digits_ok ds" by auto
  let ?r = "x\<lparr>big_a := ds\<rparr>"
  have "big_ok (big_trim ?r)" using ds assms by (intro big_trim_ok) (auto simp: big_wf_def)
  moreover have "bval (big_trim ?r) = bval x - bval y"
    by (simp add: big_trim_val) (simp add: bval_def assms(3) ds(2) right_diff_distrib)
  ultimately show ?thesis using ds(1) by (simp add: sub_ge_def)
qed

declare sub_same.simps [simp del]

lemma abs_ge_val:
  assumes "big_wf x" "big_wf y" "fits x" "fits y"
  shows "big_ge (big_abs x) (big_abs y) \<longleftrightarrow> dval (big_a y) \<le> dval (big_a x)"
proof -
  have f: "fits (big_abs x)" "fits (big_abs y)" using assms by (simp_all add: fits_def big_abs_ok)
  have "big_less (big_abs x) (big_abs y) \<longleftrightarrow> bval (big_abs x) < bval (big_abs y)"
    using assms f by (intro big_less_val) (auto simp: big_abs_ok)
  then show ?thesis using assms by (auto simp: big_ge_def big_abs_ok)
qed

lemma sub_same_ok:
  assumes "big_wf x" "big_wf y" "big_sign x = big_sign y" "fits x" "fits y"
  shows "\<exists>r. sub_same x y = Inr r \<and> bval r = bval x - bval y \<and> big_ok r"
proof (cases "dval (big_a y) \<le> dval (big_a x)")
  case True
  then have "sub_same x y = sub_ge x y" using assms by (subst sub_same.simps) (simp add: abs_ge_val)
  with sub_ge_ok [OF assms(1-3) True] show ?thesis by simp
next
  case False
  then have le: "dval (big_a x) \<le> dval (big_a y)" by simp
  obtain r where r: "sub_ge y x = Inr r" "bval r = bval y - bval x" "big_ok r"
    using sub_ge_ok [OF assms(2,1) assms(3) [symmetric] le] by blast
  have "sub_same y x = sub_ge y x" using assms le by (subst sub_same.simps) (simp add: abs_ge_val)
  then have "sub_same x y = Inr (big_neg r)"
    using assms False r(1) by (subst sub_same.simps) (simp add: abs_ge_val)
  moreover have "bval r \<noteq> 0" using False r(2) assms by (auto simp: bval_def big_wf_def)
  then have "big_a r \<noteq> []" by (auto simp: bval_def)
  then have "big_ok (big_neg r)" "bval (big_neg r) = - bval r"
    using r(3) big_neg_wf [of r] by (auto simp: big_ok_def)
  ultimately show ?thesis using r(2) by simp
qed

lemma big_add_ok:
  assumes "big_ok x" "big_ok y" "fits x" "fits y"
  shows "\<exists>r. big_add x y = Inr r \<and> bval r = bval x + bval y \<and> big_ok r"
proof (cases "big_sign x = big_sign y")
  case True
  with assms add_same_ok [of x y] show ?thesis by (simp add: big_add_def big_ok_wf)
next
  case False
  have n: "big_wf (big_neg y)" "bval (big_neg y) = - bval y" "big_sign (big_neg y) = big_sign x"
    "fits (big_neg y)"
    using big_neg_wf [OF big_ok_wf [OF assms(2)]] assms False
    by (auto simp: fits_def big_ok_def big_wf_def)
  with sub_same_ok [of x "big_neg y"] assms False show ?thesis
    by (simp add: big_add_def big_ok_wf)
qed

lemma big_sub_ok:
  assumes "big_ok x" "big_ok y" "fits x" "fits y"
  shows "\<exists>r. big_sub x y = Inr r \<and> bval r = bval x - bval y \<and> big_ok r"
proof (cases "big_sign x = big_sign y")
  case True
  with assms sub_same_ok [of x y] show ?thesis by (simp add: big_sub_def big_ok_wf)
next
  case False
  have n: "big_wf (big_neg y)" "bval (big_neg y) = - bval y" "big_sign (big_neg y) = big_sign x"
    using big_neg_wf [OF big_ok_wf [OF assms(2)]] assms False
    by (auto simp: big_ok_def big_wf_def)
  with add_same_ok [of x "big_neg y"] assms False show ?thesis
    by (simp add: big_sub_def)
qed

text \<open>A normalised number is as short as its value allows.\<close>

lemma length_le_val:
  assumes "big_wf x" "\<bar>bval x\<bar> < base ^ n"
  shows "length (big_a x) \<le> n"
proof (rule ccontr)
  assume "\<not> length (big_a x) \<le> n"
  then have "base ^ n \<le> base ^ (length (big_a x) - 1)" by (intro power_increasing) auto
  also have "\<dots> \<le> dval (big_a x)"
    using assms(1) \<open>\<not> length (big_a x) \<le> n\<close> by (intro dval_trimmed_lower) (auto simp: big_wf_def)
  finally show False using assms abs_bval [of x] by linarith
qed

lemma fits_le: "big_wf x \<Longrightarrow> \<bar>bval x\<bar> < base ^ n \<Longrightarrow> int n < 2 ^ 64 \<Longrightarrow> fits x"
  using length_le_val [of x n] by (simp add: fits_def)

end
