(* ===== verification/Bigint_Mach.thy ===== *)
theory Bigint_Mach
  imports Bigint_Val
begin

text \<open>
  Products, quotients and remainders of big integers with machine integers, and the
  conversion back to \<open>long long\<close>.
\<close>

section \<open>Products\<close>

declare mul_tail.simps [simp del]

lemma mul_tail_val:
  "0 \<le> c \<Longrightarrow> c < 2 ^ 31 \<Longrightarrow> dval (mul_tail v c) = c \<and> digits_ok (mul_tail v c)"
proof (induction v c rule: mul_tail.induct)
  case (1 v c)
  show ?case
  proof (cases "c = 0")
    case False
    have cur: "i64 (i64 (0 * v) + c) = c" using 1 by simp
    have "c div base \<le> c" using 1 by (simp add: int_div_le_self base_def)
    then have d: "i32 (cdiv c base) = c div base" "i32 (cmod c base) = c mod base" "0 \<le> c div base"
      "c div base < 2 ^ 31"
      using 1 by (auto simp: base_def)
    have "dval (mul_tail v (c div base)) = c div base \<and> digits_ok (mul_tail v (c div base))"
      using 1(1) [OF False cur [symmetric]] d by simp
    then show ?thesis using False cur d by (subst (1 2) mul_tail.simps) (auto simp: Let_def)
  qed (simp add: mul_tail.simps)
qed

lemma mul_carry_le:
  assumes "0 \<le> x" "x < base" "0 \<le> c" "c \<le> v"
  shows "(x * v + c) div base \<le> v" "0 \<le> x * v + c" "x * v + c \<le> base * v"
proof -
  have "x * v \<le> (base - 1) * v" using assms by (intro mult_right_mono) auto
  then show le: "x * v + c \<le> base * v" using assms by (simp add: algebra_simps)
  show "0 \<le> x * v + c" using assms by simp
  have "(x * v + c) div base \<le> (base * v) div base" using le by (intro zdiv_mono1) auto
  then show "(x * v + c) div base \<le> v" by simp
qed

lemma mul_loop_val:
  "digits_ok xs \<Longrightarrow> 0 \<le> v \<Longrightarrow> v < 2 ^ 31 \<Longrightarrow> 0 \<le> c \<Longrightarrow> c \<le> v \<Longrightarrow>
     dval (mul_loop xs v c) = dval xs * v + c \<and> digits_ok (mul_loop xs v c)"
proof (induction xs arbitrary: c)
  case Nil
  then show ?case using mul_tail_val [of c v] by simp
next
  case (Cons x xs)
  note b = mul_carry_le [of x c v]
  have r: "0 \<le> x" "x < base" "digits_ok xs" using Cons.prems by auto
  have lim: "base * v < 2 ^ 63" using Cons.prems by (simp add: base_def)
  have "x * v \<le> base * v" using r Cons.prems by (intro mult_right_mono) auto
  moreover have "0 \<le> x * v" using r Cons.prems by simp
  ultimately have "i64 (x * v) = x * v" using lim by (intro i64_id) linarith+
  moreover have "i64 (x * v + c) = x * v + c"
    using b r Cons.prems lim by (intro i64_id) linarith+
  ultimately have cur: "i64 (i64 (x * v) + c) = x * v + c" by simp
  let ?c = "(x * v + c) div base"
  have c: "0 \<le> ?c" "?c \<le> v" using b r Cons.prems by (auto simp: pos_imp_zdiv_nonneg_iff)
  have "(x * v + c) mod base < base" "base < 2 ^ 31" by (simp_all, simp add: base_def)
  then have m: "(x * v + c) mod base < 2 ^ 31" by linarith
  have i: "i32 (cdiv (x * v + c) base) = ?c" "i32 (cmod (x * v + c) base) = (x * v + c) mod base"
    using b r c m Cons.prems by auto
  have "dval (mul_loop xs v ?c) = dval xs * v + ?c \<and> digits_ok (mul_loop xs v ?c)"
    using Cons.IH [OF r(3) _ _ c] Cons.prems by auto
  moreover have "(x * v + c) mod base + base * ?c = x * v + c" by simp
  ultimately show ?case using cur i by (auto simp: Let_def algebra_simps)
qed

lemma big_mul_int_ok:
  assumes "big_wf x" "\<bar>v\<bar> < 2 ^ 31"
  shows "bval (big_mul_int x v) = bval x * v" "big_ok (big_mul_int x v)"
proof -
  have v: "i32 (- v) = - v" using assms by simp
  let ?w = "if v < 0 then i32 (- v) else v"
  have w: "?w = \<bar>v\<bar>" using v by auto
  have l: "dval (mul_loop (big_a x) \<bar>v\<bar> 0) = dval (big_a x) * \<bar>v\<bar> \<and> digits_ok (mul_loop (big_a x) \<bar>v\<bar> 0)"
    using mul_loop_val [of "big_a x" "\<bar>v\<bar>" 0] assms by (simp add: big_wf_def)
  have s: "i32 (- big_sign x) = - big_sign x" "big_sign x = 1 \<or> big_sign x = -1"
    using assms by (auto simp: big_wf_def)
  show "bval (big_mul_int x v) = bval x * v"
    unfolding big_mul_int_def Let_def w big_trim_val using l s by (auto simp: bval_def)
  show "big_ok (big_mul_int x v)"
    unfolding big_mul_int_def Let_def w using l s by (intro big_trim_ok) auto
qed

section \<open>Quotients and remainders\<close>

lemma div_step:
  fixes v rem x B W :: int
  assumes "0 < v"
  shows "((rem * base + x) * B + W) div v =
      ((rem * base + x) div v) * B + (((rem * base + x) mod v) * B + W) div v"
    and "((rem * base + x) * B + W) mod v = (((rem * base + x) mod v) * B + W) mod v"
proof -
  let ?c = "rem * base + x"
  have "?c * B + W = (?c mod v * B + W) + v * (?c div v * B)"
    using mult_div_mod_eq [of v ?c] by (metis add.assoc add.commute distrib_right mult.assoc)
  then have e: "?c * B + W = (?c mod v * B + W) + v * (?c div v * B)" .
  show "(?c * B + W) div v = (?c div v) * B + (?c mod v * B + W) div v"
    unfolding e using assms div_mult_self2 [of v "?c mod v * B + W" "?c div v * B"] by linarith
  show "(?c * B + W) mod v = (?c mod v * B + W) mod v"
    unfolding e by (rule mod_mult_self2)
qed

lemma cur_range:
  assumes "0 \<le> x" "x < base" "0 \<le> r" "r < v" "v < 2 ^ 31"
  shows "i64 (x + i64 (r * base)) = r * base + x" "0 \<le> r * base + x"
    "i32 (cdiv (r * base + x) v) = (r * base + x) div v" "(r * base + x) div v < base"
    "i32 (cmod (r * base + x) v) = (r * base + x) mod v"
proof -
  have rb: "0 \<le> r * base" "r * base \<le> (v - 1) * base" using assms by auto
  then have lt: "r * base + x < v * base" using assms by (simp add: algebra_simps)
  have "v * base < 2 ^ 63" using assms by (simp add: base_def)
  then have "i64 (r * base) = r * base" "i64 (x + r * base) = r * base + x"
    using rb lt assms i64_id [of "r * base"] i64_id [of "x + r * base"] by linarith+
  then show "i64 (x + i64 (r * base)) = r * base + x" "0 \<le> r * base + x" using rb assms by simp_all
  have "(r * base + x) div v * v \<le> r * base + x"
    using div_mult_mod_eq [of "r * base + x" v] pos_mod_sign [of v "r * base + x"] assms by linarith
  then have "(r * base + x) div v * v < base * v" using lt by (simp add: mult.commute)
  then show d: "(r * base + x) div v < base" using assms by (simp add: mult_less_cancel_right)
  have "0 \<le> (r * base + x) div v" using rb assms by (simp add: pos_imp_zdiv_nonneg_iff)
  moreover have "base < 2 ^ 31" by (simp add: base_def)
  ultimately show "i32 (cdiv (r * base + x) v) = (r * base + x) div v"
    using d rb assms by simp
  have "(r * base + x) mod v < v" "0 \<le> (r * base + x) mod v" using assms by auto
  then have "i32 ((r * base + x) mod v) = (r * base + x) mod v" using assms by (intro i32_nonneg) linarith+
  then show "i32 (cmod (r * base + x) v) = (r * base + x) mod v"
    using assms rb by simp
qed

lemma div_loop_val:
  "digits_ok xs \<Longrightarrow> 0 < v \<Longrightarrow> v < 2 ^ 31 \<Longrightarrow> 0 \<le> r \<Longrightarrow> r < v \<Longrightarrow>
     \<exists>qs. div_loop xs v r = Inr qs \<and> digits_ok qs \<and> length qs = length xs \<and>
       dval (rev qs) = (r * base ^ length xs + dval (rev xs)) div v"
proof (induction xs arbitrary: r)
  case (Cons x xs)
  let ?c = "r * base + x"
  have x: "0 \<le> x" "x < base" "digits_ok xs" using Cons.prems by auto
  note c = cur_range [OF x(1,2) Cons.prems(4,5,3)]
  obtain qs where qs: "div_loop xs v (?c mod v) = Inr qs" "digits_ok qs" "length qs = length xs"
    "dval (rev qs) = ((?c mod v) * base ^ length xs + dval (rev xs)) div v"
    using Cons.IH [of "?c mod v"] x Cons.prems by auto
  have "r * base ^ length (x # xs) + dval (rev (x # xs)) = ?c * base ^ length xs + dval (rev xs)"
    by (simp add: dval_append algebra_simps)
  then have "dval (rev ((?c div v) # qs)) = (r * base ^ length (x # xs) + dval (rev (x # xs))) div v"
    using div_step(1) [OF Cons.prems(2), of r x "base ^ length xs" "dval (rev xs)"] qs(3,4)
    by (simp add: dval_append algebra_simps)
  moreover have "0 \<le> ?c div v" using c Cons.prems by (simp add: pos_imp_zdiv_nonneg_iff)
  ultimately show ?case using qs c Cons.prems by (simp add: Let_def)
qed simp

lemma mod_loop_val:
  "digits_ok xs \<Longrightarrow> 0 < v \<Longrightarrow> v < 2 ^ 31 \<Longrightarrow> 0 \<le> r \<Longrightarrow> r < v \<Longrightarrow>
     mod_loop xs v r = Inr ((r * base ^ length xs + dval (rev xs)) mod v)"
proof (induction xs arbitrary: r)
  case (Cons x xs)
  let ?c = "r * base + x"
  have x: "0 \<le> x" "x < base" "digits_ok xs" using Cons.prems by auto
  note c = cur_range [OF x(1,2) Cons.prems(4,5,3)]
  have "r * base ^ length (x # xs) + dval (rev (x # xs)) = ?c * base ^ length xs + dval (rev xs)"
    by (simp add: dval_append algebra_simps)
  moreover have "mod_loop xs v (?c mod v) = Inr (((?c mod v) * base ^ length xs + dval (rev xs)) mod v)"
    using Cons.IH [of "?c mod v"] x Cons.prems by auto
  ultimately show ?case
    using div_step(2) [OF Cons.prems(2), of r x "base ^ length xs" "dval (rev xs)"] c Cons.prems by simp
qed simp

lemma big_div_int_ok:
  assumes "big_wf x" "v \<noteq> 0" "\<bar>v\<bar> < 2 ^ 31"
  shows "\<exists>q. big_div_int x v = Inr q \<and> bval q = cdiv (bval x) v \<and> big_ok q"
proof -
  have w: "(if v < 0 then i32 (- v) else v) = \<bar>v\<bar>" using assms by auto
  have s: "i32 (- big_sign x) = - big_sign x" "big_sign x = 1 \<or> big_sign x = -1"
    and ok: "digits_ok (rev (big_a x))" using assms by (auto simp: big_wf_def)
  obtain qs where qs: "div_loop (rev (big_a x)) \<bar>v\<bar> 0 = Inr qs" "digits_ok qs"
    "dval (rev qs) = dval (big_a x) div \<bar>v\<bar>"
    using div_loop_val [OF ok, of "\<bar>v\<bar>" 0] assms by auto
  let ?s = "if v < 0 then i32 (- big_sign x) else big_sign x"
  let ?q = "big_trim \<lparr>big_a = rev qs, big_sign = ?s\<rparr>"
  have "big_div_int x v = Inr ?q" unfolding big_div_int_def Let_def w using qs(1) by simp
  moreover have "big_ok ?q" using qs s by (intro big_trim_ok) auto
  moreover have "bval ?q = cdiv (bval x) v"
    unfolding big_trim_val using qs s assms abs_bval [OF assms(1)]
    by (cases "dval (big_a x) = 0") (auto simp: cdiv_def bval_def sgn_mult abs_mult sgn_if)
  ultimately show ?thesis by blast
qed

lemma big_mod_int_ok:
  assumes "big_wf x" "v \<noteq> 0" "\<bar>v\<bar> < 2 ^ 31"
  shows "big_mod_int x v = Inr (cmod (bval x) v)"
proof -
  have w: "(if v < 0 then i32 (- v) else v) = \<bar>v\<bar>" using assms by auto
  have s: "big_sign x = 1 \<or> big_sign x = -1" and ok: "digits_ok (rev (big_a x))"
    using assms by (auto simp: big_wf_def)
  let ?m = "dval (big_a x) mod \<bar>v\<bar>"
  have "mod_loop (rev (big_a x)) \<bar>v\<bar> 0 = Inr ?m"
    using mod_loop_val [OF ok, of "\<bar>v\<bar>" 0] assms by simp
  moreover have "0 \<le> ?m" "?m < \<bar>v\<bar>" using assms by auto
  then have "i32 (?m * big_sign x) = ?m * big_sign x" using s assms(3) by (intro i32_id) auto
  moreover have "?m * big_sign x = cmod (bval x) v"
  proof -
    have nn: "0 \<le> dval (big_a x)" using ok by simp
    have "dval (big_a x) - dval (big_a x) div \<bar>v\<bar> * \<bar>v\<bar> = ?m" by (simp add: minus_div_mult_eq_mod)
    then show ?thesis
      using s nn by (cases "dval (big_a x) = 0"; cases "v < 0")
        (auto simp: cmod_def cdiv_def bval_def sgn_if abs_mult)
  qed
  ultimately show ?thesis unfolding big_mod_int_def Let_def w by simp
qed

section \<open>Back to \<open>long long\<close>\<close>

lemma i64_cong: "i64 x mod 2 ^ 64 = x mod 2 ^ 64"
  by (simp add: i64_def mod_diff_left_eq mod_simps)

lemma i64_eqI: "x mod 2 ^ 64 = y mod 2 ^ 64 \<Longrightarrow> i64 x = i64 y"
  unfolding i64_def by (metis mod_add_cong)

lemma longValue_ok:
  assumes "- (2 ^ 63) \<le> bval x" "bval x < 2 ^ 63"
  shows "longValue x = bval x"
proof -
  let ?f = "\<lambda>d r. i64 (i64 (r * base) + d)"
  have "foldr ?f ds 0 mod 2 ^ 64 = dval ds mod 2 ^ 64" for ds
  proof (induction ds)
    case (Cons d ds)
    have "foldr ?f (d # ds) 0 mod 2 ^ 64 = (foldr ?f ds 0 mod 2 ^ 64 * base + d) mod 2 ^ 64"
      by (metis (no_types, lifting) comp_apply foldr.simps(2) i64_cong mod_add_left_eq mod_mult_left_eq)
    also have "\<dots> = dval (d # ds) mod 2 ^ 64"
      unfolding Cons.IH by (metis add.commute dval.simps(2) mod_add_left_eq mod_mult_left_eq mult.commute)
    finally show ?case .
  qed simp
  then have "(foldr ?f (big_a x) 0 * big_sign x) mod 2 ^ 64 = bval x mod 2 ^ 64"
    by (metis bval_def mod_mult_left_eq mult.commute)
  then have "longValue x = i64 (bval x)" unfolding longValue_def by (rule i64_eqI)
  then show ?thesis using assms by simp
qed

end
