(* ===== verification/Bigint_Div.thy ===== *)
theory Bigint_Div
  imports Bigint_Mach
begin

text \<open>
  Long division. The quotient digit is estimated from the two leading digits of the
  remainder and the leading digit of the divisor; the estimate is never too small, and the
  correction loop lowers it to the true digit. So \<open>divmod\<close> returns the quotient rounded
  towards zero and the remainder with the sign of the dividend, and \<open>gcd\<close> terminates.
\<close>

section \<open>The quotient digit\<close>

text \<open>Digit \<open>i\<close> of a number, 0 behind its end.\<close>

definition dg :: "int list \<Rightarrow> nat \<Rightarrow> int" where
  "dg ds i = (if length ds \<le> i then 0 else ds ! i)"

lemma dg_range: "digits_ok ds \<Longrightarrow> 0 \<le> dg ds i \<and> dg ds i < base"
  by (auto simp: dg_def digits_ok_def not_le)

lemma take_digits_ok: "digits_ok ds \<Longrightarrow> digits_ok (take n ds)"
  by (auto simp: digits_ok_def dest: in_set_takeD)

lemma two_top_digits:
  assumes "digits_ok ds" "length ds \<le> n + 1" "1 \<le> n"
  shows "dval ds < (base * dg ds n + dg ds (n - 1) + 1) * base ^ (n - 1)"
    and "(base * dg ds n + dg ds (n - 1)) * base ^ (n - 1) \<le> dval ds"
proof -
  let ?P = "base ^ (n - 1)"
  obtain m where n: "n = Suc m" using assms(3) by (cases n) auto
  have t: "0 \<le> dval (take m ds)" "dval (take m ds) < base ^ m"
    using take_digits_ok [OF assms(1), of m] dval_upper [of "take m ds"]
      power_increasing [of "length (take m ds)" m base] by (auto intro: less_le_trans)
  have d: "dval (drop m ds) = dg ds m + base * dg ds (Suc m)"
  proof (cases "length ds \<le> m")
    case True
    then show ?thesis by (simp add: dg_def)
  next
    case False
    then have e: "drop m ds = ds ! m # drop (Suc m) ds" by (simp add: Cons_nth_drop_Suc)
    show ?thesis
    proof (cases "length ds = Suc m")
      case True
      then show ?thesis using e by (simp add: dg_def)
    next
      case l: False
      then have "length ds = Suc (Suc m)" using False assms(2) n by simp
      then have "drop (Suc m) ds = [ds ! Suc m]" by (simp add: Cons_nth_drop_Suc [symmetric])
      then show ?thesis using e l False by (simp add: dg_def)
    qed
  qed
  have v: "dval ds = dval (take m ds) + base ^ m * dval (drop m ds)"
  proof (cases "m \<le> length ds")
    case True
    then show ?thesis using dval_append [of "take m ds" "drop m ds"] by (simp add: min_absorb2)
  next
    case False
    then show ?thesis by simp
  qed
  show "dval ds < (base * dg ds n + dg ds (n - 1) + 1) * ?P"
    "(base * dg ds n + dg ds (n - 1)) * ?P \<le> dval ds"
    using t unfolding v d n by (simp_all add: algebra_simps)
qed

lemma dval_top_digit:
  assumes "digits_ok ds" "ds \<noteq> []"
  shows "dval ds < (last ds + 1) * base ^ (length ds - 1)"
proof -
  have e: "ds = butlast ds @ [last ds]" using assms by simp
  have "digits_ok (butlast ds)" using assms by (auto simp: digits_ok_def dest: in_set_butlastD)
  then have "dval (butlast ds) < base ^ (length ds - 1)" using dval_upper [of "butlast ds"] by simp
  then show ?thesis by (subst e) (simp add: dval_append algebra_simps del: append_butlast_last_id)
qed

text \<open>The estimate from leading digits is not below the quotient, and fits in an \<open>int\<close>.\<close>

lemma quotient_estimate:
  fixes R B X bl P :: int
  assumes "0 < P" "0 < bl" "bl * P \<le> B" "B < (bl + 1) * P" "0 \<le> R" "R < B * base"
    "X * P \<le> R" "R < (X + 1) * P" "0 \<le> X"
  shows "R div B \<le> X div bl" "X div bl < 2 * base" "R div B < base" "0 \<le> R div B"
proof -
  have B: "0 < B" using assms(1-3) by (meson less_le_trans mult_pos_pos)
  let ?q = "R div B"
  show q0: "0 \<le> ?q" using B assms(5) by (simp add: pos_imp_zdiv_nonneg_iff)
  have qB: "?q * B \<le> R" using div_mult_mod_eq [of R B] pos_mod_sign [of B R] B by linarith
  then have "?q * B < base * B" using assms(6) by (simp add: mult.commute)
  then show "?q < base" using B by (simp add: mult_less_cancel_right)
  have "?q * (bl * P) \<le> ?q * B" using q0 assms(3) by (intro mult_left_mono)
  then have "(?q * bl) * P < (X + 1) * P" using qB assms(8) by (simp add: mult.assoc)
  then have "?q * bl \<le> X" using assms(1) by (simp add: mult_less_cancel_right)
  then show "?q \<le> X div bl" using zdiv_mono1 [of "?q * bl" X bl] assms(2) by simp
  have "B * base \<le> (bl + 1) * P * base" using assms(4) by (intro mult_right_mono) auto
  then have "X * P < ((bl + 1) * base) * P" using assms(6,7) by (simp add: algebra_simps)
  then have "X < (bl + 1) * base" using assms(1) by (simp add: mult_less_cancel_right)
  also have "\<dots> \<le> 2 * base * bl" using assms(2) by (simp add: algebra_simps)
  finally have "X div bl * bl < 2 * base * bl"
    using div_mult_mod_eq [of X bl] pos_mod_sign [of bl X] assms(2) by linarith
  then show "X div bl < 2 * base" using assms(2) by (simp add: mult_less_cancel_right)
qed

section \<open>The loops\<close>

text \<open>The divisor of the loops: a positive number that leaves room for two more digits.\<close>

definition divisor :: "bigint \<Rightarrow> bool" where
  "divisor b \<longleftrightarrow> big_ok b \<and> 0 < bval b \<and> int (length (big_a b)) + 4 < 2 ^ 64"

lemma big_less_zero:
  assumes "big_ok r" "fits r"
  shows "big_less r (big_of_ll 0) \<longleftrightarrow> bval r < 0"
proof -
  have "fits (big_of_ll 0)" by (simp add: fits_def big_of_ll_def ll_digits.simps)
  with big_less_val [OF assms(1) big_of_ll_val(2) assms(2)] big_of_ll_val(1) [of 0] show ?thesis by simp
qed

lemma fix_loop_val:
  assumes b: "divisor b" and R: "0 \<le> R" "R < base ^ (length (big_a b) + 2)"
  shows "big_ok r \<Longrightarrow> bval r = R - bval b * d \<Longrightarrow> R div bval b \<le> d \<Longrightarrow> d < 2 * base \<Longrightarrow>
     \<exists>r'. fix_loop b r d = ret (r', R div bval b) \<and> bval r' = R mod bval b \<and> big_ok r'"
proof (induction "nat (d - R div bval b)" arbitrary: r d)
  case 0
  then have d: "d = R div bval b" by simp
  then have v: "bval r = R mod bval b" using 0 by (simp add: minus_mult_div_eq_mod)
  have "\<bar>bval r\<bar> < base ^ (length (big_a b) + 2)"
    using v R zmod_le_nonneg_dividend [of R "bval b"] b by (simp add: divisor_def)
  then have "fits r" using 0 b by (intro fits_le [of r "length (big_a b) + 2"]) (auto simp: divisor_def big_ok_wf)
  moreover have "0 \<le> bval r" unfolding v using b by (simp add: divisor_def)
  ultimately have "\<not> big_less r (big_of_ll 0)" using 0 using big_less_zero [of r] by linarith
  then show ?case using v d 0 by (subst fix_loop.simps) simp
next
  case (Suc k)
  let ?n = "length (big_a b)"
  have B: "0 < bval b" "big_wf b" "big_ok b" "int ?n + 4 < 2 ^ 64" using b by (auto simp: divisor_def big_ok_wf)
  have Bn: "bval b < base ^ ?n" using dval_upper [of "big_a b"] B abs_bval [of b] by (simp add: big_wf_def)
  have q: "0 \<le> R div bval b" using B R by (simp add: pos_imp_zdiv_nonneg_iff)
  have dq: "R div bval b + 1 \<le> d" using Suc(2) by simp
  have "bval b * (R div bval b + 1) \<le> bval b * d" using dq B by (intro mult_left_mono) auto
  moreover have "R < bval b * (R div bval b + 1)"
    using mult_div_mod_eq [of "bval b" R] pos_mod_bound [of "bval b" R] B(1)
    unfolding distrib_left by linarith
  ultimately have neg: "bval r < 0" using Suc.prems by linarith
  have "bval b * d \<le> base ^ ?n * (base * base)"
  proof (rule mult_mono)
    have "2 * base \<le> base * base" by (simp add: base_def)
    then show "d \<le> base * base" using Suc.prems by linarith
  qed (use Bn q dq in auto)
  then have lim: "bval b * d \<le> base ^ (?n + 2)" by (simp add: algebra_simps)
  have "\<bar>bval r\<bar> \<le> bval b * d" using neg Suc.prems(2) R(1) by linarith
  also note lim
  also have "base ^ (?n + 2) < base ^ (?n + 3)" by (rule power_strict_increasing) auto
  finally have "\<bar>bval r\<bar> < base ^ (?n + 3)" .
  then have f: "fits r" "fits b"
    using Suc.prems B fits_le [of r "?n + 3"] by (auto simp: big_ok_wf fits_def)
  obtain r1 where r1: "big_add r b = Inr r1" "bval r1 = bval r + bval b" "big_ok r1"
    using big_add_ok [OF Suc.prems(1) B(3) f] by blast
  have v: "bval r1 = R - bval b * (d - 1)" using r1 Suc.prems by (simp add: algebra_simps)
  have "k = nat (d - 1 - R div bval b)" "R div bval b \<le> d - 1" "d - 1 < 2 * base"
    using Suc.hyps(2) Suc.prems(4) dq by linarith+
  from Suc.hyps(1) [OF this(1) r1(3) v this(2,3)]
  obtain r' where "fix_loop b r1 (d - 1) = ret (r', R div bval b)" "bval r' = R mod bval b" "big_ok r'"
    by blast
  moreover have "i32 (d - 1) = d - 1" using q dq Suc.prems by (simp add: base_def)
  ultimately show ?case
    using big_less_zero [OF Suc.prems(1) f(1)] neg r1 by (subst fix_loop.simps) simp
qed

lemma divmod_step_val:
  assumes b: "divisor b" and r: "big_ok r" "0 \<le> bval r" "bval r < bval b" and ai: "0 \<le> ai" "ai < base"
  shows "\<exists>r'. divmod_step b r ai = ret (r', (bval r * base + ai) div bval b) \<and>
           bval r' = (bval r * base + ai) mod bval b \<and> big_ok r'"
    and "0 \<le> (bval r * base + ai) div bval b" "(bval r * base + ai) div bval b < base"
proof -
  let ?n = "length (big_a b)" and ?B = "bval b" and ?R = "bval r * base + ai"
  let ?P = "base ^ (?n - 1)" and ?bl = "last (big_a b)"
  have B: "0 < ?B" "big_wf b" "int ?n + 4 < 2 ^ 64" using b by (auto simp: divisor_def big_ok_wf)
  have bd: "big_a b \<noteq> []" "digits_ok (big_a b)" "trimmed (big_a b)" "?B = dval (big_a b)"
    using B abs_bval [of b] by (auto simp: bval_def big_wf_def)
  have bl: "0 < ?bl" "?bl < base" using last_digit_range [OF bd(2,1)] bd(1,3) by (auto simp: trimmed_def)
  have BP: "?bl * ?P \<le> ?B" "?B < (?bl + 1) * ?P"
    using dval_lower [OF bd(2,1)] dval_top_digit [OF bd(2,1)] bd(4) by auto
  have Bn: "?B < base ^ ?n" using dval_upper [OF bd(2)] bd(4) by simp
  have R: "0 \<le> ?R" "?R < ?B * base"
  proof -
    have "bval r * base \<le> (?B - 1) * base" using r by (intro mult_right_mono) auto
    then show "?R < ?B * base" using ai by (simp add: algebra_simps)
  qed (use r ai in simp)
  have "?B * base < base ^ ?n * base" using Bn by (intro mult_strict_right_mono) auto
  also have "base ^ ?n * base = base ^ (?n + 1)" by simp
  finally have Rn: "?R < base ^ (?n + 1)" using R by linarith
  have m: "bval (big_mul_int r base) = bval r * base" "big_ok (big_mul_int r base)"
    using big_mul_int_ok [of r base] r by (auto simp: base_def big_ok_wf)
  have a: "bval (big_of_ll ai) = ai" "big_ok (big_of_ll ai)"
    using big_of_ll_val [of ai] ai by (auto simp: base_def)
  have "fits (big_mul_int r base)" "fits (big_of_ll ai)"
    using m a Bn ai r B fits_le [of "big_mul_int r base" "?n + 1"] fits_le [of "big_of_ll ai" 1]
    by (auto simp: big_ok_wf)
  then obtain r1 where r1: "big_add (big_mul_int r base) (big_of_ll ai) = Inr r1" "bval r1 = ?R" "big_ok r1"
    using big_add_ok [OF m(2) a(2)] m a by auto
  have r1d: "digits_ok (big_a r1)" "dval (big_a r1) = ?R" "length (big_a r1) \<le> ?n + 1"
    using r1 R Rn abs_bval [of r1] length_le_val [of r1 "?n + 1"] by (auto simp: big_ok_def big_wf_def)
  have n1: "1 \<le> ?n" using bd(1) by (simp add: Suc_le_eq)
  let ?X = "base * dg (big_a r1) ?n + dg (big_a r1) (?n - 1)"
  note top = two_top_digits [OF r1d(1,3) n1, unfolded r1d(2)]
  have s: "0 \<le> dg (big_a r1) ?n" "dg (big_a r1) ?n < base" "0 \<le> dg (big_a r1) (?n - 1)"
    "dg (big_a r1) (?n - 1) < base" using dg_range [OF r1d(1)] by auto
  then have X: "0 \<le> ?X" "base * dg (big_a r1) ?n \<le> base * base" by auto
  then have X63: "?X < 2 ^ 63" "base * dg (big_a r1) ?n < 2 ^ 63" using s by (auto simp: base_def)
  have P0: "0 < ?P" by simp
  note est = quotient_estimate [OF P0 bl(1) BP R top(2,1) X(1)]
  show "0 \<le> ?R div ?B" "?R div ?B < base" using est by auto
  let ?d = "?X div ?bl"
  have "0 \<le> ?d" using X bl by (simp add: pos_imp_zdiv_nonneg_iff)
  moreover have "2 * base < 2 ^ 31" by (simp add: base_def)
  ultimately have d31: "\<bar>?d\<bar> < 2 ^ 31" "0 \<le> ?d" using est by auto
  have dd: "i32 (cdiv (i64 (i64 (base * dg (big_a r1) ?n) + dg (big_a r1) (?n - 1))) ?bl) = ?d"
    using X X63 s bl d31 by simp
  have bm: "bval (big_mul_int b ?d) = ?B * ?d" "big_ok (big_mul_int b ?d)"
    using big_mul_int_ok [OF B(2) d31(1)] by auto
  have "?B * ?d \<le> base ^ ?n * (base * base)"
  proof (rule mult_mono)
    have "2 * base \<le> base * base" by (simp add: base_def)
    then show "?d \<le> base * base" using est(2) by linarith
  qed (use Bn d31 in auto)
  also have "base ^ ?n * (base * base) = base ^ (?n + 2)" by (simp add: algebra_simps)
  also have "base ^ (?n + 2) < base ^ (?n + 3)" by (rule power_strict_increasing) auto
  finally have "\<bar>bval (big_mul_int b ?d)\<bar> < base ^ (?n + 3)" using bm B d31 by simp
  then have "fits (big_mul_int b ?d)" "fits r1"
    using bm B r1d fits_le [of "big_mul_int b ?d" "?n + 3"] by (auto simp: big_ok_wf fits_def)
  then obtain r2 where r2: "big_sub r1 (big_mul_int b ?d) = Inr r2" "bval r2 = ?R - ?B * ?d" "big_ok r2"
    using big_sub_ok [OF r1(3) bm(2)] r1(2) bm(1) by auto
  have "base ^ (?n + 1) < base ^ (?n + 2)" by (rule power_strict_increasing) auto
  with Rn have R2: "?R < base ^ (?n + 2)" by linarith
  obtain r' where r': "fix_loop b r2 ?d = ret (r', ?R div ?B)" "bval r' = ?R mod ?B" "big_ok r'"
    using fix_loop_val [OF b R(1) R2 r2(3,2) est(1,2)] by blast
  have c: "(?n = 0) = False" "(?bl = 0) = False" using bd(1) bl by simp_all
  have "divmod_step b r ai = fix_loop b r2 ?d"
    by (simp only: divmod_step_def Let_def dg_def [symmetric] r1(1) bindc_simps dd c if_False r2(1))
  with r' show "\<exists>r'. divmod_step b r ai = ret (r', ?R div ?B) \<and> bval r' = ?R mod ?B \<and> big_ok r'"
    by auto
qed

lemma divmod_loop_val:
  assumes b: "divisor b"
  shows "digits_ok as \<Longrightarrow> big_ok r \<Longrightarrow> 0 \<le> bval r \<Longrightarrow> bval r < bval b \<Longrightarrow>
     \<exists>r' ds. divmod_loop b as r q = ret (r', ds @ q) \<and> digits_ok ds \<and> length ds = length as \<and>
       dval ds * bval b + bval r' = bval r * base ^ length as + dval (rev as) \<and>
       0 \<le> bval r' \<and> bval r' < bval b \<and> big_ok r'"
proof (induction "as" arbitrary: r q)
  case (Cons ai as)
  let ?R = "bval r * base + ai"
  have ai: "0 \<le> ai" "ai < base" "digits_ok as" using Cons.prems by auto
  obtain r1 where r1: "divmod_step b r ai = ret (r1, ?R div bval b)" "bval r1 = ?R mod bval b" "big_ok r1"
    using divmod_step_val(1) [OF b Cons.prems(2-4) ai(1,2)] by blast
  have "0 < bval b" using b by (simp add: divisor_def)
  then obtain r' ds where d: "divmod_loop b as r1 (?R div bval b # q) = ret (r', ds @ ?R div bval b # q)"
    "digits_ok ds" "length ds = length as"
    "dval ds * bval b + bval r' = bval r1 * base ^ length as + dval (rev as)"
    "0 \<le> bval r'" "bval r' < bval b" "big_ok r'"
    using Cons.IH [OF ai(3) r1(3), of "?R div bval b # q"] r1(2) by auto
  let ?ds = "ds @ [?R div bval b]"
  have "dval ?ds * bval b + bval r' =
      (?R div bval b * bval b + ?R mod bval b) * base ^ length as + dval (rev as)"
  proof -
    have "dval ?ds * bval b = dval ds * bval b + ?R div bval b * bval b * base ^ length as"
      by (simp add: dval_append d(3) algebra_simps)
    then show ?thesis using d(4) unfolding r1(2) by (simp only: distrib_right)
  qed
  also have "\<dots> = bval r * base ^ length (ai # as) + dval (rev (ai # as))"
    by (simp add: dval_append algebra_simps)
  finally have e: "dval ?ds * bval b + bval r' = bval r * base ^ length (ai # as) + dval (rev (ai # as))" .
  have "digits_ok ?ds"
    using d(2) divmod_step_val(2,3) [OF b Cons.prems(2-4) ai(1,2)] by simp
  then show ?case
    using r1(1) d e by (intro exI [of _ r'] exI [of _ ?ds]) simp
qed (simp add: exI [of _ "[]"])

section \<open>\<open>divmod\<close>, \<open>/\<close>, \<open>%\<close> and \<open>gcd\<close>\<close>

text \<open>The normalising factor is a positive \<open>int\<close>.\<close>

lemma norm_range:
  assumes "0 \<le> l" "l < base"
  shows "i32 (cdiv base (i32 (l + 1))) = base div (l + 1)" "1 \<le> base div (l + 1)"
    "base div (l + 1) \<le> base" "i32 (l + 1) \<noteq> 0"
proof -
  have l: "i32 (l + 1) = l + 1" using assms by (simp add: base_def)
  then show "i32 (l + 1) \<noteq> 0" using assms by simp
  have "(l + 1) div (l + 1) \<le> base div (l + 1)" using assms by (intro zdiv_mono1) auto
  then show one: "1 \<le> base div (l + 1)" using assms by simp
  have "base div (l + 1) \<le> base div 1" using assms by (intro zdiv_mono2) auto
  then show le: "base div (l + 1) \<le> base" by simp
  moreover have "base < 2 ^ 31" by (simp add: base_def)
  ultimately show "i32 (cdiv base (i32 (l + 1))) = base div (l + 1)"
    using one assms l by simp
qed

lemma cdiv_mult_self: "0 < n \<Longrightarrow> cdiv (x * n) n = x"
  by (simp add: cdiv_def sgn_mult abs_mult mult_sgn_abs)

lemma sign_div_mod:
  fixes A B :: int
  assumes "s = 1 \<or> s = -1" "t = 1 \<or> t = -1" "0 \<le> A" "0 < B"
  shows "s * t * (A div B) = cdiv (s * A) (t * B)" "s * (A mod B) = cmod (s * A) (t * B)"
proof -
  show "s * t * (A div B) = cdiv (s * A) (t * B)"
    using assms by (cases "A = 0") (auto simp: cdiv_def sgn_mult abs_mult)
  then have "cmod (s * A) (t * B) = s * A - s * t * (A div B) * (t * B)" by (simp add: cmod_def)
  also have "\<dots> = s * (A - A div B * B)" using assms by (auto simp: algebra_simps)
  finally show "s * (A mod B) = cmod (s * A) (t * B)" by (simp add: minus_div_mult_eq_mod)
qed

text \<open>The loop on the normalised operands: both results are those of the absolute values.\<close>

lemma divmod_loop_abs:
  assumes a: "big_wf a1" and b: "big_wf b1" "big_a b1 \<noteq> []"
    and len: "int (length (big_a b1)) + 5 < 2 ^ 64"
    and norm: "1 \<le> n" "n \<le> base"
  shows "\<exists>r ds. divmod_loop (big_mul_int (big_abs b1) n) (rev (big_a (big_mul_int (big_abs a1) n))) big_new [] =
           ret (r, ds) \<and> digits_ok ds \<and> dval ds = dval (big_a a1) div dval (big_a b1) \<and>
           bval r = (dval (big_a a1) mod dval (big_a b1)) * n \<and> big_ok r"
proof -
  let ?a = "big_mul_int (big_abs a1) n" and ?b = "big_mul_int (big_abs b1) n"
  let ?A = "dval (big_a a1)" and ?B = "dval (big_a b1)"
  have n31: "\<bar>n\<bar> < 2 ^ 31" using norm by (simp add: base_def)
  have A0: "0 \<le> ?A" using a by (simp add: big_wf_def)
  have B0: "0 < ?B" using b dval_pos [of "big_a b1"] by (auto simp: big_wf_def)
  have av: "bval ?a = ?A * n" "big_ok ?a" and bv: "bval ?b = ?B * n" "big_ok ?b"
    using big_mul_int_ok [OF _ n31] a b by (auto simp: big_abs_ok big_ok_wf)
  have "?B < base ^ length (big_a b1)" using dval_upper b by (auto simp: big_wf_def)
  then have "?B * n < base ^ length (big_a b1) * base"
    using norm B0 by (intro mult_less_le_imp_less) auto
  then have "\<bar>bval ?b\<bar> < base ^ (length (big_a b1) + 1)" using bv B0 norm by (simp add: mult.commute)
  then have "length (big_a ?b) \<le> length (big_a b1) + 1" using bv by (intro length_le_val) (auto simp: big_ok_wf)
  then have dv: "divisor ?b" using bv B0 norm len by (auto simp: divisor_def)
  have "digits_ok (rev (big_a ?a))" using av by (simp add: big_ok_def big_wf_def)
  from divmod_loop_val [OF dv this, of big_new "[]"] obtain r ds where
    l: "divmod_loop ?b (rev (big_a ?a)) big_new [] = ret (r, ds)" "digits_ok ds"
    "dval ds * bval ?b + bval r = dval (big_a ?a)" "0 \<le> bval r" "bval r < bval ?b" "big_ok r"
    using dv by (auto simp: divisor_def)
  have "dval (big_a ?a) = ?A * n"
    using av abs_bval [OF big_ok_wf [OF av(2)]] A0 norm by simp
  then have e: "?A * n = bval ?b * dval ds + bval r" using l(3) by (simp add: mult.commute)
  have "dval ds = (?A * n) div (?B * n)" "bval r = (?A * n) mod (?B * n)"
    using e l(4,5) B0 norm unfolding bv by (simp_all add: div_pos_pos_trivial)
  then have "dval ds = ?A div ?B" "bval r = (?A mod ?B) * n" using norm by simp_all
  with l show ?thesis by blast
qed

lemma divmod_big_ok:
  assumes a: "big_ok a1" and b: "big_ok b1" "bval b1 \<noteq> 0"
    and len: "int (length (big_a b1)) + 5 < 2 ^ 64"
  shows "\<exists>q r. divmod_big a1 b1 = ret (q, r) \<and> big_ok q \<and> big_ok r \<and>
           bval q = cdiv (bval a1) (bval b1) \<and> bval r = cmod (bval a1) (bval b1)"
proof -
  have wf: "big_wf a1" "big_wf b1" using a b by (auto simp: big_ok_wf)
  have ne: "big_a b1 \<noteq> []" using b(2) by (auto simp: bval_def)
  let ?A = "dval (big_a a1)" and ?B = "dval (big_a b1)"
  let ?s = "big_sign a1" and ?t = "big_sign b1"
  let ?n = "base div (last (big_a b1) + 1)"
  note nr = norm_range [of "last (big_a b1)"]
  have lb: "0 \<le> last (big_a b1)" "last (big_a b1) < base"
    using last_digit_range [of "big_a b1"] wf ne by (auto simp: big_wf_def)
  obtain r ds where l: "divmod_loop (big_mul_int (big_abs b1) ?n) (rev (big_a (big_mul_int (big_abs a1) ?n)))
      big_new [] = ret (r, ds)" "digits_ok ds" "dval ds = ?A div ?B" "bval r = (?A mod ?B) * ?n" "big_ok r"
    using divmod_loop_abs [OF wf ne len nr(2,3)] lb by blast
  have sg: "?s = 1 \<or> ?s = -1" "?t = 1 \<or> ?t = -1" using wf by (auto simp: big_wf_def)
  have AB: "0 \<le> ?A" "0 < ?B" using wf ne dval_pos [of "big_a b1"] by (auto simp: big_wf_def)
  let ?q = "big_trim \<lparr>big_a = ds, big_sign = i32 (?s * ?t)\<rparr>"
  let ?r = "big_trim (r\<lparr>big_sign := ?s\<rparr>)"
  have q: "big_ok ?q" "bval ?q = cdiv (bval a1) (bval b1)"
  proof -
    show "big_ok ?q" using l sg by (intro big_trim_ok) auto
    have "i32 (?s * ?t) = ?s * ?t" using sg by auto
    then show "bval ?q = cdiv (bval a1) (bval b1)"
      unfolding big_trim_val using l(3) sign_div_mod(1) [OF sg AB] by (simp add: bval_def)
  qed
  have "0 \<le> (?A mod ?B) * ?n" using AB nr lb by simp
  then have "dval (big_a r) = (?A mod ?B) * ?n" using l(4) abs_bval [OF big_ok_wf [OF l(5)]] by simp
  then have r1: "bval ?r = ?s * (?A mod ?B) * ?n" unfolding big_trim_val by (simp add: bval_def)
  have r2: "big_ok ?r" using l sg by (intro big_trim_ok) (auto simp: big_ok_def big_wf_def)
  have n31: "\<bar>?n\<bar> < 2 ^ 31" "?n \<noteq> 0" using nr(2,3) [OF lb] by (auto simp: base_def)
  obtain r' where r': "big_div_int ?r ?n = Inr r'" "bval r' = cdiv (bval ?r) ?n" "big_ok r'"
    using big_div_int_ok [OF big_ok_wf [OF r2] n31(2,1)] by blast
  have "cdiv (?s * (?A mod ?B) * ?n) ?n = ?s * (?A mod ?B)"
    using nr(2) [OF lb] by (intro cdiv_mult_self) simp
  then have "bval r' = cmod (bval a1) (bval b1)"
    using r'(2) r1 sign_div_mod(2) [OF sg AB] by (simp add: bval_def)
  moreover have "divmod_big a1 b1 = ret (?q, r')"
    using ne nr(4) [OF lb] by (simp only: divmod_big_def if_False Let_def nr(1) [OF lb] l(1) bindc_simps
        prod.case r'(1))
  ultimately show ?thesis using q r'(3) by blast
qed

lemma big_mod_ok:
  assumes "big_ok a" "big_ok b" "bval b \<noteq> 0" "int (length (big_a b)) + 5 < 2 ^ 64"
  shows "\<exists>r. big_mod a b = ret r \<and> big_ok r \<and> bval r = cmod (bval a) (bval b)"
  using divmod_big_ok [OF assms] by (auto simp: big_mod_def)

lemma cmod_abs_less:
  assumes "y \<noteq> 0"
  shows "\<bar>cmod x y\<bar> < \<bar>y\<bar>"
proof (cases "x = 0")
  case False
  then have "cmod x y = sgn x * (\<bar>x\<bar> mod \<bar>y\<bar>)"
    using sign_div_mod(2) [of "sgn x" "sgn y" "\<bar>x\<bar>" "\<bar>y\<bar>"] assms by (simp add: sgn_if split: if_splits)
  moreover have "0 \<le> \<bar>x\<bar> mod \<bar>y\<bar>" "\<bar>x\<bar> mod \<bar>y\<bar> < \<bar>y\<bar>" using assms by auto
  ultimately show ?thesis using False by (simp add: abs_mult)
qed (use assms in \<open>simp add: cmod_def cdiv_def\<close>)

lemma gcd_cmod: "gcd y (cmod x y) = gcd x y" for x y :: int
proof -
  have "cmod x y = (- cdiv x y) * y + x" by (simp add: cmod_def)
  then show ?thesis by (simp only: gcd_add_mult) (simp add: gcd.commute)
qed

lemma big_gcd_ok:
  "big_ok a \<Longrightarrow> big_ok b \<Longrightarrow> int (length (big_a b)) + 5 < 2 ^ 64 \<Longrightarrow>
     \<exists>g. big_gcd a b = ret g \<and> big_ok g \<and> \<bar>bval g\<bar> = gcd (bval a) (bval b)"
proof (induction "nat \<bar>bval b\<bar>" arbitrary: a b rule: less_induct)
  case less
  show ?case
  proof (cases "bval b = 0")
    case True
    then have "isZero b" using less.prems by (simp add: isZero_iff big_ok_wf)
    then show ?thesis using less.prems True by (subst big_gcd.simps) simp
  next
    case False
    obtain r where r: "big_mod a b = ret r" "big_ok r" "bval r = cmod (bval a) (bval b)"
      using big_mod_ok [OF less.prems(1,2) False less.prems(3)] by blast
    have lt: "\<bar>bval r\<bar> < \<bar>bval b\<bar>" using r(3) cmod_abs_less [OF False] by simp
    have "\<bar>bval b\<bar> < base ^ length (big_a b)"
      using abs_bval [of b] dval_upper [of "big_a b"] less.prems by (simp add: big_ok_def big_wf_def)
    then have "length (big_a r) \<le> length (big_a b)"
      using lt r(2) by (intro length_le_val) (auto simp: big_ok_wf)
    then obtain g where "big_gcd b r = ret g" "big_ok g" "\<bar>bval g\<bar> = gcd (bval b) (bval r)"
      using less.hyps [of r b] lt less.prems r(2) False by auto
    moreover have "\<not> isZero b" using less.prems False by (simp add: isZero_iff big_ok_wf)
    ultimately show ?thesis using r by (subst big_gcd.simps) (simp add: gcd_cmod)
  qed
qed

end
