(* ===== verification/Bigint_Mul.thy ===== *)
theory Bigint_Mul
  imports Bigint_Div
begin

text \<open>
  Products of big integers: the digits are converted to base \<open>10 ^ 6\<close>, padded to a power
  of two, multiplied by Karatsuba's method in 64-bit arithmetic and converted back. A
  \<open>vector<long long>\<close> is a list of 64-bit words, so sums and products wrap around.
\<close>

section \<open>Operations\<close>

text \<open>The table \<open>p\<close> of \<open>convert_base\<close>.\<close>

fun pow10 :: "nat \<Rightarrow> int" where
  "pow10 0 = 1"
| "pow10 (Suc i) = i64 (pow10 i * 10)"

text \<open>The inner loop of \<open>convert_base\<close>; the callers pass 6 and 9, never 0, as \<open>new_digits\<close>.\<close>

function conv_inner :: "nat \<Rightarrow> int \<Rightarrow> nat \<Rightarrow> int list \<times> int \<times> nat" where
  "conv_inner nd cur cd =
     (if 0 < nd \<and> nd \<le> cd
      then let (ds, cur', cd') = conv_inner nd (cdiv cur (pow10 nd)) (cd - nd)
           in (i32 (cmod cur (pow10 nd)) # ds, cur', cd')
      else ([], cur, cd))"
  by auto
termination by (relation "measure (\<lambda>(nd, cur, cd). cd)") auto

fun conv_loop :: "nat \<Rightarrow> nat \<Rightarrow> int list \<Rightarrow> int \<Rightarrow> nat \<Rightarrow> int list" where
  "conv_loop od nd [] cur cd = [i32 cur]"
| "conv_loop od nd (x # xs) cur cd =
     (let (ds, cur', cd') = conv_inner nd (i64 (cur + i64 (x * pow10 cd))) (cd + od)
      in ds @ conv_loop od nd xs cur' cd')"

definition convert_base :: "int list \<Rightarrow> nat \<Rightarrow> nat \<Rightarrow> int list" where
  "convert_base a od nd = trim_digits (conv_loop od nd a 0 0)"

text \<open>\<open>r[off + i] += ys[i]\<close> for every \<open>i\<close>; behind the end of \<open>r\<close> it is undefined.\<close>

fun add_into :: "64 word list \<Rightarrow> 64 word list \<Rightarrow> 64 word list res" where
  "add_into rs [] = Inr rs"
| "add_into [] (y # ys) = Inl Out_Of_Bounds"
| "add_into (r # rs) (y # ys) = bindr (add_into rs ys) (\<lambda>t. Inr ((r + y) # t))"

definition acc_at :: "nat \<Rightarrow> 64 word list \<Rightarrow> 64 word list \<Rightarrow> 64 word list res" where
  "acc_at off r ys = bindr (add_into (drop off r) ys) (\<lambda>t. Inr (take off r @ t))"

text \<open>The two nested loops for short vectors, from row \<open>i\<close> on.\<close>

fun school_loop :: "nat \<Rightarrow> 64 word list \<Rightarrow> 64 word list \<Rightarrow> 64 word list \<Rightarrow> 64 word list res" where
  "school_loop i [] b r = Inr r"
| "school_loop i (x # xs) b r =
     bindr (acc_at i r (map (\<lambda>y. x * y) b)) (\<lambda>r'. school_loop (Suc i) xs b r')"

declare bindr_cong [fundef_cong]

lemma add_into_length: "add_into r ys = Inr t \<Longrightarrow> length t = length r"
  by (induction r ys arbitrary: t rule: add_into.induct) (auto simp: bindr_eq_Inr)

lemma acc_at_length: "acc_at off r ys = Inr t \<Longrightarrow> length t = length r"
  by (auto simp: acc_at_def bindr_eq_Inr dest!: add_into_length)

function karatsubaMultiply :: "64 word list \<Rightarrow> 64 word list \<Rightarrow> 64 word list res" where
  "karatsubaMultiply a b =
     (let n = length a; res = replicate (n + n) 0
      in if length b < n then Inl Out_Of_Bounds
         else if n \<le> 32 then school_loop 0 a (take n b) res
         else
           (let k = n div 2; a1 = take k a; a2 = drop k a; b1 = take k b; b2 = drop k b
            in bindr (karatsubaMultiply a1 b1) (\<lambda>a1b1.
               bindr (karatsubaMultiply a2 b2) (\<lambda>a2b2.
               bindr (acc_at 0 a2 a1) (\<lambda>a2'.
               bindr (acc_at 0 b2 b1) (\<lambda>b2'.
               bindr (karatsubaMultiply a2' b2') (\<lambda>r.
               bindr (acc_at 0 r (map uminus a1b1)) (\<lambda>r1.
               bindr (acc_at 0 r1 (map uminus a2b2)) (\<lambda>r2.
               bindr (acc_at k res r2) (\<lambda>res1.
               bindr (acc_at 0 res1 a1b1) (\<lambda>res2.
                 acc_at n res2 a2b2)))))))))))"
  by auto
termination
  by (relation "measure (\<lambda>(a, b). length a)") (auto dest: acc_at_length)

text \<open>The padding loop: the next size with \<open>size & (size - 1)\<close> zero.\<close>

lemma and_pred_power: "and (2 ^ j) (2 ^ j - 1) = (0 :: nat)"
proof -
  have "and (2 ^ j) (mask j) = (0 :: nat)"
    by (rule bit_eqI) (auto simp: bit_and_iff bit_mask_iff bit_exp_iff)
  then show ?thesis by (simp add: mask_eq_exp_minus_1)
qed

function pad_pow2 :: "nat \<Rightarrow> nat" where
  "pad_pow2 n = (if and n (n - 1) = 0 then n else pad_pow2 (Suc n))"
  by auto
termination
proof (relation "measure (\<lambda>n. 2 ^ (LEAST j. n \<le> 2 ^ j) - n)")
  fix n :: nat
  assume ne: "and n (n - 1) \<noteq> 0"
  let ?j = "LEAST j. n \<le> (2 :: nat) ^ j"
  have le: "n \<le> 2 ^ ?j" by (rule LeastI [of _ n]) (rule less_imp_le [OF less_exp])
  have "n \<noteq> 2 ^ ?j" using ne and_pred_power [of ?j] by metis
  with le have lt: "n < 2 ^ ?j" by simp
  then have "(LEAST j. Suc n \<le> (2 :: nat) ^ j) = ?j"
    by (intro Least_equality) (auto intro: Least_le)
  with lt show "(Suc n, n) \<in> measure (\<lambda>n. 2 ^ (LEAST j. n \<le> 2 ^ j) - n)" by simp
qed simp

text \<open>The carry loop; a carry left at the end is dropped.\<close>

fun carry_loop :: "64 word list \<Rightarrow> int \<Rightarrow> int list" where
  "carry_loop [] carry = []"
| "carry_loop (c # cs) carry =
     (let cur = i64 (sint c + carry)
      in i32 (cmod cur 1000000) # carry_loop cs (i32 (cdiv cur 1000000)))"

definition pad_words :: "nat \<Rightarrow> int list \<Rightarrow> 64 word list" where
  "pad_words n ds = map of_int ds @ replicate (n - length ds) 0"

definition big_mul :: "bigint \<Rightarrow> bigint \<Rightarrow> bigint res" where
  "big_mul x v =
     (let a6 = convert_base (big_a x) base_digits 6;
          b6 = convert_base (big_a v) base_digits 6;
          n = pad_pow2 (max (length a6) (length b6))
      in bindr (karatsubaMultiply (pad_words n a6) (pad_words n b6)) (\<lambda>c.
           Inr (big_trim \<lparr>big_a = convert_base (carry_loop c 0) 6 base_digits,
                          big_sign = i32 (big_sign x * big_sign v)\<rparr>)))"

text \<open>\<open>operator^\<close>: square and multiply.\<close>

partial_function (option) pow_loop :: "bigint \<Rightarrow> bigint \<Rightarrow> bigint \<Rightarrow> bigint comp" where
  "pow_loop ans a b =
     (if isZero b then ret ans
      else bindc (Some (big_mod_int b 2)) (\<lambda>m.
           bindc (if m \<noteq> 0 then Some (big_mul ans a) else ret ans) (\<lambda>ans'.
           bindc (Some (big_mul a a)) (\<lambda>a'.
           bindc (Some (big_div_int b 2)) (\<lambda>b'. pow_loop ans' a' b')))))"

declare pow_loop.simps [code]

definition big_pow :: "bigint \<Rightarrow> bigint \<Rightarrow> bigint comp" where
  "big_pow x v = pow_loop (big_of_ll 1) x v"

definition big_lcm :: "bigint \<Rightarrow> bigint \<Rightarrow> bigint comp" where
  "big_lcm a b =
     bindc (big_gcd a b) (\<lambda>g. bindc (big_div a g) (\<lambda>q. Some (big_mul q b)))"

end
