(* ===== verification/Bigint_Kar.thy ===== *)
theory Bigint_Kar
  imports Bigint_Mul
begin

text \<open>
  Karatsuba's method computes the convolution of its arguments. Coefficient lists are read
  as functions that are zero behind the end; all laws hold in the ring of 64-bit words, so
  wrap-around in the middle of the computation does no harm.
\<close>

section \<open>Convolution\<close>

definition cf :: "'a::comm_ring_1 list \<Rightarrow> nat \<Rightarrow> 'a" where
  "cf xs k = (if k < length xs then xs ! k else 0)"

definition shiftf :: "nat \<Rightarrow> (nat \<Rightarrow> 'a::comm_ring_1) \<Rightarrow> nat \<Rightarrow> 'a" where
  "shiftf n f k = (if n \<le> k then f (k - n) else 0)"

definition cnv :: "(nat \<Rightarrow> 'a::comm_ring_1) \<Rightarrow> (nat \<Rightarrow> 'a) \<Rightarrow> nat \<Rightarrow> 'a" where
  "cnv f g k = (\<Sum>i\<le>k. f i * g (k - i))"

lemma cf_Nil [simp]: "cf [] k = 0"
  by (simp add: cf_def)

lemma cf_Cons: "cf (x # xs) k = (if k = 0 then x else cf xs (k - 1))"
  by (cases k) (auto simp: cf_def)

lemma cf_append: "cf (xs @ ys) k = cf xs k + shiftf (length xs) (cf ys) k"
  by (auto simp: cf_def shiftf_def nth_append)

lemma cf_replicate_0 [simp]: "cf (replicate n 0) k = 0"
  by (simp add: cf_def)

lemma cf_map_mult: "cf (map (\<lambda>y. x * y) ys) k = x * cf ys k"
  by (simp add: cf_def)

lemma cf_map_uminus: "cf (map uminus ys) k = - cf ys k"
  by (simp add: cf_def)

lemma cnv_comm: "cnv f g k = cnv g f k"
  unfolding cnv_def
  by (rule sum.reindex_bij_witness [of _ "\<lambda>i. k - i" "\<lambda>i. k - i"]) (auto simp: mult.commute)

lemma cnv_add_left: "cnv (\<lambda>i. f i + g i) h k = cnv f h k + cnv g h k"
  by (simp add: cnv_def distrib_right sum.distrib)

lemma cnv_add_right: "cnv f (\<lambda>i. g i + h i) k = cnv f g k + cnv f h k"
  by (simp add: cnv_def distrib_left sum.distrib)

lemma cnv_Suc_left:
  "cnv (\<lambda>i. if i = 0 then x else f (i - 1)) g k = x * g k + shiftf 1 (cnv f g) k"
proof (cases k)
  case (Suc m)
  have "(\<Sum>i\<le>Suc m. (if i = 0 then x else f (i - 1)) * g (Suc m - i)) =
      x * g (Suc m) + (\<Sum>i\<le>m. f i * g (m - i))"
    by (subst sum.atMost_Suc_shift) simp
  then show ?thesis by (simp add: cnv_def shiftf_def Suc)
qed (simp add: cnv_def shiftf_def)

lemma cnv_cf_Cons: "cnv (cf (x # xs)) g k = x * g k + shiftf 1 (cnv (cf xs) g) k"
proof -
  have "cf (x # xs) = (\<lambda>i. if i = 0 then x else cf xs (i - 1))" by (rule ext) (simp add: cf_Cons)
  then show ?thesis by (simp only: cnv_Suc_left)
qed

lemma shiftf_shiftf: "shiftf m (shiftf n f) = shiftf (m + n) f"
  by (rule ext) (auto simp: shiftf_def)

lemma shiftf_0 [simp]: "shiftf 0 f = f"
  by (rule ext) (simp add: shiftf_def)

lemma shiftf_add: "shiftf n (\<lambda>i. f i + g i) k = shiftf n f k + shiftf n g k"
  by (simp add: shiftf_def)

lemma cnv_shift_left: "cnv (shiftf n f) g k = shiftf n (cnv f g) k"
proof (induction n arbitrary: k)
  case (Suc n)
  have "shiftf (Suc n) f = (\<lambda>i. if i = 0 then 0 else shiftf n f (i - 1))"
    by (rule ext) (auto simp: shiftf_def)
  then have "cnv (shiftf (Suc n) f) g k = shiftf 1 (cnv (shiftf n f) g) k"
    by (simp only: cnv_Suc_left) simp
  also have "cnv (shiftf n f) g = shiftf n (cnv f g)" by (rule ext) (rule Suc)
  finally show ?case by (simp add: shiftf_shiftf)
qed simp

lemma cnv_shift_right: "cnv f (shiftf n g) k = shiftf n (cnv f g) k"
proof -
  have "cnv g f = cnv f g" by (rule ext) (rule cnv_comm)
  then show ?thesis using cnv_shift_left [of n g f k] cnv_comm [of f "shiftf n g" k] by simp
qed

section \<open>The loops\<close>

lemma add_into_cf:
  "length ys \<le> length r \<Longrightarrow> \<exists>t. add_into r ys = Inr t \<and> length t = length r \<and> (\<forall>k. cf t k = cf r k + cf ys k)"
proof (induction r ys rule: add_into.induct)
  case (3 r rs y ys)
  then obtain t where "add_into rs ys = Inr t" "length t = length rs" "\<forall>k. cf t k = cf rs k + cf ys k"
    by auto
  then show ?case by (auto simp: cf_Cons)
qed auto

lemma acc_at_cf:
  assumes "off + length ys \<le> length r"
  shows "\<exists>t. acc_at off r ys = Inr t \<and> length t = length r \<and> (\<forall>k. cf t k = cf r k + shiftf off (cf ys) k)"
proof -
  obtain t where t: "add_into (drop off r) ys = Inr t" "length t = length (drop off r)"
    "\<forall>k. cf t k = cf (drop off r) k + cf ys k"
    using add_into_cf [of ys "drop off r"] assms by fastforce
  have off: "length (take off r) = off" using assms by simp
  have "cf (take off r @ t) k = cf r k + shiftf off (cf ys) k" for k
  proof -
    have "cf (take off r @ t) k = cf (take off r) k + shiftf off (cf t) k"
      unfolding cf_append off by simp
    also have "shiftf off (cf t) k = shiftf off (cf (drop off r)) k + shiftf off (cf ys) k"
      using t(3) by (simp add: shiftf_def)
    also have "cf (take off r) k + (shiftf off (cf (drop off r)) k + shiftf off (cf ys) k) =
        cf (take off r @ drop off r) k + shiftf off (cf ys) k"
      unfolding cf_append off by simp
    finally show ?thesis by simp
  qed
  then show ?thesis using t off assms by (auto simp: acc_at_def)
qed

lemma school_loop_cf:
  "i + length xs + length b \<le> length r + 1 \<Longrightarrow> xs \<noteq> [] \<Longrightarrow>
     \<exists>t. school_loop i xs b r = Inr t \<and> length t = length r \<and>
       (\<forall>k. cf t k = cf r k + shiftf i (cnv (cf xs) (cf b)) k)"
proof (induction xs arbitrary: i r)
  case (Cons x xs)
  obtain r' where r': "acc_at i r (map (\<lambda>y. x * y) b) = Inr r'" "length r' = length r"
    "\<forall>k. cf r' k = cf r k + shiftf i (cf (map (\<lambda>y. x * y) b)) k"
    using acc_at_cf [of i "map (\<lambda>y. x * y) b" r] Cons.prems by auto
  have e: "shiftf i (cnv (cf (x # xs)) (cf b)) k =
      shiftf i (cf (map (\<lambda>y. x * y) b)) k + shiftf (Suc i) (cnv (cf xs) (cf b)) k" for k
    by (auto simp: shiftf_def cnv_cf_Cons cf_map_mult)
  show ?case
  proof (cases "xs = []")
    case True
    have "cnv (cf []) (cf b) = (\<lambda>k. 0)" by (rule ext) (simp add: cnv_def)
    then have "shiftf (Suc i) (cnv (cf []) (cf b)) k = 0" for k by (simp add: shiftf_def)
    then show ?thesis using r' e True by auto
  next
    case False
    then obtain t where "school_loop (Suc i) xs b r' = Inr t" "length t = length r'"
      "\<forall>k. cf t k = cf r' k + shiftf (Suc i) (cnv (cf xs) (cf b)) k"
      using Cons.IH [of "Suc i" r'] Cons.prems r'(2) by auto
    then show ?thesis using r' e by auto
  qed
qed simp

declare karatsubaMultiply.simps [simp del]

lemma karatsuba_short:
  assumes "length a \<le> 32" "a \<noteq> []" "length b = length a"
  shows "\<exists>c. karatsubaMultiply a b = Inr c \<and> length c = 2 * length a \<and> cf c = cnv (cf a) (cf b)"
proof -
  define r where "r = replicate (length a + length a) (0 :: 64 word)"
  have "cf r k = 0" for k by (simp add: r_def)
  moreover have "length r = length a + length a" by (simp add: r_def)
  ultimately obtain t where "school_loop 0 a b r = Inr t"
    "length t = length a + length a" "cf t = cnv (cf a) (cf b)"
    using school_loop_cf [of 0 a b r] assms by (auto simp: fun_eq_iff)
  then show ?thesis
    using assms r_def by (subst karatsubaMultiply.simps) (simp add: Let_def)
qed

text \<open>The three half-size products give the convolution.\<close>

lemma karatsuba_identity:
  fixes a1 a2 b1 b2 :: "nat \<Rightarrow> 'a::comm_ring_1"
  assumes "\<And>i. a i = a1 i + shiftf k a2 i" "\<And>i. b i = b1 i + shiftf k b2 i"
  shows "cnv a b j =
    shiftf k (\<lambda>i. cnv (\<lambda>i. a2 i + a1 i) (\<lambda>i. b2 i + b1 i) i - cnv a1 b1 i - cnv a2 b2 i) j +
    cnv a1 b1 j + shiftf (k + k) (cnv a2 b2) j"
proof -
  have "cnv a b j = cnv a1 b1 j + shiftf k (cnv a1 b2) j + shiftf k (cnv a2 b1) j +
      shiftf k (shiftf k (cnv a2 b2)) j"
  proof -
    have a: "a = (\<lambda>i. a1 i + shiftf k a2 i)" and b: "b = (\<lambda>i. b1 i + shiftf k b2 i)"
      using assms by auto
    have s: "cnv f (shiftf k b2) = shiftf k (cnv f b2)" for f by (rule ext) (rule cnv_shift_right)
    show ?thesis
      unfolding a b cnv_add_left cnv_add_right cnv_shift_left s by simp
  qed
  then show ?thesis
    by (simp add: shiftf_shiftf) (simp add: shiftf_def cnv_add_left cnv_add_right)
qed

lemma cf_take_drop: "k \<le> length xs \<Longrightarrow> cf xs j = cf (take k xs) j + shiftf k (cf (drop k xs)) j"
  using cf_append [of "take k xs" "drop k xs" j] by simp

lemma karatsuba_cnv:
  "length a = 2 ^ m \<Longrightarrow> length b = length a \<Longrightarrow>
     \<exists>c. karatsubaMultiply a b = Inr c \<and> length c = 2 * length a \<and> cf c = cnv (cf a) (cf b)"
proof (induction m arbitrary: a b)
  case 0
  then have "length a \<le> 32" "a \<noteq> []" by auto
  with 0 show ?case by (intro karatsuba_short)
next
  case (Suc m)
  show ?case
  proof (cases "length a \<le> 32")
    case True
    have "a \<noteq> []" using Suc.prems(1) by (metis length_0_conv power_not_zero zero_neq_numeral)
    with True Suc.prems show ?thesis by (intro karatsuba_short)
  next
    case False
    let ?k = "length a div 2"
    have k: "?k = 2 ^ m" "length a = ?k + ?k" using Suc.prems by auto
    let ?a1 = "take ?k a" and ?a2 = "drop ?k a" and ?b1 = "take ?k b" and ?b2 = "drop ?k b"
    have len: "length ?a1 = 2 ^ m" "length ?a2 = 2 ^ m" "length ?b1 = 2 ^ m" "length ?b2 = 2 ^ m"
      using k Suc.prems by auto
    obtain p where p: "karatsubaMultiply ?a1 ?b1 = Inr p" "length p = 2 * ?k" "cf p = cnv (cf ?a1) (cf ?b1)"
      using Suc.IH [of ?a1 ?b1] len k by auto
    obtain q where q: "karatsubaMultiply ?a2 ?b2 = Inr q" "length q = 2 * ?k" "cf q = cnv (cf ?a2) (cf ?b2)"
      using Suc.IH [of ?a2 ?b2] len k by auto
    obtain a' where a': "acc_at 0 ?a2 ?a1 = Inr a'" "length a' = length ?a2"
      "\<forall>k. cf a' k = cf ?a2 k + cf ?a1 k" using acc_at_cf [of 0 ?a1 ?a2] len by auto
    obtain b' where b': "acc_at 0 ?b2 ?b1 = Inr b'" "length b' = length ?b2"
      "\<forall>k. cf b' k = cf ?b2 k + cf ?b1 k" using acc_at_cf [of 0 ?b1 ?b2] len by auto
    obtain r where r: "karatsubaMultiply a' b' = Inr r" "length r = 2 * ?k" "cf r = cnv (cf a') (cf b')"
      using Suc.IH [of a' b'] len a'(2) b'(2) k by auto
    obtain r1 where r1: "acc_at 0 r (map uminus p) = Inr r1" "length r1 = length r"
      "\<forall>k. cf r1 k = cf r k - cf p k"
      using acc_at_cf [of 0 "map uminus p" r] p r by (auto simp: cf_map_uminus)
    obtain r2 where r2: "acc_at 0 r1 (map uminus q) = Inr r2" "length r2 = length r1"
      "\<forall>k. cf r2 k = cf r1 k - cf q k"
      using acc_at_cf [of 0 "map uminus q" r1] q r r1 by (auto simp: cf_map_uminus)
    let ?z = "replicate (length a + length a) (0 :: 64 word)"
    obtain s1 where s1: "acc_at ?k ?z r2 = Inr s1" "length s1 = length ?z"
      "\<forall>j. cf s1 j = shiftf ?k (cf r2) j"
      using acc_at_cf [of ?k r2 ?z] r r1 r2 k by auto
    obtain s2 where s2: "acc_at 0 s1 p = Inr s2" "length s2 = length s1" "\<forall>k. cf s2 k = cf s1 k + cf p k"
      using acc_at_cf [of 0 p s1] p s1 k by auto
    obtain s3 where s3: "acc_at (length a) s2 q = Inr s3" "length s3 = length s2"
      "\<forall>k. cf s3 k = cf s2 k + shiftf (length a) (cf q) k"
      using acc_at_cf [of "length a" q s2] q s1 s2 k by auto
    have "cf s3 j = cnv (cf a) (cf b) j" for j
    proof -
      have ab: "cf a' = (\<lambda>i. cf ?a2 i + cf ?a1 i)" "cf b' = (\<lambda>i. cf ?b2 i + cf ?b1 i)"
        using a' b' by auto
      have e2: "cf r2 = (\<lambda>i. cnv (cf a') (cf b') i - cnv (cf ?a1) (cf ?b1) i - cnv (cf ?a2) (cf ?b2) i)"
        using r(3) r1(3) r2(3) p(3) q(3) by auto
      have "cf s3 j = shiftf ?k (cf r2) j + cnv (cf ?a1) (cf ?b1) j + shiftf (?k + ?k) (cnv (cf ?a2) (cf ?b2)) j"
        using s1(3) s2(3) s3(3) p(3) q(3) k(2) by simp
      also have "\<dots> = cnv (cf a) (cf b) j"
        unfolding e2 ab
        by (rule karatsuba_identity [symmetric]) (use Suc.prems in \<open>auto intro: cf_take_drop\<close>)
      finally show ?thesis .
    qed
    moreover have "karatsubaMultiply a b = Inr s3"
      using False Suc.prems p(1) q(1) a'(1) b'(1) r(1) r1(1) r2(1) s1(1) s2(1) s3(1)
      by (subst karatsubaMultiply.simps) (simp add: Let_def)
    ultimately show ?thesis using s1(2) s2(2) s3(2) by auto
  qed
qed

end
