(* ===== verification/Bigint_Prod.thy ===== *)
theory Bigint_Prod
  imports Bigint_Kar
begin

text \<open>
  \<open>operator*\<close> is exact for operands of up to 1365 base \<open>10 ^ 9\<close> digits (2048 digits in base
  \<open>10 ^ 6\<close>): beyond, the \<open>int\<close> carry of the last loop can overflow. \<open>operator^\<close> raises to
  the absolute value of the exponent while its squares stay in that range.
\<close>

section \<open>Digit lists in any base\<close>

fun bdval :: "int \<Rightarrow> int list \<Rightarrow> int" where
  "bdval B [] = 0"
| "bdval B (d # ds) = d + B * bdval B ds"

definition in_base :: "int \<Rightarrow> int list \<Rightarrow> bool" where
  "in_base B ds \<longleftrightarrow> (\<forall>d\<in>set ds. 0 \<le> d \<and> d < B)"

lemma in_base_simps [simp]:
  "in_base B []" "in_base B (d # ds) \<longleftrightarrow> 0 \<le> d \<and> d < B \<and> in_base B ds"
  "in_base B (ds @ es) \<longleftrightarrow> in_base B ds \<and> in_base B es"
  by (auto simp: in_base_def)

lemma bdval_base: "bdval base = dval" "in_base base = digits_ok"
proof -
  have "bdval base ds = dval ds" for ds by (induction ds) auto
  then show "bdval base = dval" by auto
  show "in_base base = digits_ok" by (auto simp: fun_eq_iff in_base_def digits_ok_def)
qed

lemma bdval_append: "bdval B (ds @ es) = bdval B ds + B ^ length ds * bdval B es"
  by (induction ds) (auto simp: algebra_simps)

lemma bdval_trim [simp]: "bdval B (trim_digits ds) = bdval B ds"
proof (induction ds rule: rev_induct)
  case (snoc d ds)
  then show ?case by (cases "d = 0") (simp_all add: trim_digits_def bdval_append)
qed (simp add: trim_digits_def)

lemma in_base_trim: "in_base B ds \<Longrightarrow> in_base B (trim_digits ds)"
  by (auto simp: trim_digits_def in_base_def dest: set_dropWhileD)

lemma bdval_nonneg: "in_base B ds \<Longrightarrow> 0 \<le> B \<Longrightarrow> 0 \<le> bdval B ds"
  by (induction ds) auto

lemma bdval_upper: "in_base B ds \<Longrightarrow> 0 < B \<Longrightarrow> bdval B ds < B ^ length ds"
proof (induction ds)
  case (Cons d ds)
  then have "B * (bdval B ds + 1) \<le> B * B ^ length ds" by (intro mult_left_mono) auto
  with Cons.prems show ?case by (simp add: algebra_simps)
qed simp

lemma bdval_trimmed_lower:
  assumes "in_base B ds" "trimmed ds" "ds \<noteq> []" "0 < B"
  shows "B ^ (length ds - 1) \<le> bdval B ds"
proof -
  have e: "ds = butlast ds @ [last ds]" using assms by simp
  have i: "in_base B (butlast ds)" using assms(1) by (auto simp: in_base_def dest: in_set_butlastD)
  have "0 \<le> last ds" "last ds \<noteq> 0" using assms last_in_set [of ds] by (auto simp: in_base_def trimmed_def)
  then have "B ^ (length ds - 1) * 1 \<le> B ^ (length ds - 1) * last ds"
    using assms by (intro mult_left_mono) auto
  moreover have "bdval B ds = bdval B (butlast ds) + B ^ (length ds - 1) * last ds"
    using bdval_append [of B "butlast ds" "[last ds]"] assms(3) by simp
  moreover have "0 \<le> bdval B (butlast ds)" using bdval_nonneg [OF i] assms by simp
  ultimately show ?thesis by linarith
qed

section \<open>Conversion between bases\<close>

lemma pow10_val: "i \<le> 18 \<Longrightarrow> pow10 i = 10 ^ i"
proof (induction i)
  case (Suc i)
  then have "(10 :: int) ^ Suc i \<le> 10 ^ 18" by (intro power_increasing) auto
  then have "i64 (10 ^ i * 10) = 10 ^ i * (10 :: int)" by (intro i64_nonneg) (auto simp: mult.commute)
  with Suc show ?case by simp
qed simp

lemma pow10_le: "nd \<le> 9 \<Longrightarrow> (10 :: int) ^ nd \<le> 1000000000"
  using power_increasing [of nd 9 "10 :: int"] by simp

declare conv_inner.simps [simp del]

lemma conv_inner_val:
  assumes nd: "0 < nd" "nd \<le> 9"
  shows "0 \<le> cur \<Longrightarrow> cur < 10 ^ cd \<Longrightarrow> conv_inner nd cur cd = (ds, cur', cd') \<Longrightarrow>
     cd' < nd \<and> cd = cd' + nd * length ds \<and> 0 \<le> cur' \<and> cur' < 10 ^ cd' \<and> in_base (10 ^ nd) ds \<and>
     bdval (10 ^ nd) ds + 10 ^ (nd * length ds) * cur' = cur"
proof (induction cd arbitrary: cur ds cur' cd' rule: less_induct)
  case (less cd)
  let ?M = "10 ^ nd :: int"
  have p: "pow10 nd = ?M" using nd by (intro pow10_val) auto
  show ?case
  proof (cases "nd \<le> cd")
    case True
    have m: "0 \<le> cur mod ?M" "cur mod ?M < ?M" by auto
    then have "i32 (cur mod ?M) = cur mod ?M" using pow10_le [OF nd(2)] by (intro i32_num) linarith+
    then have i: "i32 (cmod cur ?M) = cur mod ?M" using less.prems(1) by simp
    obtain es where es: "conv_inner nd (cur div ?M) (cd - nd) = (es, cur', cd')" "ds = cur mod ?M # es"
      using less.prems(1,3) True nd i
      by (subst (asm) conv_inner.simps) (auto simp: p Let_def split: prod.splits)
    have "(10 :: int) ^ cd = 10 ^ (cd - nd) * ?M" using True by (simp flip: power_add)
    then have "cur div ?M < 10 ^ (cd - nd)" using less.prems(2) by (intro zdiv_lessI) auto
    moreover have "0 \<le> cur div ?M" using less.prems(1) by (simp add: pos_imp_zdiv_nonneg_iff)
    moreover have "cd - nd < cd" using True nd by simp
    ultimately have IH: "cd' < nd" "cd - nd = cd' + nd * length es" "0 \<le> cur'" "cur' < 10 ^ cd'"
      "in_base ?M es" "bdval ?M es + 10 ^ (nd * length es) * cur' = cur div ?M"
      using less.IH [of "cd - nd" "cur div ?M" es cur' cd'] es(1) by auto
    have "bdval ?M ds + 10 ^ (nd * length ds) * cur' =
        cur mod ?M + ?M * (bdval ?M es + 10 ^ (nd * length es) * cur')"
      by (simp add: es(2) algebra_simps power_add)
    also have "\<dots> = cur" unfolding IH(6) by simp
    finally show ?thesis using IH es(2) m True by simp
  next
    case False
    then have "ds = []" "cur' = cur" "cd' = cd" using less.prems(3) by (auto simp: conv_inner.simps)
    then show ?thesis using False less.prems by simp
  qed
qed

lemma conv_loop_val:
  assumes nd: "0 < nd" "nd \<le> 9" and od: "od \<le> 9"
  shows "in_base (10 ^ od) xs \<Longrightarrow> 0 \<le> cur \<Longrightarrow> cur < 10 ^ cd \<Longrightarrow> cd < nd \<Longrightarrow>
     bdval (10 ^ nd) (conv_loop od nd xs cur cd) = cur + 10 ^ cd * bdval (10 ^ od) xs \<and>
     in_base (10 ^ nd) (conv_loop od nd xs cur cd)"
proof (induction xs arbitrary: cur cd)
  case Nil
  have "(10 :: int) ^ cd \<le> 10 ^ nd" using Nil by (intro power_increasing) auto
  then have c: "cur < 10 ^ nd" using Nil by linarith
  then have "i32 cur = cur" using pow10_le [OF nd(2)] Nil by (intro i32_num) linarith+
  then show ?case using Nil c by simp
next
  case (Cons x xs)
  have x: "0 \<le> x" "x < 10 ^ od" "in_base (10 ^ od) xs" using Cons.prems by auto
  have p: "pow10 cd = 10 ^ cd" using Cons.prems nd by (intro pow10_val) auto
  have "x * 10 ^ cd \<le> (10 ^ od - 1) * 10 ^ cd" using x by (intro mult_right_mono) auto
  also have "\<dots> = 10 ^ (cd + od) - 10 ^ cd" by (simp add: algebra_simps power_add)
  finally have lt: "cur + x * 10 ^ cd < 10 ^ (cd + od)" using Cons.prems by linarith
  have "(10 :: int) ^ (cd + od) \<le> 10 ^ 17" using Cons.prems nd od by (intro power_increasing) auto
  moreover have xn: "0 \<le> x * 10 ^ cd" using x by simp
  ultimately have i: "i64 (cur + i64 (x * pow10 cd)) = cur + x * 10 ^ cd"
    using lt Cons.prems unfolding p by simp
  obtain ds cur' cd' where c: "conv_inner nd (cur + x * 10 ^ cd) (cd + od) = (ds, cur', cd')"
    by (metis prod_cases3)
  have v: "cd' < nd" "cd + od = cd' + nd * length ds" "0 \<le> cur'" "cur' < 10 ^ cd'"
    "in_base (10 ^ nd) ds" "bdval (10 ^ nd) ds + 10 ^ (nd * length ds) * cur' = cur + x * 10 ^ cd"
    using conv_inner_val [OF nd _ lt c] Cons.prems xn by auto
  have IH: "bdval (10 ^ nd) (conv_loop od nd xs cur' cd') = cur' + 10 ^ cd' * bdval (10 ^ od) xs"
    "in_base (10 ^ nd) (conv_loop od nd xs cur' cd')" using Cons.IH [OF x(3) v(3,4,1)] by auto
  have "bdval (10 ^ nd) (ds @ conv_loop od nd xs cur' cd') =
      (bdval (10 ^ nd) ds + 10 ^ (nd * length ds) * cur') + 10 ^ (cd' + nd * length ds) * bdval (10 ^ od) xs"
    unfolding bdval_append IH(1) by (simp add: power_mult power_add algebra_simps)
  also have "\<dots> = cur + 10 ^ cd * bdval (10 ^ od) (x # xs)"
    unfolding v(6) v(2) [symmetric] by (simp add: power_add algebra_simps)
  finally show ?case using c i v(5) IH(2) by simp
qed

lemma convert_base_val:
  assumes "in_base (10 ^ od) a" "0 < nd" "nd \<le> 9" "od \<le> 9"
  shows "bdval (10 ^ nd) (convert_base a od nd) = bdval (10 ^ od) a"
    "in_base (10 ^ nd) (convert_base a od nd)" "trimmed (convert_base a od nd)"
  using conv_loop_val [OF assms(2,3,4,1), of 0 0] assms(2)
  by (auto simp: convert_base_def trim_digits_trimmed intro: in_base_trim)

section \<open>Evaluation of a convolution\<close>

definition ev :: "nat \<Rightarrow> (nat \<Rightarrow> int) \<Rightarrow> int \<Rightarrow> int" where
  "ev n f X = (\<Sum>k<n. f k * X ^ k)"

lemma ev_Suc_shift: "ev (Suc n) f X = f 0 + X * ev n (\<lambda>k. f (Suc k)) X"
  by (simp add: ev_def sum.lessThan_Suc_shift sum_distrib_left mult.left_commute del: sum.lessThan_Suc)

lemma ev_cf: "length xs \<le> n \<Longrightarrow> ev n (cf xs) X = bdval X xs"
proof (induction xs arbitrary: n)
  case Nil
  then show ?case by (simp add: ev_def)
next
  case (Cons x xs)
  then obtain m where n: "n = Suc m" "length xs \<le> m" by (cases n) auto
  have "(\<lambda>k. cf (x # xs) (Suc k)) = cf xs" by (rule ext) (simp add: cf_Cons)
  then show ?case using Cons.IH [OF n(2)] by (simp add: n(1) ev_Suc_shift cf_Cons)
qed

lemma ev_linear: "ev n (\<lambda>k. x * f k + g k) X = x * ev n f X + ev n g X"
  by (simp add: ev_def distrib_right sum.distrib sum_distrib_left mult.assoc)

lemma ev_shift: "ev (Suc n) (shiftf 1 f) X = X * ev n f X"
  by (simp add: ev_Suc_shift shiftf_def)

lemma ev_cnv: "length xs + length ys \<le> n \<Longrightarrow> ev n (cnv (cf xs) (cf ys)) X = bdval X xs * bdval X ys"
proof (induction xs arbitrary: n)
  case Nil
  then show ?case by (simp add: ev_def cnv_def)
next
  case (Cons x xs)
  then obtain m where n: "n = Suc m" "length xs + length ys \<le> m" by (cases n) auto
  have "cnv (cf (x # xs)) (cf ys) = (\<lambda>k. x * cf ys k + shiftf 1 (cnv (cf xs) (cf ys)) k)"
    by (rule ext) (rule cnv_cf_Cons)
  then have "ev n (cnv (cf (x # xs)) (cf ys)) X = x * ev n (cf ys) X + X * ev m (cnv (cf xs) (cf ys)) X"
    by (simp only: ev_linear n(1) ev_shift)
  also have "ev n (cf ys) X = bdval X ys" using n by (intro ev_cf) simp
  also have "ev m (cnv (cf xs) (cf ys)) X = bdval X xs * bdval X ys" by (rule Cons.IH [OF n(2)])
  finally show ?case by (simp add: algebra_simps)
qed

lemma cnv_bound:
  fixes xs ys :: "int list"
  assumes "in_base B xs" "in_base B ys" "length xs \<le> K" "0 < B"
  shows "0 \<le> cnv (cf xs) (cf ys) k" "cnv (cf xs) (cf ys) k \<le> int K * ((B - 1) * (B - 1))"
proof -
  have r: "0 \<le> cf zs i \<and> cf zs i \<le> B - 1" if "in_base B zs" for zs i
    using that assms(4) by (auto simp: cf_def in_base_def dest: nth_mem)
  have t: "0 \<le> cf xs i * cf ys j" "cf xs i * cf ys j \<le> (B - 1) * (B - 1)" for i j
    using r [OF assms(1), of i] r [OF assms(2), of j] by (auto intro: mult_mono)
  show "0 \<le> cnv (cf xs) (cf ys) k" unfolding cnv_def by (rule sum_nonneg) (rule t)
  have "cnv (cf xs) (cf ys) k = (\<Sum>i\<in>{..k} \<inter> {..<length xs}. cf xs i * cf ys (k - i))"
    unfolding cnv_def by (rule sum.mono_neutral_right) (auto simp: cf_def)
  also have "\<dots> \<le> of_nat (card ({..k} \<inter> {..<length xs})) * ((B - 1) * (B - 1))"
    by (rule sum_bounded_above) (rule t)
  also have "\<dots> \<le> int K * ((B - 1) * (B - 1))"
  proof (rule mult_right_mono)
    have "card ({..k} \<inter> {..<length xs}) \<le> card {..<length xs}" by (rule card_mono) auto
    then show "int (card ({..k} \<inter> {..<length xs})) \<le> int K" using assms(3) by simp
  qed (use assms(4) in simp)
  finally show "cnv (cf xs) (cf ys) k \<le> int K * ((B - 1) * (B - 1))" .
qed

section \<open>The carry loop\<close>

text \<open>Coefficients up to \<open>2048 * (10 ^ 6 - 1) ^ 2\<close> keep the carry within an \<open>int\<close>.\<close>

lemma carry_loop_val:
  "\<forall>c\<in>set cs. 0 \<le> sint c \<and> sint c \<le> 2048 * (999999 * 999999) \<Longrightarrow> 0 \<le> carry \<Longrightarrow> carry \<le> 2048000000 \<Longrightarrow>
     length (carry_loop cs carry) = length cs \<and> in_base 1000000 (carry_loop cs carry) \<and>
     (\<exists>fc\<ge>0. bdval 1000000 (carry_loop cs carry) + 1000000 ^ length cs * fc =
       bdval 1000000 (map sint cs) + carry)"
proof (induction cs arbitrary: carry)
  case (Cons c cs)
  let ?cur = "sint c + carry" and ?M = "1000000 :: int"
  have b: "0 \<le> ?cur" "?cur \<le> 2047997952002048" using Cons.prems by auto
  have q: "0 \<le> ?cur div ?M" "?cur div ?M \<le> 2048000000" using b by linarith+
  have i: "i64 ?cur = ?cur" "i32 (cmod ?cur ?M) = ?cur mod ?M" "i32 (cdiv ?cur ?M) = ?cur div ?M"
    using b q by simp_all
  obtain fc where IH: "length (carry_loop cs (?cur div ?M)) = length cs"
    "in_base ?M (carry_loop cs (?cur div ?M))" "0 \<le> fc"
    "bdval ?M (carry_loop cs (?cur div ?M)) + ?M ^ length cs * fc = bdval ?M (map sint cs) + ?cur div ?M"
    using Cons.IH [OF _ q] Cons.prems(1) by auto
  have "bdval ?M (carry_loop (c # cs) carry) + ?M ^ length (c # cs) * fc =
      ?cur mod ?M + ?M * (bdval ?M (carry_loop cs (?cur div ?M)) + ?M ^ length cs * fc)"
    using i by (simp add: Let_def algebra_simps)
  also have "\<dots> = bdval ?M (map sint (c # cs)) + carry"
    unfolding IH(4) by (simp add: algebra_simps)
  finally show ?case using IH i by (auto simp: Let_def)
qed (auto intro: exI [of _ 0])

section \<open>The product\<close>

lemma cf_pad_words: "length ds \<le> n \<Longrightarrow> cf (pad_words n ds) k = of_int (cf ds k)"
  by (auto simp: pad_words_def cf_def nth_append)

lemma cnv_of_int: "cnv (\<lambda>i. of_int (f i) :: 64 word) (\<lambda>i. of_int (g i)) k = of_int (cnv f g k)"
  by (simp add: cnv_def)

lemma sint_of_int_id: "- (2 ^ 63) \<le> x \<Longrightarrow> x < 2 ^ 63 \<Longrightarrow> sint (of_int x :: 64 word) = x"
  using sint_sbintrunc' [where 'a = 64, of x] by (simp add: signed_take_bit_int_eq_self)

declare pad_pow2.simps [simp del]

lemma power_of_two_iff: "and n (n - 1) = 0 \<Longrightarrow> n \<noteq> 0 \<Longrightarrow> \<exists>m. n = 2 ^ m" for n :: nat
proof (induction n rule: less_induct)
  case (less n)
  show ?case
  proof (cases "even n")
    case True
    then obtain k where k: "n = 2 * k" by (elim evenE)
    have "k \<noteq> 0" using less.prems k by simp
    have "2 * k - 1 = 2 * (k - 1) + 1" using \<open>k \<noteq> 0\<close> by simp
    then have "and (2 * k) (2 * k - 1) = 2 * and k (k - 1)"
      by (simp only: and_rec [of "2 * k"]) simp
    then have "and k (k - 1) = 0" using less.prems k by simp
    then obtain m where "k = 2 ^ m" using less.IH [of k] \<open>k \<noteq> 0\<close> k by auto
    then have "n = 2 ^ Suc m" using k by simp
    then show ?thesis by blast
  next
    case False
    then obtain k where k: "n = 2 * k + 1" by (elim oddE)
    then have "and n (n - 1) = 2 * and k k" by (simp add: and_rec [of "2 * k + 1"] and_rec [of "Suc (2 * k)"])
    then have "k = 0" using less.prems by simp
    then have "n = 2 ^ 0" using k by simp
    then show ?thesis by blast
  qed
qed

lemma pad_pow2_ok: "n \<le> pad_pow2 n \<and> (pad_pow2 n = 0 \<longleftrightarrow> n = 0) \<and> and (pad_pow2 n) (pad_pow2 n - 1) = 0"
proof (induction n rule: pad_pow2.induct)
  case (1 n)
  show ?case
  proof (cases "and n (n - 1) = 0")
    case True
    then show ?thesis by (simp add: pad_pow2.simps)
  next
    case False
    then have e: "pad_pow2 n = pad_pow2 (Suc n)" by (subst pad_pow2.simps) simp
    have "n \<noteq> 0" using False by (cases n) auto
    then show ?thesis unfolding e using 1(1) [OF False] by simp
  qed
qed

lemma pad_pow2_le: "n \<le> 2 ^ m \<Longrightarrow> pad_pow2 n \<le> 2 ^ m"
proof (induction n rule: pad_pow2.induct)
  case (1 n)
  show ?case
  proof (cases "and n (n - 1) = 0")
    case True
    then show ?thesis using 1(2) by (simp add: pad_pow2.simps)
  next
    case False
    then have "n \<noteq> 2 ^ m" using and_pred_power [of m] by metis
    then have "pad_pow2 (Suc n) \<le> 2 ^ m" using 1(1) [OF False] 1(2) by simp
    then show ?thesis using False by (subst pad_pow2.simps) simp
  qed
qed

text \<open>The digits of an operand in base \<open>10 ^ 6\<close>: as many as the value needs.\<close>

lemma convert_operand:
  assumes "digits_ok a" "length a \<le> 1365"
  shows "bdval 1000000 (convert_base a base_digits 6) = dval a"
    "in_base 1000000 (convert_base a base_digits 6)" "length (convert_base a base_digits 6) \<le> 2048"
proof -
  let ?c = "convert_base a base_digits 6"
  have ten: "(10 :: int) ^ base_digits = base" "(10 :: int) ^ 6 = 1000000"
    by (simp_all add: base_digits_def base_def)
  have bd: "base_digits \<le> 9" by (simp add: base_digits_def)
  note c = convert_base_val [of base_digits a 6, unfolded ten bdval_base, OF assms(1) _ _ bd, simplified]
  show v: "bdval 1000000 ?c = dval a" and ib: "in_base 1000000 ?c" using c by auto
  show "length ?c \<le> 2048"
  proof (cases "?c = []")
    case False
    have "(10 :: int) ^ (6 * (length ?c - 1)) = 1000000 ^ (length ?c - 1)" by (simp add: power_mult)
    also have "\<dots> \<le> dval a" using bdval_trimmed_lower [OF ib c(3) False] v by simp
    also have "\<dots> < base ^ length a" by (rule dval_upper [OF assms(1)])
    also have "\<dots> = 10 ^ (9 * length a)" by (simp add: base_def power_mult)
    finally have "6 * (length ?c - 1) < 9 * length a" by (rule power_less_imp_less_exp [rotated]) simp
    then show ?thesis using assms(2) by linarith
  qed simp
qed

text \<open>Karatsuba on the padded operands yields the exact coefficients of the product.\<close>

lemma kar_exact:
  assumes a: "in_base 1000000 a" "length a \<le> 2048" and b: "in_base 1000000 b" "length b \<le> 2048"
    and n: "n = pad_pow2 (max (length a) (length b))"
  shows "\<exists>c. karatsubaMultiply (pad_words n a) (pad_words n b) = Inr c \<and>
     length a + length b \<le> length c \<and> bdval 1000000 (map sint c) = bdval 1000000 a * bdval 1000000 b \<and>
     (\<forall>x\<in>set c. 0 \<le> sint x \<and> sint x \<le> 2048 * (999999 * 999999))"
proof (cases "n = 0")
  case True
  then have "a = []" "b = []" using pad_pow2_ok [of "max (length a) (length b)"] n by auto
  then show ?thesis using True by (simp add: pad_words_def karatsubaMultiply.simps)
next
  case False
  have le: "length a \<le> n" "length b \<le> n" using pad_pow2_ok [of "max (length a) (length b)"] n by auto
  obtain m where m: "n = 2 ^ m"
    using power_of_two_iff [of n] pad_pow2_ok [of "max (length a) (length b)"] n False by auto
  have lp: "length (pad_words n a) = n" "length (pad_words n b) = n" using le by (auto simp: pad_words_def)
  obtain c where c: "karatsubaMultiply (pad_words n a) (pad_words n b) = Inr c" "length c = 2 * n"
    "cf c = cnv (cf (pad_words n a)) (cf (pad_words n b))"
    using karatsuba_cnv [of "pad_words n a" m "pad_words n b"] lp m by auto
  have co: "cf c k = of_int (cnv (cf a) (cf b) k)" for k
    unfolding c(3) cf_pad_words [OF le(1), abs_def] cf_pad_words [OF le(2), abs_def] by (rule cnv_of_int)
  have bd: "0 \<le> cnv (cf a) (cf b) k" "cnv (cf a) (cf b) k \<le> 2048 * (999999 * 999999)" for k
    using cnv_bound [OF a(1) b(1) a(2), of k] by auto
  have si: "sint (cf c k) = cnv (cf a) (cf b) k" for k
    unfolding co using bd [of k] by (intro sint_of_int_id) auto
  have "cf (map sint c) k = cnv (cf a) (cf b) k" if "k < 2 * n" for k
    using si [of k] that c(2) by (simp add: cf_def)
  then have "ev (2 * n) (cf (map sint c)) 1000000 = ev (2 * n) (cnv (cf a) (cf b)) 1000000"
    unfolding ev_def by (intro sum.cong) auto
  then have "bdval 1000000 (map sint c) = bdval 1000000 a * bdval 1000000 b"
    using ev_cf [of "map sint c" "2 * n" 1000000] ev_cnv [of a b "2 * n" 1000000] c(2) le by simp
  moreover have "0 \<le> sint x \<and> sint x \<le> 2048 * (999999 * 999999)" if x: "x \<in> set c" for x
  proof -
    obtain k where "k < length c" "c ! k = x" using x by (auto simp: in_set_conv_nth)
    then have "x = cf c k" by (simp add: cf_def)
    then show ?thesis using si [of k] bd [of k] by simp
  qed
  ultimately show ?thesis using c le by auto
qed

lemma big_mul_ok:
  assumes x: "big_wf x" "length (big_a x) \<le> 1365" and y: "big_wf y" "length (big_a y) \<le> 1365"
  shows "\<exists>r. big_mul x y = Inr r \<and> big_ok r \<and> bval r = bval x * bval y"
proof -
  let ?a = "convert_base (big_a x) base_digits 6" and ?b = "convert_base (big_a y) base_digits 6"
  let ?n = "pad_pow2 (max (length ?a) (length ?b))" and ?M = "1000000 :: int"
  have d: "digits_ok (big_a x)" "digits_ok (big_a y)" using x y by (auto simp: big_wf_def)
  note ca = convert_operand [OF d(1) x(2)] and cb = convert_operand [OF d(2) y(2)]
  obtain c where c: "karatsubaMultiply (pad_words ?n ?a) (pad_words ?n ?b) = Inr c"
    "length ?a + length ?b \<le> length c" "bdval ?M (map sint c) = bdval ?M ?a * bdval ?M ?b"
    "\<forall>x\<in>set c. 0 \<le> sint x \<and> sint x \<le> 2048 * (999999 * 999999)"
    using kar_exact [OF ca(2,3) cb(2,3) refl] by blast
  let ?r = "carry_loop c 0"
  obtain fc where r: "length ?r = length c" "in_base ?M ?r" "0 \<le> fc"
    "bdval ?M ?r + ?M ^ length c * fc = bdval ?M ?a * bdval ?M ?b"
    using carry_loop_val [OF c(4), of 0] c(3) by auto
  have "bdval ?M ?a * bdval ?M ?b < ?M ^ length ?a * ?M ^ length ?b"
    using bdval_upper [OF ca(2)] bdval_upper [OF cb(2)] bdval_nonneg [OF ca(2)] bdval_nonneg [OF cb(2)]
    by (intro mult_strict_mono') auto
  also have "\<dots> \<le> ?M ^ length c" using c(2) by (simp flip: power_add)
  finally have "?M ^ length c * fc < ?M ^ length c * 1"
    using r(4) bdval_nonneg [OF r(2)] by linarith
  then have "fc = 0" using r(3) by (simp add: mult_less_cancel_left)
  then have rv: "bdval ?M ?r = dval (big_a x) * dval (big_a y)" using r(4) ca cb by simp
  let ?d = "convert_base ?r 6 base_digits"
  have ten: "(10 :: int) ^ base_digits = base" "(10 :: int) ^ 6 = ?M"
    by (simp_all add: base_digits_def base_def)
  have dd: "dval ?d = dval (big_a x) * dval (big_a y)" "digits_ok ?d"
    using convert_base_val [of 6 ?r base_digits, unfolded ten bdval_base] r(2) rv
    by (auto simp: base_digits_def)
  have s: "big_sign x = 1 \<or> big_sign x = -1" "big_sign y = 1 \<or> big_sign y = -1"
    using x y by (auto simp: big_wf_def)
  then have ss: "i32 (big_sign x * big_sign y) = big_sign x * big_sign y" by auto
  let ?res = "big_trim \<lparr>big_a = ?d, big_sign = i32 (big_sign x * big_sign y)\<rparr>"
  have "big_mul x y = Inr ?res" by (simp only: big_mul_def Let_def c(1) bindr_simps)
  moreover have "big_ok ?res" using dd s by (intro big_trim_ok) auto
  moreover have "bval ?res = bval x * bval y"
    unfolding big_trim_val using dd ss by (simp add: bval_def)
  ultimately show ?thesis by blast
qed

section \<open>Powers\<close>

text \<open>
  The exponent is halved towards zero each round, so its sign plays no role; the base is
  squared once more than needed, and all squares have to stay in the range of \<open>operator*\<close>.
\<close>

lemma small_length: "big_ok z \<Longrightarrow> \<bar>bval z\<bar> < base ^ 1365 \<Longrightarrow> length (big_a z) \<le> 1365"
  by (rule length_le_val) (auto simp: big_ok_wf)

lemma pow_half:
  fixes a :: int
  assumes "e \<noteq> 0"
  shows "a ^ e = (if odd e then a else 1) * (a * a) ^ (e div 2)"
proof -
  have "e = 2 * (e div 2) + (if odd e then 1 else 0)" by simp
  then have "a ^ e = a ^ (2 * (e div 2)) * a ^ (if odd e then 1 else 0)" by (metis power_add)
  then show ?thesis by (simp add: power_mult power2_eq_square mult.commute)
qed

lemma pow_bounds:
  fixes A S N :: int
  assumes "0 \<le> A" "0 \<le> S" "S < N" "A ^ e < N" "S * A ^ e < N" "e \<noteq> 0" "1 < N"
  shows "A < N" "S * (if odd e then A else 1) < N" "(A * A) ^ (e div 2) < N"
proof -
  have le: "A \<le> A ^ e" "1 \<le> A \<Longrightarrow> (A * A) ^ (e div 2) \<le> A ^ e"
    using assms(1,6) power_increasing [of 1 e A] power_increasing [of "2 * (e div 2)" e A]
    by (cases "A = 0"; auto simp: power_mult power2_eq_square)+
  show "A < N" using le(1) assms(4) by linarith
  show "S * (if odd e then A else 1) < N"
    using mult_left_mono [OF le(1) assms(2)] assms by auto
  show "(A * A) ^ (e div 2) < N"
    using le(2) assms by (cases "A = 0"; cases "e div 2") auto
qed

lemma pow_loop_ok:
  "big_ok ans \<Longrightarrow> big_ok a \<Longrightarrow> big_ok b \<Longrightarrow> \<bar>bval ans\<bar> < base ^ 1365 \<Longrightarrow>
     \<bar>bval a\<bar> ^ nat \<bar>bval b\<bar> < base ^ 1365 \<Longrightarrow> \<bar>bval ans\<bar> * \<bar>bval a\<bar> ^ nat \<bar>bval b\<bar> < base ^ 1365 \<Longrightarrow>
     \<exists>r. pow_loop ans a b = ret r \<and> big_ok r \<and> bval r = bval ans * bval a ^ nat \<bar>bval b\<bar>"
proof (induction "nat \<bar>bval b\<bar>" arbitrary: ans a b rule: less_induct)
  case less
  let ?e = "nat \<bar>bval b\<bar>" and ?A = "bval a" and ?S = "bval ans"
  show ?case
  proof (cases "bval b = 0")
    case True
    then have "isZero b" using less.prems by (simp add: isZero_iff big_ok_wf)
    then show ?thesis using less.prems True by (subst pow_loop.simps) simp
  next
    case False
    then have e0: "?e \<noteq> 0" "\<not> isZero b" using less.prems by (auto simp: isZero_iff big_ok_wf)
    have N1: "1 < base ^ 1365" by (rule one_less_power) auto
    note bd = pow_bounds [OF abs_ge_zero abs_ge_zero less.prems(4,5,6) e0(1) N1]
    have m: "big_mod_int b 2 = Inr (cmod (bval b) 2)"
      using less.prems by (intro big_mod_int_ok) (auto simp: big_ok_wf)
    have odd: "cmod (bval b) 2 \<noteq> 0 \<longleftrightarrow> odd ?e"
      by (cases "0 \<le> bval b") (auto simp: cmod_def cdiv_def even_nat_iff sgn_if, presburger+)
    obtain b' where b': "big_div_int b 2 = Inr b'" "bval b' = cdiv (bval b) 2" "big_ok b'"
      using big_div_int_ok [of b 2] less.prems by (auto simp: big_ok_wf)
    have e': "nat \<bar>bval b'\<bar> = ?e div 2" unfolding b'(2) abs_cdiv by (simp add: nat_div_distrib)
    have la: "length (big_a a) \<le> 1365" "length (big_a ans) \<le> 1365"
      using small_length less.prems bd by auto
    obtain a' where a': "big_mul a a = Inr a'" "big_ok a'" "bval a' = ?A * ?A"
      using big_mul_ok [OF _ la(1) _ la(1)] less.prems by (auto simp: big_ok_wf)
    obtain ans' where ans': "(if cmod (bval b) 2 \<noteq> 0 then Some (big_mul ans a) else ret ans) = ret ans'"
      "big_ok ans'" "bval ans' = ?S * (if odd ?e then ?A else 1)"
      using big_mul_ok [OF _ la(2) _ la(1)] less.prems odd by (auto simp: big_ok_wf)
    have A2: "\<bar>bval a'\<bar> = \<bar>?A\<bar> * \<bar>?A\<bar>" by (simp add: a'(3) abs_mult)
    have S2: "\<bar>bval ans'\<bar> = \<bar>?S\<bar> * (if odd ?e then \<bar>?A\<bar> else 1)" by (simp add: ans'(3) abs_mult)
    have "\<bar>bval ans'\<bar> * \<bar>bval a'\<bar> ^ nat \<bar>bval b'\<bar> = \<bar>?S\<bar> * \<bar>?A\<bar> ^ ?e"
      unfolding A2 S2 e' pow_half [OF e0(1), of "\<bar>?A\<bar>"] by simp
    then have h3: "\<bar>bval ans'\<bar> * \<bar>bval a'\<bar> ^ nat \<bar>bval b'\<bar> < base ^ 1365"
      using less.prems(6) by simp
    have h1: "\<bar>bval ans'\<bar> < base ^ 1365" unfolding S2 by (rule bd(2))
    have h2: "\<bar>bval a'\<bar> ^ nat \<bar>bval b'\<bar> < base ^ 1365" unfolding A2 e' by (rule bd(3))
    have h0: "nat \<bar>bval b'\<bar> < ?e" unfolding e' using e0(1) by simp
    obtain r where r: "pow_loop ans' a' b' = ret r" "big_ok r"
      "bval r = bval ans' * bval a' ^ nat \<bar>bval b'\<bar>"
      using less.hyps [OF h0 ans'(2) a'(2) b'(3) h1 h2 h3] by blast
    have "bval r = ?S * ?A ^ ?e"
      unfolding r(3) ans'(3) a'(3) e' pow_half [OF e0(1), of ?A] by simp
    then show ?thesis using r(1,2) m ans'(1) a'(1) b'(1) e0(2) by (subst pow_loop.simps) simp
  qed
qed

end
