(* ===== verification/Bytes.thy ===== *)
theory Bytes
  imports Prelude
begin

text \<open>
  Raw memory as the code handles it: an allocated block is a list of \<open>char\<close> (the sources'
  \<open>byte_t\<close>), a pointer into it an offset, and every access past the end of the block is the
  fault \<open>Out_Of_Bounds\<close>. Little-endian unsigned integers, \<open>memcpy\<close> and zero-terminated
  strings are built on that.
\<close>

type_synonym block = "char list"

section \<open>Characters\<close>

text \<open>A \<open>char\<close> is signed.\<close>

definition schar :: "char \<Rightarrow> int" where
  "schar c = (let n = (of_char c :: int) in if n < 128 then n else n - 256)"

abbreviation nul :: char where
  "nul \<equiv> CHR 0x00"

section \<open>Access to a block\<close>

definition rd :: "block \<Rightarrow> nat \<Rightarrow> char res" where
  "rd m i = (if i < length m then Inr (m ! i) else Inl Out_Of_Bounds)"

definition wr :: "block \<Rightarrow> int \<Rightarrow> char \<Rightarrow> block res" where
  "wr m i c = (if 0 \<le> i \<and> nat i < length m then Inr (m[nat i := c]) else Inl Out_Of_Bounds)"

definition rdn :: "block \<Rightarrow> nat \<Rightarrow> nat \<Rightarrow> block res" where
  "rdn m off n = (if off + n \<le> length m then Inr (take n (drop off m)) else Inl Out_Of_Bounds)"

definition put :: "block \<Rightarrow> nat \<Rightarrow> block \<Rightarrow> block" where
  "put m off xs = take off m @ xs @ drop (off + length xs) m"

text \<open>\<open>memcpy (to + off, from + foff, n)\<close>: both ranges have to be allocated.\<close>

definition memcpy :: "block \<Rightarrow> nat \<Rightarrow> block \<Rightarrow> nat \<Rightarrow> nat \<Rightarrow> block res" where
  "memcpy to off from foff n =
     bindr (rdn from foff n) (\<lambda>xs.
       if off + n \<le> length to then Inr (put to off xs) else Inl Out_Of_Bounds)"

section \<open>Unsigned integers, least significant byte first\<close>

fun le_bytes :: "nat \<Rightarrow> nat \<Rightarrow> block" where
  "le_bytes 0 n = []"
| "le_bytes (Suc w) n = char_of (n mod 256) # le_bytes w (n div 256)"

fun le_val :: "block \<Rightarrow> nat" where
  "le_val [] = 0"
| "le_val (c # cs) = of_char c + 256 * le_val cs"

lemma length_le_bytes [simp]: "length (le_bytes w n) = w"
  by (induction w arbitrary: n) simp_all

lemma of_char_less: "(of_char c :: nat) < 256"
  by simp

lemma le_val_bound: "le_val cs < 256 ^ length cs"
proof (induction cs)
  case (Cons c cs)
  have "le_val (c # cs) < 256 + 256 * le_val cs" using of_char_less [of c] by simp
  also have "\<dots> \<le> 256 * 256 ^ length cs" using Cons by simp
  finally show ?case by simp
qed simp

lemma le_val_bytes: "le_val (le_bytes w n) = n mod 256 ^ w"
proof (induction w arbitrary: n)
  case (Suc w)
  have "n mod (256 * 256 ^ w) = 256 * (n div 256 mod 256 ^ w) + n mod 256"
    by (rule mod_mult2_eq)
  then show ?case by (simp add: Suc)
qed simp

lemma le_bytes_val: "le_bytes (length cs) (le_val cs) = cs"
proof (induction cs)
  case (Cons c cs)
  have c: "(of_char c :: nat) mod 256 = of_char c" "(of_char c :: nat) div 256 = 0"
    using of_char_less [of c] by simp_all
  have "(of_char c + 256 * le_val cs) mod 256 = of_char c"
    "(of_char c + 256 * le_val cs) div 256 = le_val cs"
    using c by (simp_all add: mod_mult_self2)
  then show ?case using Cons by simp
qed simp

lemma le_val_inj: "length xs = length ys \<Longrightarrow> le_val xs = le_val ys \<Longrightarrow> xs = ys"
  by (metis le_bytes_val)

section \<open>Zero-terminated strings\<close>

text \<open>The characters up to the first zero; \<open>strlen\<close> runs out of the block when there is none.\<close>

definition cstr_at :: "block \<Rightarrow> nat \<Rightarrow> string res" where
  "cstr_at m off =
     (if nul \<in> set (drop off m) then Inr (takeWhile (\<lambda>c. c \<noteq> nul) (drop off m))
      else Inl Out_Of_Bounds)"

definition zstr :: "string \<Rightarrow> block" where
  "zstr s = s @ [nul]"

text \<open>A string that can be stored zero-terminated: no zero inside.\<close>

definition plain :: "string \<Rightarrow> bool" where
  "plain s = (nul \<notin> set s)"

section \<open>Lemmas\<close>

lemma length_put: "off + length xs \<le> length m \<Longrightarrow> length (put m off xs) = length m"
  by (simp add: put_def)

lemma rdn_ok [simp]: "off + n \<le> length m \<Longrightarrow> rdn m off n = Inr (take n (drop off m))"
  by (simp add: rdn_def)

lemma rdn_fault [simp]: "length m < off + n \<Longrightarrow> rdn m off n = Inl Out_Of_Bounds"
  by (simp add: rdn_def)

lemma memcpy_ok:
  "foff + n \<le> length from \<Longrightarrow> off + n \<le> length to \<Longrightarrow>
   memcpy to off from foff n = Inr (put to off (take n (drop foff from)))"
  by (simp add: memcpy_def)

lemma memcpy_dest: "length to < off + n \<Longrightarrow> memcpy to off from foff n = Inl Out_Of_Bounds"
  by (simp add: memcpy_def rdn_def)

lemma memcpy_src: "length from < foff + n \<Longrightarrow> memcpy to off from foff n = Inl Out_Of_Bounds"
  by (simp add: memcpy_def)

lemma put_read: "off + length xs \<le> length m \<Longrightarrow> take (length xs) (drop off (put m off xs)) = xs"
  by (simp add: put_def)

lemma put_frame:
  "off + length xs \<le> length m \<Longrightarrow> take off (put m off xs) = take off m"
  "off + length xs \<le> length m \<Longrightarrow> drop (off + length xs) (put m off xs) = drop (off + length xs) m"
  by (simp_all add: put_def)

lemma put_all: "length xs = length m \<Longrightarrow> put m 0 xs = xs"
  by (simp add: put_def)

lemma takeWhile_shorter: "x \<in> set xs \<Longrightarrow> \<not> P x \<Longrightarrow> length (takeWhile P xs) < length xs"
  by (induction xs) auto

lemma takeWhile_full: "\<forall>x\<in>set xs. P x \<Longrightarrow> length (takeWhile P xs) = length xs"
  by (induction xs) auto

lemma takeWhile_plain: "plain s \<Longrightarrow> takeWhile (\<lambda>c. c \<noteq> nul) (s @ nul # rest) = s"
  by (induction s) (auto simp: plain_def)

lemma cstr_at_zstr: "plain s \<Longrightarrow> drop off m = zstr s @ rest \<Longrightarrow> cstr_at m off = Inr s"
  using takeWhile_plain [of s rest] by (simp add: cstr_at_def zstr_def)

lemma cstr_at_plain: "cstr_at m off = Inr s \<Longrightarrow> plain s"
  by (auto simp: cstr_at_def plain_def dest: set_takeWhileD split: if_splits)

lemma cstr_at_0 [simp]: "plain s \<Longrightarrow> cstr_at (zstr s) 0 = Inr s"
  using cstr_at_zstr [of s 0 "zstr s" "[]"] by simp

lemma length_zstr [simp]: "length (zstr s) = length s + 1"
  by (simp add: zstr_def)

end
