(* ===== verification/Bigint_Text.thy ===== *)
theory Bigint_Text
  imports Bigint_Mach Bytes
begin

text \<open>
  Decimal text: \<open>size\<close>, \<open>read\<close>, \<open>operator<<\<close>, \<open>to_string\<close> and \<open>sumof\<close> of \<open>bigint.h\<close>.
  Reading accepts any run of signs and any digits; printing a normalised number and
  reading the text gives the number back.
\<close>

section \<open>Operations\<close>

function size_loop :: "int \<Rightarrow> int \<Rightarrow> int" where
  "size_loop ca ans = (if ca = 0 then ans else size_loop (cdiv ca 10) (i32 (ans + 1)))"
  by auto
termination
  by (relation "measure (\<lambda>(ca, ans). nat \<bar>ca\<bar>)") (auto intro: abs_cdiv_less)

definition big_size :: "bigint \<Rightarrow> int" where
  "big_size x =
     (if big_a x = [] then 0
      else size_loop (last (big_a x)) (i32 (int ((length (big_a x) - 1) * base_digits))))"

text \<open>The sign loop of \<open>read\<close>.\<close>

fun read_signs :: "string \<Rightarrow> int \<Rightarrow> int \<times> string" where
  "read_signs [] sg = (sg, [])"
| "read_signs (c # cs) sg =
     (if c = CHR ''-'' then read_signs cs (i32 (- sg))
      else if c = CHR ''+'' then read_signs cs sg
      else (sg, c # cs))"

text \<open>One group of at most nine characters.\<close>

definition read_group :: "string \<Rightarrow> int" where
  "read_group cs = foldl (\<lambda>x c. i32 (i32 (i32 (x * 10) + schar c) - 48)) 0 cs"

text \<open>The groups from the end of the text on.\<close>

function read_groups :: "string \<Rightarrow> int list" where
  "read_groups cs =
     (if cs = [] then []
      else let n = length cs - base_digits
           in read_group (drop n cs) # read_groups (take n cs))"
  by auto
termination by (relation "measure length") (auto simp: base_digits_def)

definition big_read :: "string \<Rightarrow> bigint" where
  "big_read s =
     (let (sg, cs) = read_signs s 1
      in big_trim \<lparr>big_a = read_groups cs, big_sign = sg\<rparr>)"

text \<open>The decimal digits a stream prints for an \<open>int\<close>.\<close>

fun dec_nat :: "nat \<Rightarrow> string" where
  "dec_nat n = (if n < 10 then [char_of (48 + n)] else dec_nat (n div 10) @ [char_of (48 + n mod 10)])"

definition show_int :: "int \<Rightarrow> string" where
  "show_int x = (if x < 0 then CHR ''-'' # dec_nat (nat (- x)) else dec_nat (nat x))"

text \<open>\<open>setw(9)\<close> with fill character \<open>0\<close>.\<close>

definition pad9 :: "string \<Rightarrow> string" where
  "pad9 s = replicate (base_digits - length s) (CHR ''0'') @ s"

definition big_print :: "bigint \<Rightarrow> string" where
  "big_print x =
     (if big_sign x = -1 then ''-'' else '''') @
     (case rev (big_a x) of
        [] \<Rightarrow> show_int 0
      | d # ds \<Rightarrow> show_int d @ concat (map (\<lambda>e. pad9 (show_int e)) ds))"

text \<open>\<open>to_string\<close> reads one word back from the stream; the printed text has no blanks.\<close>

definition big_to_string :: "bigint \<Rightarrow> string" where
  "big_to_string x = big_print x"

definition sumof :: "bigint \<Rightarrow> int" where
  "sumof x = foldl (\<lambda>ans c. i32 (ans + (schar c - 48))) 0 (big_to_string x)"

section \<open>Decimal digits\<close>

declare dec_nat.simps [simp del]

definition is_dec :: "string \<Rightarrow> bool" where
  "is_dec cs \<longleftrightarrow> (\<forall>c\<in>set cs. 48 \<le> schar c \<and> schar c \<le> 57)"

definition tval :: "string \<Rightarrow> int" where
  "tval cs = foldl (\<lambda>x c. x * 10 + (schar c - 48)) 0 cs"

lemma schar_digit [simp]: "n < 10 \<Longrightarrow> schar (char_of (48 + n)) = 48 + int n" for n :: nat
proof -
  assume "n < 10"
  have "(of_char (char_of (48 + n)) :: int) = int (of_char (char_of (48 + n)))"
    by (simp only: of_nat_of_char)
  also have "\<dots> = int ((48 + n) mod 256)" by (simp only: of_char_of)
  finally have "(of_char (char_of (48 + n)) :: int) = int (48 + n)" using \<open>n < 10\<close> by simp
  with \<open>n < 10\<close> show ?thesis by (simp add: schar_def)
qed

lemma foldl_dec:
  "foldl (\<lambda>x c. x * 10 + (schar c - 48)) a cs = a * 10 ^ length cs + tval cs"
proof (induction cs arbitrary: a)
  case (Cons c cs)
  have "foldl (\<lambda>x c. x * 10 + (schar c - 48)) (a * 10 + (schar c - 48)) cs =
      (a * 10 + (schar c - 48)) * 10 ^ length cs + tval cs" by (rule Cons)
  moreover have "tval (c # cs) = (schar c - 48) * 10 ^ length cs + tval cs"
    unfolding tval_def using Cons [of "schar c - 48"] by (simp add: tval_def)
  ultimately show ?case by (simp add: algebra_simps)
qed (simp add: tval_def)

lemma tval_append: "tval (cs @ ds) = tval cs * 10 ^ length ds + tval ds"
  using foldl_dec [of "tval cs" ds] by (simp add: tval_def)

lemma tval_simps [simp]: "tval [] = 0" "tval [c] = schar c - 48"
  by (simp_all add: tval_def)

lemma is_dec_simps [simp]:
  "is_dec []" "is_dec (c # cs) \<longleftrightarrow> 48 \<le> schar c \<and> schar c \<le> 57 \<and> is_dec cs"
  "is_dec (cs @ ds) \<longleftrightarrow> is_dec cs \<and> is_dec ds"
  by (auto simp: is_dec_def)

lemma tval_range: "is_dec cs \<Longrightarrow> 0 \<le> tval cs \<and> tval cs < 10 ^ length cs"
proof (induction cs rule: rev_induct)
  case (snoc c cs)
  then show ?case by (auto simp: tval_append)
qed simp

lemma dec_nat_val: "tval (dec_nat n) = int n \<and> is_dec (dec_nat n) \<and> dec_nat n \<noteq> []"
proof (induction n rule: dec_nat.induct)
  case (1 n)
  show ?case
  proof (cases "n < 10")
    case False
    then have "int (n div 10) * 10 + int (n mod 10) = int n" by presburger
    with 1 False show ?thesis by (subst (1 2 3) dec_nat.simps) (simp add: tval_append)
  qed (simp add: dec_nat.simps)
qed

lemma dec_nat_length: "n < 10 ^ k \<Longrightarrow> 0 < k \<Longrightarrow> length (dec_nat n) \<le> k"
proof (induction n arbitrary: k rule: dec_nat.induct)
  case (1 n)
  show ?case
  proof (cases "n < 10")
    case True
    with 1 show ?thesis by (subst dec_nat.simps) simp
  next
    case False
    obtain j where j: "k = Suc j" using 1 by (cases k) auto
    then have k: "k = Suc j" "0 < j" using 1(2) False by (cases j; simp)+
    then have "n div 10 < 10 ^ j" using 1 by (simp add: div_less_iff_less_mult)
    with 1(1) [OF False this k(2)] False k show ?thesis by (subst dec_nat.simps) simp
  qed
qed

section \<open>Reading\<close>

declare read_groups.simps [simp del]

lemma read_group_val:
  assumes "is_dec cs" "length cs \<le> 9"
  shows "read_group cs = tval cs"
  using assms
proof (induction cs rule: rev_induct)
  case (snoc c cs)
  then have IH: "read_group cs = tval cs" and c: "48 \<le> schar c" "schar c \<le> 57" by auto
  have "(10 :: int) ^ length cs \<le> 10 ^ 8" using snoc.prems by (intro power_increasing) auto
  then have r: "0 \<le> tval cs" "tval cs < 100000000" using tval_range [of cs] snoc.prems by auto
  then have "i32 (i32 (i32 (tval cs * 10) + schar c) - 48) = tval cs * 10 + (schar c - 48)"
    using c by simp
  then show ?case using IH by (simp add: read_group_def tval_append)
qed (simp add: read_group_def)

lemma base_pow: "base = 10 ^ 9"
  by (simp add: base_def)

lemma read_groups_val:
  "is_dec cs \<Longrightarrow> dval (read_groups cs) = tval cs \<and> digits_ok (read_groups cs)"
proof (induction cs rule: read_groups.induct)
  case (1 cs)
  show ?case
  proof (cases "cs = []")
    case False
    let ?n = "length cs - base_digits"
    have cs: "is_dec (take ?n cs)" "is_dec (drop ?n cs)"
      using 1(2) is_dec_simps(3) [of "take ?n cs" "drop ?n cs"] by auto
    have len: "length (drop ?n cs) \<le> 9" by (auto simp: base_digits_def)
    have g: "read_group (drop ?n cs) = tval (drop ?n cs)" by (rule read_group_val [OF cs(2) len])
    have IH: "dval (read_groups (take ?n cs)) = tval (take ?n cs)" "digits_ok (read_groups (take ?n cs))"
      using 1(1) [OF False refl cs(1)] by auto
    have "(10 :: int) ^ length (drop ?n cs) \<le> 10 ^ 9" using len by (intro power_increasing) auto
    then have r: "0 \<le> tval (drop ?n cs)" "tval (drop ?n cs) < base"
      using tval_range [OF cs(2)] by (auto simp: base_def)
    have "tval cs = tval (take ?n cs) * 10 ^ length (drop ?n cs) + tval (drop ?n cs)"
      using tval_append [of "take ?n cs" "drop ?n cs"] by simp
    moreover have "tval (take ?n cs) * 10 ^ length (drop ?n cs) = tval (take ?n cs) * base"
      by (cases "length cs \<le> 9") (auto simp: base_digits_def base_pow)
    ultimately have "tval cs = tval (drop ?n cs) + base * dval (read_groups (take ?n cs))"
      using IH by simp
    then show ?thesis
      using False g IH r by (subst (1 2) read_groups.simps) (simp add: Let_def)
  qed (simp add: read_groups.simps)
qed

lemma read_signs_dec: "is_dec cs \<Longrightarrow> read_signs cs s = (s, cs)"
  by (cases cs) (auto simp: schar_def)

lemma big_read_val:
  assumes "is_dec cs" "sg = '''' \<or> sg = ''+'' \<or> sg = ''-''"
  shows "bval (big_read (sg @ cs)) = (if sg = ''-'' then - tval cs else tval cs)"
    and "big_ok (big_read (sg @ cs))"
proof -
  let ?s = "if sg = ''-'' then -1 else (1 :: int)"
  have r: "read_signs (sg @ cs) 1 = (?s, cs)"
    using assms(2) read_signs_dec [OF assms(1)] by auto
  note g = read_groups_val [OF assms(1)]
  show "bval (big_read (sg @ cs)) = (if sg = ''-'' then - tval cs else tval cs)"
    using r g by (simp add: big_read_def big_trim_val) (simp add: bval_def)
  show "big_ok (big_read (sg @ cs))"
    using r g by (auto simp: big_read_def intro!: big_trim_ok)
qed

section \<open>Printing\<close>

lemma show_digit:
  assumes "0 \<le> d" "d < base"
  shows "tval (show_int d) = d" "is_dec (show_int d)" "length (show_int d) \<le> 9" "show_int d \<noteq> []"
  using assms dec_nat_val [of "nat d"] dec_nat_length [of "nat d" 9]
  by (auto simp: show_int_def base_def)

lemma replicate_zeros: "tval (replicate n (CHR ''0'')) = 0 \<and> is_dec (replicate n (CHR ''0''))"
proof -
  have "schar (CHR ''0'') = 48" by (simp add: schar_def)
  then have d: "is_dec (replicate n (CHR ''0''))" by (simp add: is_dec_def)
  have "tval (replicate n (CHR ''0'')) = 0"
  proof (induction n)
    case (Suc n)
    have "replicate (Suc n) (CHR ''0'') = replicate n (CHR ''0'') @ [CHR ''0'']"
      by (simp add: replicate_append_same)
    then show ?case using Suc \<open>schar (CHR ''0'') = 48\<close> by (simp only: tval_append) simp
  qed simp
  with d show ?thesis by simp
qed

lemma pad9_val:
  assumes "0 \<le> d" "d < base"
  shows "tval (pad9 (show_int d)) = d" "is_dec (pad9 (show_int d))" "length (pad9 (show_int d)) = 9"
  using show_digit [OF assms] replicate_zeros [of "9 - length (show_int d)"]
  by (auto simp: pad9_def base_digits_def tval_append)

lemma concat_pad_val:
  "digits_ok ds \<Longrightarrow>
     tval (concat (map (\<lambda>e. pad9 (show_int e)) (rev ds))) = dval ds \<and>
     is_dec (concat (map (\<lambda>e. pad9 (show_int e)) (rev ds))) \<and>
     length (concat (map (\<lambda>e. pad9 (show_int e)) (rev ds))) = 9 * length ds"
proof (induction ds)
  case (Cons d ds)
  then have "0 \<le> d" "d < base" by auto
  with Cons pad9_val [of d] show ?case by (simp add: tval_append base_pow)
qed simp

text \<open>The printed digits, without the sign.\<close>

definition print_digits :: "bigint \<Rightarrow> string" where
  "print_digits x =
     (case rev (big_a x) of
        [] \<Rightarrow> show_int 0
      | d # ds \<Rightarrow> show_int d @ concat (map (\<lambda>e. pad9 (show_int e)) ds))"

lemma print_digits_val:
  assumes "digits_ok (big_a x)"
  shows "tval (print_digits x) = dval (big_a x)" "is_dec (print_digits x)"
proof -
  show "tval (print_digits x) = dval (big_a x)" "is_dec (print_digits x)"
  proof (atomize (full), cases "big_a x" rule: rev_cases)
    case Nil
    then show "tval (print_digits x) = dval (big_a x) \<and> is_dec (print_digits x)"
      using show_digit [of 0] by (simp add: print_digits_def)
  next
    case (snoc ds d)
    then have d: "0 \<le> d" "d < base" "digits_ok ds" using assms by auto
    have "(10 :: int) ^ (9 * length ds) = base ^ length ds" by (simp add: base_pow power_mult)
    then show "tval (print_digits x) = dval (big_a x) \<and> is_dec (print_digits x)"
      using snoc concat_pad_val [OF d(3)] show_digit [OF d(1,2)]
      by (simp add: print_digits_def tval_append dval_append)
  qed
qed

lemma big_ok_unique:
  assumes "big_ok x" "big_ok y" "bval x = bval y"
  shows "x = y"
proof -
  have digits: "xs = ys" if "digits_ok xs" "digits_ok ys" "trimmed xs" "trimmed ys" "dval xs = dval ys" for xs ys
    using that
  proof (induction xs arbitrary: ys)
    case Nil
    then show ?case using dval_zero_iff [of ys] by simp
  next
    case (Cons d xs)
    have "0 < dval (d # xs)" by (rule dval_pos [OF Cons.prems(1,3)]) simp
    then have "ys \<noteq> []" unfolding Cons.prems(5) by auto
    then obtain e zs where ys: "ys = e # zs" by (cases ys) auto
    have r: "0 \<le> d" "d < base" "0 \<le> e" "e < base" "digits_ok xs" "digits_ok zs"
      using Cons.prems(1,2) by (auto simp: ys)
    have t: "trimmed xs" "trimmed zs" using Cons.prems(3,4) by (auto simp: ys split: if_splits)
    have eq: "d + base * dval xs = e + base * dval zs" using Cons.prems(5) by (simp add: ys)
    have "d = (d + base * dval xs) mod base" using r by simp
    also have "\<dots> = e" unfolding eq using r by simp
    finally have "d = e" .
    moreover have "dval xs = dval zs" using eq \<open>d = e\<close> by simp
    then have "xs = zs" by (rule Cons.IH [OF r(5,6) t])
    ultimately show ?case by (simp add: ys)
  qed
  have "dval (big_a x) = dval (big_a y)"
    using assms abs_bval [of x] abs_bval [of y] by (simp add: big_ok_wf)
  then have a: "big_a x = big_a y" using assms by (intro digits) (auto simp: big_ok_def big_wf_def)
  have "big_sign x = big_sign y"
  proof (cases "big_a x = []")
    case True
    then show ?thesis using assms a by (auto simp: big_ok_def)
  next
    case False
    then have "0 < dval (big_a x)" using assms by (intro dval_pos) (auto simp: big_ok_def big_wf_def)
    then show ?thesis using assms(3) a by (simp add: bval_def)
  qed
  with a show ?thesis by simp
qed

lemma big_read_print:
  assumes "big_ok x"
  shows "big_read (big_to_string x) = x"
proof -
  let ?sg = "if big_sign x = -1 then ''-'' else ''''"
  have ok: "digits_ok (big_a x)" "big_sign x = 1 \<or> big_sign x = -1"
    using assms by (auto simp: big_ok_def big_wf_def)
  note p = print_digits_val [OF ok(1)]
  have e: "big_to_string x = ?sg @ print_digits x"
    by (simp add: big_to_string_def big_print_def print_digits_def)
  have "bval (big_read (big_to_string x)) = bval x"
    unfolding e using big_read_val(1) [OF p(2), of ?sg] p(1) ok(2) by (auto simp: bval_def)
  moreover have "big_ok (big_read (big_to_string x))"
    unfolding e using big_read_val(2) [OF p(2), of ?sg] by auto
  ultimately show ?thesis using assms by (intro big_ok_unique) auto
qed

end
