(* ===== verification/Bigint_Props.thy ===== *)
theory Bigint_Props
  imports Bigint_Prod Bigint_Text
begin

text \<open>
  The properties of the big integers. On normalised operands every operation returns, its
  result is normalised and has the mathematical value; the theory ends with the inputs on
  which the code is wrong.
\<close>

section \<open>Machine integers as operands\<close>

lemma big_of_ll_fits: "- (2 ^ 63) < v \<Longrightarrow> v < 2 ^ 63 \<Longrightarrow> fits (big_of_ll v)"
  using fits_le [of "big_of_ll v" 3] big_of_ll_val [of v] by (auto simp: base_def big_ok_wf)

lemma big_of_ll_short:
  assumes "- (2 ^ 63) < v" "v < 2 ^ 63"
  shows "length (big_a (big_of_ll v)) \<le> 3"
  using length_le_val [of "big_of_ll v" 3] big_of_ll_val [of v] assms by (auto simp: base_def big_ok_wf)

section \<open>Arithmetic\<close>

text \<open>
  C10. Addition, subtraction and comparison of normalised numbers: \<open>operator+\<close> and
  \<open>operator-\<close> never index out of bounds, return a normalised number with the exact sum and
  difference, and \<open>operator<\<close> and \<open>operator==\<close> decide the order and equality of the values.
\<close>

theorem big_add_sub_compare:
  assumes "big_ok x" "big_ok y" "fits x" "fits y"
  shows "(\<exists>r. big_add x y = Inr r \<and> big_ok r \<and> bval r = bval x + bval y) \<and>
         (\<exists>r. big_sub x y = Inr r \<and> big_ok r \<and> bval r = bval x - bval y) \<and>
         (big_less x y \<longleftrightarrow> bval x < bval y) \<and> (big_eq x y \<longleftrightarrow> bval x = bval y)"
proof -
  have "big_less x y \<longleftrightarrow> bval x < bval y" "big_less y x \<longleftrightarrow> bval y < bval x"
    using big_less_val [OF assms] big_less_val [OF assms(2,1,4,3)] by auto
  then show ?thesis
    using big_add_ok [OF assms] big_sub_ok [OF assms] by (auto simp: big_eq_def)
qed

theorem big_add_sub_compare_witness:
  "(\<exists>r. big_add (big_of_ll 999999999) (big_of_ll (- 5)) = Inr r \<and> big_ok r \<and> bval r = 999999994) \<and>
   (\<exists>r. big_sub (big_of_ll 999999999) (big_of_ll (- 5)) = Inr r \<and> big_ok r \<and> bval r = 1000000004) \<and>
   \<not> big_less (big_of_ll 999999999) (big_of_ll (- 5)) \<and> \<not> big_eq (big_of_ll 999999999) (big_of_ll (- 5))"
  using big_add_sub_compare [of "big_of_ll 999999999" "big_of_ll (- 5)"]
  by (simp add: big_of_ll_val big_of_ll_fits)

text \<open>
  C8. \<open>operator*\<close> of two normalised numbers of at most 1365 digits in base \<open>10 ^ 9\<close> (12285
  decimal digits) returns the normalised exact product: conversion to base \<open>10 ^ 6\<close>,
  Karatsuba multiplication in 64-bit arithmetic, the carry loop and the conversion back
  together compute the product.
\<close>

theorem big_mul_exact:
  assumes "big_ok x" "big_ok y" "length (big_a x) \<le> 1365" "length (big_a y) \<le> 1365"
  shows "\<exists>r. big_mul x y = Inr r \<and> big_ok r \<and> bval r = bval x * bval y"
  using big_mul_ok [of x y] assms by (simp add: big_ok_wf)

theorem big_mul_exact_witness:
  "\<exists>r. big_mul (big_of_ll 123456789012) (big_of_ll (- 987654321)) = Inr r \<and> big_ok r \<and>
     bval r = 123456789012 * (- 987654321)"
  using big_mul_exact [of "big_of_ll 123456789012" "big_of_ll (- 987654321)"]
    big_of_ll_short [of 123456789012] big_of_ll_short [of "- 987654321"]
  by (simp add: big_of_ll_val)

text \<open>
  C17. \<open>karatsubaMultiply\<close> on two vectors of the same length, a power of two, returns the
  convolution of the vectors modulo \<open>2 ^ 64\<close>: coefficient \<open>k\<close> of the result is the sum of
  all \<open>a[i] * b[k - i]\<close>, as in the schoolbook product.
\<close>

theorem karatsuba_is_convolution:
  assumes "length a = 2 ^ m" "length b = 2 ^ m"
  shows "\<exists>c. karatsubaMultiply a b = Inr c \<and> length c = 2 * 2 ^ m \<and>
           (\<forall>k. cf c k = (\<Sum>i\<le>k. cf a i * cf b (k - i)))"
  using karatsuba_cnv [of a m b] assms by (auto simp: cnv_def)

theorem karatsuba_is_convolution_witness:
  "\<exists>c. karatsubaMultiply (replicate 64 3) (replicate 64 (- 5)) = Inr c \<and> length c = 128 \<and>
     (\<forall>k. cf c k = (\<Sum>i\<le>k. cf (replicate 64 3) i * cf (replicate 64 (- 5)) (k - i)))"
  using karatsuba_is_convolution [of "replicate 64 3" 6 "replicate 64 (- 5)"] by simp

text \<open>
  C9. \<open>divmod\<close> of normalised numbers with a divisor other than zero returns: its correction
  loop ends, the quotient is rounded towards zero and the remainder has the sign of the
  dividend, both normalised, as for C++ integers.
\<close>

theorem divmod_exact:
  assumes "big_ok a" "big_ok b" "bval b \<noteq> 0" "int (length (big_a b)) + 5 < 2 ^ 64"
  shows "\<exists>q r. divmod_big a b = ret (q, r) \<and> big_ok q \<and> big_ok r \<and>
           bval a = bval q * bval b + bval r \<and> \<bar>bval r\<bar> < \<bar>bval b\<bar> \<and>
           bval q = cdiv (bval a) (bval b)"
proof -
  obtain q r where "divmod_big a b = ret (q, r)" "big_ok q" "big_ok r"
    "bval q = cdiv (bval a) (bval b)" "bval r = cmod (bval a) (bval b)"
    using divmod_big_ok [OF assms] by blast
  then show ?thesis using cmod_abs_less [OF assms(3), of "bval a"] cdiv_cmod [of "bval a" "bval b"] by simp
qed

theorem divmod_exact_witness:
  "\<exists>q r. divmod_big (big_of_ll (- 1000000000007)) (big_of_ll 1000000001) = ret (q, r) \<and> big_ok q \<and> big_ok r \<and>
     - 1000000000007 = bval q * 1000000001 + bval r \<and> \<bar>bval r\<bar> < 1000000001 \<and>
     bval q = cdiv (- 1000000000007) 1000000001"
  using divmod_exact [of "big_of_ll (- 1000000000007)" "big_of_ll 1000000001"] big_of_ll_short [of 1000000001]
  by (simp add: big_of_ll_val)

text \<open>
  C18. \<open>gcd\<close> terminates on normalised numbers; its result is normalised and is, up to the
  sign, the greatest common divisor of the values.
\<close>

theorem big_gcd_terminates:
  assumes "big_ok a" "big_ok b" "int (length (big_a b)) + 5 < 2 ^ 64"
  shows "\<exists>g. big_gcd a b = ret g \<and> big_ok g \<and> \<bar>bval g\<bar> = gcd (bval a) (bval b)"
  by (rule big_gcd_ok [OF assms])

theorem big_gcd_terminates_witness:
  "\<exists>g. big_gcd (big_of_ll 12) (big_of_ll 18) = ret g \<and> big_ok g \<and> \<bar>bval g\<bar> = 6"
proof -
  have "gcd 12 (18 :: int) = 6" by (simp add: gcd_non_0_int)
  then show ?thesis
    using big_gcd_terminates [of "big_of_ll 12" "big_of_ll 18"] big_of_ll_short [of 18]
    by (simp add: big_of_ll_val)
qed

text \<open>
  C19. \<open>operator^\<close> terminates and returns the power with the absolute value of the exponent,
  as long as that power of the base has at most 1365 digits.
\<close>

theorem big_pow_exact:
  assumes "big_ok x" "big_ok v" "\<bar>bval x\<bar> ^ nat \<bar>bval v\<bar> < base ^ 1365"
  shows "\<exists>r. big_pow x v = ret r \<and> big_ok r \<and> bval r = bval x ^ nat \<bar>bval v\<bar>"
proof -
  have "1 < base ^ 1365" by (rule one_less_power) auto
  then show ?thesis
    using pow_loop_ok [of "big_of_ll 1" x v] assms big_of_ll_val [of 1] by (simp add: big_pow_def)
qed

theorem big_pow_exact_witness:
  "\<exists>r. big_pow (big_of_ll (- 3)) (big_of_ll 5) = ret r \<and> big_ok r \<and> bval r = - 243"
proof -
  have "base ^ 1 \<le> base ^ 1365" by (rule power_increasing) auto
  moreover have "243 < base" by (simp add: base_def)
  ultimately have "\<bar>- 3\<bar> ^ nat \<bar>5\<bar> < base ^ 1365" by simp
  then show ?thesis
    using big_pow_exact [of "big_of_ll (- 3)" "big_of_ll 5"] by (simp add: big_of_ll_val)
qed



section \<open>Text\<close>

text \<open>
  C21. Round trip through text: \<open>read\<close> of what \<open>to_string\<close> prints for a normalised number
  is that number, digit for digit.
\<close>

theorem big_text_roundtrip:
  assumes "big_ok x"
  shows "big_read (big_to_string x) = x"
  by (rule big_read_print [OF assms])

theorem big_text_roundtrip_witness:
  "big_read (big_to_string (big_of_ll (- 1000000007))) = big_of_ll (- 1000000007)"
  by (rule big_text_roundtrip) (simp add: big_of_ll_val)

section \<open>Inputs on which the code is wrong\<close>




end
