(* ===== verification/Dtypes.thy ===== *)
theory Dtypes
  imports Bigint_Text Bytes
begin

text \<open>
  \<open>dtypes.h\<close>, \<open>dtypes.cpp\<close>, \<open>dtypes_utils.h\<close>, \<open>memory_ptr.h\<close> and \<open>object.cpp\<close>: the storage
  of a value, the five implementors behind the virtual interface \<open>implementor_base\<close>, the
  table of data types and the database object built on them.

  A storage is what \<open>memory_ptr::data\<close> points to: nothing, a block, or a \<open>bigint\<close>. The
  argument \<open>from\<close> of \<open>load_from\<close> is a pointer into a block, written as the block, an offset and
  the length the caller passes; the block comes back, since \<open>get_string_mxsz\<close> writes to it.
\<close>

section \<open>\<open>memory_ptr\<close>\<close>

datatype storage = Null_ptr | Mem block | Big_ptr bigint

text \<open>\<open>operator=\<close> deletes the old block and keeps the new pointer; \<open>delete_inner\<close> leaves null.\<close>

definition delete_inner :: "storage \<Rightarrow> storage" where
  "delete_inner ds = Null_ptr"

definition mp_assign :: "storage \<Rightarrow> storage \<Rightarrow> storage" where
  "mp_assign ds p = (let _ = delete_inner ds in p)"

text \<open>\<open>cast_as<char>\<close> and \<open>cast_as<bigint>\<close> followed by the dereference.\<close>

definition as_block :: "storage \<Rightarrow> block res" where
  "as_block ds = (case ds of Null_ptr \<Rightarrow> Inl Null_Deref | Mem m \<Rightarrow> Inr m | Big_ptr b \<Rightarrow> Inl Bad_Cast)"

definition as_bigint :: "storage \<Rightarrow> bigint res" where
  "as_bigint ds = (case ds of Null_ptr \<Rightarrow> Inl Null_Deref | Mem m \<Rightarrow> Inl Bad_Cast | Big_ptr b \<Rightarrow> Inr b)"

section \<open>Helpers\<close>

definition require_at_least :: "nat \<Rightarrow> nat \<Rightarrow> unit res" where
  "require_at_least bytes required =
     (if bytes < required then Inl Unsufficient_Space else Inr ())"

text \<open>The scan of \<open>get_string_mxsz\<close> for a zero among the first \<open>n\<close> bytes from \<open>off + sz\<close> on.\<close>

fun mxsz_scan :: "block \<Rightarrow> nat \<Rightarrow> nat \<Rightarrow> nat \<Rightarrow> nat res" where
  "mxsz_scan src off sz 0 = Inr sz"
| "mxsz_scan src off sz (Suc n) =
     bindr (rd src (off + sz)) (\<lambda>c. if c = nul then Inr sz else mxsz_scan src off (sz + 1) n)"

text \<open>
  When no zero is found the last byte is overwritten with one; for \<open>srcSize = 0\<close> that is the
  byte before the pointer, and the size wraps to the largest \<open>size_t\<close>.
\<close>

definition get_string_mxsz :: "block \<Rightarrow> nat \<Rightarrow> nat \<Rightarrow> (block \<times> nat) res" where
  "get_string_mxsz src off srcSize =
     bindr (mxsz_scan src off 0 srcSize) (\<lambda>sz.
       if sz = srcSize
       then bindr (wr src (int off + int srcSize - 1) nul) (\<lambda>src'. Inr (src', sz_dec srcSize))
       else Inr (src, sz))"

section \<open>\<open>blob_wrapper\<close>\<close>

definition blob_get_size :: "block \<Rightarrow> nat \<Rightarrow> nat res" where
  "blob_get_size data off = bindr (rdn data off 4) (\<lambda>xs. Inr (le_val xs))"

text \<open>\<open>get_data\<close>: the address after the size field.\<close>

definition blob_get_data :: "nat \<Rightarrow> nat" where
  "blob_get_data off = off + 4"

text \<open>\<open>copy_to\<close>: the size is computed in \<open>size_t\<close>.\<close>

definition blob_copy_to :: "block \<Rightarrow> nat \<Rightarrow> block \<Rightarrow> nat \<Rightarrow> block res" where
  "blob_copy_to data off mem moff =
     bindr (blob_get_size data off) (\<lambda>n. memcpy mem moff data off (n + 4))"

section \<open>The implementors\<close>

text \<open>
  \<open>static_implementor<T, IS_NUMERIC>\<close> is determined by \<open>sizeof(T)\<close> and its flag: a value is
  copied as the bytes of \<open>T\<close>.
\<close>

datatype implementor =
    Static_implementor nat bool
  | None_implementor
  | Blob_implementor
  | String_implementor
  | Bigint_implementor

definition int8_implementor :: implementor where "int8_implementor = Static_implementor 1 True"
definition uint8_implementor :: implementor where "uint8_implementor = Static_implementor 1 True"
definition int16_implementor :: implementor where "int16_implementor = Static_implementor 2 True"
definition uint16_implementor :: implementor where "uint16_implementor = Static_implementor 2 True"
definition int32_implementor :: implementor where "int32_implementor = Static_implementor 4 True"
definition uint32_implementor :: implementor where "uint32_implementor = Static_implementor 4 True"
definition float_implementor :: implementor where "float_implementor = Static_implementor 4 True"
definition double_implementor :: implementor where "double_implementor = Static_implementor 8 True"

lemmas static_impls = int8_implementor_def uint8_implementor_def int16_implementor_def
  uint16_implementor_def int32_implementor_def uint32_implementor_def float_implementor_def
  double_implementor_def

text \<open>\<open>init\<close>.\<close>

definition static_init :: "nat \<Rightarrow> storage \<Rightarrow> storage" where
  "static_init n ds = mp_assign ds (Mem (replicate n nul))"

definition blob_init :: "storage \<Rightarrow> storage" where
  "blob_init ds = mp_assign ds Null_ptr"

definition bigint_init :: "storage \<Rightarrow> storage" where
  "bigint_init ds = mp_assign ds (Big_ptr big_new)"

definition none_init :: "storage \<Rightarrow> storage" where
  "none_init ds = mp_assign ds Null_ptr"

definition string_init :: "storage \<Rightarrow> storage" where
  "string_init ds = mp_assign ds (Mem [nul])"

definition impl_init :: "implementor \<Rightarrow> storage \<Rightarrow> storage" where
  "impl_init i ds =
     (case i of
        Static_implementor n _ \<Rightarrow> static_init n ds
      | None_implementor \<Rightarrow> none_init ds
      | Blob_implementor \<Rightarrow> blob_init ds
      | String_implementor \<Rightarrow> string_init ds
      | Bigint_implementor \<Rightarrow> bigint_init ds)"

text \<open>\<open>is_numeric\<close> and \<open>is_dynamic\<close>.\<close>

definition blob_is_numeric :: bool where "blob_is_numeric = False"
definition bigint_is_numeric :: bool where "bigint_is_numeric = True"
definition none_is_numeric :: bool where "none_is_numeric = False"
definition string_is_numeric :: bool where "string_is_numeric = False"

definition impl_is_numeric :: "implementor \<Rightarrow> bool" where
  "impl_is_numeric i =
     (case i of
        Static_implementor _ num \<Rightarrow> num
      | None_implementor \<Rightarrow> none_is_numeric
      | Blob_implementor \<Rightarrow> blob_is_numeric
      | String_implementor \<Rightarrow> string_is_numeric
      | Bigint_implementor \<Rightarrow> bigint_is_numeric)"

definition blob_is_dynamic :: bool where "blob_is_dynamic = True"
definition bigint_is_dynamic :: bool where "bigint_is_dynamic = True"
definition none_is_dynamic :: bool where "none_is_dynamic = False"
definition string_is_dynamic :: bool where "string_is_dynamic = True"

definition impl_is_dynamic :: "implementor \<Rightarrow> bool" where
  "impl_is_dynamic i =
     (case i of
        Static_implementor _ _ \<Rightarrow> False
      | None_implementor \<Rightarrow> none_is_dynamic
      | Blob_implementor \<Rightarrow> blob_is_dynamic
      | String_implementor \<Rightarrow> string_is_dynamic
      | Bigint_implementor \<Rightarrow> bigint_is_dynamic)"

text \<open>\<open>load_from\<close> of each implementor: the bytes taken, the source block and the storage.\<close>

definition static_load_from :: "nat \<Rightarrow> block \<Rightarrow> nat \<Rightarrow> nat \<Rightarrow> storage \<Rightarrow> (nat \<times> block \<times> storage) res" where
  "static_load_from n from off fromLen ds =
     bindr (require_at_least fromLen n) (\<lambda>_.
     bindr (rdn from off n) (\<lambda>v.
       Inr (n, from, mp_assign ds (Mem v))))"

text \<open>The allocated size of a blob is the \<open>uint32_t\<close> truncation of the size that is copied.\<close>

definition blob_load_from :: "block \<Rightarrow> nat \<Rightarrow> nat \<Rightarrow> storage \<Rightarrow> (nat \<times> block \<times> storage) res" where
  "blob_load_from from off fromLen ds =
     bindr (require_at_least fromLen 4) (\<lambda>_.
     bindr (blob_get_size from off) (\<lambda>n.
       let size = (n + 4) mod 2 ^ 32
       in bindr (require_at_least fromLen size) (\<lambda>_.
          bindr (blob_copy_to from off (replicate size nul) 0) (\<lambda>m.
            Inr (size, from, mp_assign ds (Mem m))))))"

definition string_load_from :: "block \<Rightarrow> nat \<Rightarrow> nat \<Rightarrow> storage \<Rightarrow> (nat \<times> block \<times> storage) res" where
  "string_load_from from off fromLen ds =
     bindr (get_string_mxsz from off fromLen) (\<lambda>(from', sz).
     bindr (memcpy (replicate (sz_inc sz) nul) 0 from' off (sz_inc sz)) (\<lambda>newCh.
       Inr (sz_inc sz, from', mp_assign ds (Mem newCh))))"

text \<open>The \<open>bigint\<close> is read in place, so the storage has to hold one already.\<close>

definition bigint_load_from :: "block \<Rightarrow> nat \<Rightarrow> nat \<Rightarrow> storage \<Rightarrow> (nat \<times> block \<times> storage) res" where
  "bigint_load_from from off fromLen ds =
     bindr (as_bigint ds) (\<lambda>_.
     bindr (require_at_least fromLen 2) (\<lambda>_.
     bindr (get_string_mxsz from off fromLen) (\<lambda>(from', sz).
     bindr (cstr_at from' off) (\<lambda>s.
       Inr (sz, from', Big_ptr (big_read s))))))"

definition none_load_from :: "block \<Rightarrow> nat \<Rightarrow> nat \<Rightarrow> storage \<Rightarrow> (nat \<times> block \<times> storage) res" where
  "none_load_from from off fromLen ds = Inr (0, from, ds)"

definition impl_load_from ::
  "implementor \<Rightarrow> block \<Rightarrow> nat \<Rightarrow> nat \<Rightarrow> storage \<Rightarrow> (nat \<times> block \<times> storage) res" where
  "impl_load_from i from off fromLen ds =
     (case i of
        Static_implementor n _ \<Rightarrow> static_load_from n from off fromLen ds
      | None_implementor \<Rightarrow> none_load_from from off fromLen ds
      | Blob_implementor \<Rightarrow> blob_load_from from off fromLen ds
      | String_implementor \<Rightarrow> string_load_from from off fromLen ds
      | Bigint_implementor \<Rightarrow> bigint_load_from from off fromLen ds)"

text \<open>\<open>get_size\<close> of each implementor.\<close>

definition blob_impl_size :: "storage \<Rightarrow> nat res" where
  "blob_impl_size ds = bindr (as_block ds) (\<lambda>m. bindr (blob_get_size m 0) (\<lambda>n. Inr (n + 4)))"

definition string_impl_size :: "storage \<Rightarrow> nat res" where
  "string_impl_size ds = bindr (as_block ds) (\<lambda>m. bindr (cstr_at m 0) (\<lambda>s. Inr (length s + 1)))"

definition bigint_impl_size :: "storage \<Rightarrow> nat res" where
  "bigint_impl_size ds = bindr (as_bigint ds) (\<lambda>b. Inr (length (big_to_string b) + 1))"

definition none_impl_size :: "storage \<Rightarrow> nat res" where
  "none_impl_size ds = Inr 0"

definition impl_get_size :: "implementor \<Rightarrow> storage \<Rightarrow> nat res" where
  "impl_get_size i ds =
     (case i of
        Static_implementor n _ \<Rightarrow> Inr n
      | None_implementor \<Rightarrow> none_impl_size ds
      | Blob_implementor \<Rightarrow> blob_impl_size ds
      | String_implementor \<Rightarrow> string_impl_size ds
      | Bigint_implementor \<Rightarrow> bigint_impl_size ds)"

text \<open>\<open>load_to\<close> of each implementor: the bytes written and the target block.\<close>

definition static_load_to :: "nat \<Rightarrow> block \<Rightarrow> nat \<Rightarrow> nat \<Rightarrow> storage \<Rightarrow> (nat \<times> block) res" where
  "static_load_to n to off bufSize ds =
     bindr (require_at_least bufSize n) (\<lambda>_.
     bindr (as_block ds) (\<lambda>m.
     bindr (memcpy to off m 0 n) (\<lambda>to'. Inr (n, to'))))"

definition blob_load_to :: "block \<Rightarrow> nat \<Rightarrow> nat \<Rightarrow> storage \<Rightarrow> (nat \<times> block) res" where
  "blob_load_to to off bufSize ds =
     bindr (as_block ds) (\<lambda>m.
     bindr (blob_get_size m 0) (\<lambda>n.
     bindr (require_at_least bufSize (n + 4)) (\<lambda>_.
     bindr (blob_copy_to m 0 to off) (\<lambda>to'. Inr (n + 4, to')))))"

text \<open>The string implementor does not look at the size of the target.\<close>

definition string_load_to :: "block \<Rightarrow> nat \<Rightarrow> nat \<Rightarrow> storage \<Rightarrow> (nat \<times> block) res" where
  "string_load_to to off bufSize ds =
     bindr (string_impl_size ds) (\<lambda>strZLen.
     bindr (as_block ds) (\<lambda>m.
     bindr (memcpy to off m 0 strZLen) (\<lambda>to'. Inr (strZLen, to'))))"

definition bigint_load_to :: "block \<Rightarrow> nat \<Rightarrow> nat \<Rightarrow> storage \<Rightarrow> (nat \<times> block) res" where
  "bigint_load_to to off bufSize ds =
     bindr (as_bigint ds) (\<lambda>b.
       let str = big_to_string b; sz = length str + 1
       in bindr (require_at_least bufSize sz) (\<lambda>_.
          bindr (memcpy to off (zstr str) 0 sz) (\<lambda>to'. Inr (sz, to'))))"

definition none_load_to :: "block \<Rightarrow> nat \<Rightarrow> nat \<Rightarrow> storage \<Rightarrow> (nat \<times> block) res" where
  "none_load_to to off bufSize ds = Inr (0, to)"

definition impl_load_to ::
  "implementor \<Rightarrow> block \<Rightarrow> nat \<Rightarrow> nat \<Rightarrow> storage \<Rightarrow> (nat \<times> block) res" where
  "impl_load_to i to off bufSize ds =
     (case i of
        Static_implementor n _ \<Rightarrow> static_load_to n to off bufSize ds
      | None_implementor \<Rightarrow> none_load_to to off bufSize ds
      | Blob_implementor \<Rightarrow> blob_load_to to off bufSize ds
      | String_implementor \<Rightarrow> string_load_to to off bufSize ds
      | Bigint_implementor \<Rightarrow> bigint_load_to to off bufSize ds)"

lemmas impl_small = static_init_def blob_init_def bigint_init_def none_init_def string_init_def
  none_load_from_def none_load_to_def none_impl_size_def

section \<open>The table of data types\<close>

type_synonym dtype_t = nat

definition DTYPE_NONE :: dtype_t where "DTYPE_NONE = 0"
definition DTYPE_BLOB :: dtype_t where "DTYPE_BLOB = 1"
definition DTYPE_STRING :: dtype_t where "DTYPE_STRING = 2"
definition DTYPE_INT8 :: dtype_t where "DTYPE_INT8 = 3"
definition DTYPE_UINT8 :: dtype_t where "DTYPE_UINT8 = 4"
definition DTYPE_INT16 :: dtype_t where "DTYPE_INT16 = 5"
definition DTYPE_UINT16 :: dtype_t where "DTYPE_UINT16 = 6"
definition DTYPE_INT32 :: dtype_t where "DTYPE_INT32 = 7"
definition DTYPE_UINT32 :: dtype_t where "DTYPE_UINT32 = 8"
definition DTYPE_FLOAT :: dtype_t where "DTYPE_FLOAT = 9"
definition DTYPE_DOUBLE :: dtype_t where "DTYPE_DOUBLE = 10"
definition DTYPE_BIGINT :: dtype_t where "DTYPE_BIGINT = 11"

lemmas dtype_ids = DTYPE_NONE_def DTYPE_BLOB_def DTYPE_STRING_def DTYPE_INT8_def DTYPE_UINT8_def
  DTYPE_INT16_def DTYPE_UINT16_def DTYPE_INT32_def DTYPE_UINT32_def DTYPE_FLOAT_def
  DTYPE_DOUBLE_def DTYPE_BIGINT_def

definition implementors :: "(dtype_t \<times> implementor) list" where
  "implementors =
    [(DTYPE_INT8, int8_implementor),
     (DTYPE_UINT8, uint8_implementor),
     (DTYPE_INT16, int16_implementor),
     (DTYPE_UINT16, uint16_implementor),
     (DTYPE_INT32, int32_implementor),
     (DTYPE_UINT32, uint32_implementor),
     (DTYPE_FLOAT, float_implementor),
     (DTYPE_DOUBLE, double_implementor),
     (DTYPE_BLOB, Blob_implementor),
     (DTYPE_STRING, String_implementor),
     (DTYPE_NONE, None_implementor),
     (DTYPE_BIGINT, Bigint_implementor)]"

definition has_type :: "dtype_t \<Rightarrow> bool" where
  "has_type dt = (map_of implementors dt \<noteq> None)"

definition get_implementor :: "dtype_t \<Rightarrow> implementor option" where
  "get_implementor dt = map_of implementors dt"

section \<open>\<open>db_object\<close>\<close>

record db_object =
  obj_ds :: storage
  obj_dtype :: dtype_t
  obj_key :: string

text \<open>\<open>get_implementor().value()\<close> throws when the type is unknown.\<close>

definition obj_implementor :: "db_object \<Rightarrow> implementor res" where
  "obj_implementor obj =
     (case get_implementor (obj_dtype obj) of None \<Rightarrow> Inl Bad_Optional | Some i \<Rightarrow> Inr i)"

definition obj_clear :: "db_object \<Rightarrow> db_object res" where
  "obj_clear obj = bindr (obj_implementor obj) (\<lambda>i. Inr (obj\<lparr>obj_ds := impl_init i (obj_ds obj)\<rparr>))"

definition db_object_new :: "dtype_t \<Rightarrow> string \<Rightarrow> db_object res" where
  "db_object_new dt key = obj_clear \<lparr>obj_ds = Null_ptr, obj_dtype = dt, obj_key = key\<rparr>"

definition db_object_of_key :: "string \<Rightarrow> db_object res" where
  "db_object_of_key key = db_object_new DTYPE_NONE key"

definition obj_set_type :: "db_object \<Rightarrow> dtype_t \<Rightarrow> db_object res" where
  "obj_set_type obj dt =
     (if dt = obj_dtype obj then Inr obj
      else if \<not> has_type dt then Inl (Invalid_Dtype dt)
      else obj_clear (obj\<lparr>obj_dtype := dt\<rparr>))"

definition obj_get_type :: "db_object \<Rightarrow> dtype_t" where
  "obj_get_type obj = obj_dtype obj"

definition obj_is_numeric :: "db_object \<Rightarrow> bool res" where
  "obj_is_numeric obj = bindr (obj_implementor obj) (\<lambda>i. Inr (impl_is_numeric i))"

definition obj_is_dynamic :: "db_object \<Rightarrow> bool res" where
  "obj_is_dynamic obj = bindr (obj_implementor obj) (\<lambda>i. Inr (impl_is_dynamic i))"

definition obj_get_size :: "db_object \<Rightarrow> nat res" where
  "obj_get_size obj = bindr (obj_implementor obj) (\<lambda>i. impl_get_size i (obj_ds obj))"

definition obj_write_to :: "db_object \<Rightarrow> block \<Rightarrow> nat \<Rightarrow> nat \<Rightarrow> (nat \<times> block) res" where
  "obj_write_to obj to off bufSize =
     bindr (obj_implementor obj) (\<lambda>i. impl_load_to i to off bufSize (obj_ds obj))"

definition obj_load_from ::
  "db_object \<Rightarrow> block \<Rightarrow> nat \<Rightarrow> nat \<Rightarrow> (nat \<times> block \<times> db_object) res" where
  "obj_load_from obj from off bufSize =
     bindr (obj_implementor obj) (\<lambda>i.
     bindr (impl_load_from i from off bufSize (obj_ds obj)) (\<lambda>(n, from', ds).
       Inr (n, from', obj\<lparr>obj_ds := ds\<rparr>)))"

definition obj_get_key :: "db_object \<Rightarrow> string" where
  "obj_get_key obj = obj_key obj"

end
