(* ===== verification/Dtypes_Codec.thy ===== *)
theory Dtypes_Codec
  imports Dtypes
begin

text \<open>
  The contract of \<open>implementor_base\<close> as an interface: a storage in good standing has a byte
  image, \<open>get_size\<close> tells its length, \<open>load_to\<close> writes exactly the image, and \<open>load_from\<close> of
  the image restores the storage. Every implementor of the table fulfils it.
\<close>

section \<open>The interface\<close>

locale value_codec =
  fixes load_from :: "block \<Rightarrow> nat \<Rightarrow> nat \<Rightarrow> storage \<Rightarrow> (nat \<times> block \<times> storage) res"
    and load_to :: "block \<Rightarrow> nat \<Rightarrow> nat \<Rightarrow> storage \<Rightarrow> (nat \<times> block) res"
    and get_size :: "storage \<Rightarrow> nat res"
    and ready :: "storage \<Rightarrow> bool"
    and valid :: "storage \<Rightarrow> bool"
    and image :: "storage \<Rightarrow> block"
  assumes get_size_image: "valid ds \<Longrightarrow> get_size ds = Inr (length (image ds))"
    and load_to_image:
      "\<lbrakk>valid ds; length (image ds) \<le> n; off + n \<le> length to\<rbrakk> \<Longrightarrow>
       load_to to off n ds = Inr (length (image ds), put to off (image ds))"
    and load_from_image:
      "\<lbrakk>valid ds; ready ds0; length (image ds) \<le> n; off + n \<le> length from;
        take (length (image ds)) (drop off from) = image ds\<rbrakk> \<Longrightarrow>
       \<exists>k. load_from from off n ds0 = Inr (k, from, ds)"
begin

text \<open>Writing into a block of the announced size and loading from there is the identity.\<close>

lemma write_load:
  assumes "valid ds" "ready ds0" "get_size ds = Inr n" "off + n \<le> length to"
  shows "\<exists>k to'. load_to to off n ds = Inr (n, to') \<and> length to' = length to \<and>
           load_from to' off n ds0 = Inr (k, to', ds)"
proof -
  have n: "n = length (image ds)" using assms(1,3) get_size_image by simp
  let ?to = "put to off (image ds)"
  have l: "length ?to = length to" using assms(4) n by (simp add: length_put)
  have "take (length (image ds)) (drop off ?to) = image ds"
    using assms(4) n by (intro put_read) simp
  then obtain k where "load_from ?to off n ds0 = Inr (k, ?to, ds)"
    using load_from_image [OF assms(1,2), of n off ?to] assms(4) n l by auto
  then show ?thesis using load_to_image [OF assms(1), of n off to] assms(4) n l by auto
qed

text \<open>The bytes around the value are not touched.\<close>

lemma write_frame:
  assumes "valid ds" "get_size ds = Inr n" "off + n \<le> length to" "load_to to off n ds = Inr (k, to')"
  shows "take off to' = take off to \<and> drop (off + n) to' = drop (off + n) to"
proof -
  have n: "n = length (image ds)" using assms(1,2) get_size_image by simp
  then have "to' = put to off (image ds)" using load_to_image [OF assms(1), of n off to] assms by simp
  then show ?thesis using put_frame [of off "image ds" to] assms(3) n by simp
qed

end

section \<open>Images of the storages\<close>

text \<open>The storages of one implementor that \<open>load_from\<close> builds from well-formed data.\<close>

definition blob_ok :: "block \<Rightarrow> bool" where
  "blob_ok m \<longleftrightarrow> 4 \<le> length m \<and> length m < 2 ^ 32 \<and> le_val (take 4 m) + 4 = length m"

definition string_ok :: "block \<Rightarrow> bool" where
  "string_ok m \<longleftrightarrow> m \<noteq> [] \<and> last m = nul \<and> plain (butlast m) \<and> length m < size_max"

definition valid_storage :: "implementor \<Rightarrow> storage \<Rightarrow> bool" where
  "valid_storage i ds =
     (case i of
        Static_implementor n _ \<Rightarrow> (case ds of Mem m \<Rightarrow> length m = n | _ \<Rightarrow> False)
      | None_implementor \<Rightarrow> ds = Null_ptr
      | Blob_implementor \<Rightarrow> (case ds of Mem m \<Rightarrow> blob_ok m | _ \<Rightarrow> False)
      | String_implementor \<Rightarrow> (case ds of Mem m \<Rightarrow> string_ok m | _ \<Rightarrow> False)
      | Bigint_implementor \<Rightarrow> (case ds of Big_ptr b \<Rightarrow> big_ok b | _ \<Rightarrow> False))"

definition image :: "storage \<Rightarrow> block" where
  "image ds = (case ds of Null_ptr \<Rightarrow> [] | Mem m \<Rightarrow> m | Big_ptr b \<Rightarrow> zstr (big_to_string b))"

text \<open>What \<open>init\<close> leaves: the storage an implementor loads into.\<close>

definition ready :: "implementor \<Rightarrow> storage \<Rightarrow> bool" where
  "ready i ds =
     (case i of
        None_implementor \<Rightarrow> ds = Null_ptr
      | Bigint_implementor \<Rightarrow> (\<exists>b. ds = Big_ptr b)
      | _ \<Rightarrow> True)"

lemma ready_init [simp]: "ready i (impl_init i ds)"
  by (cases i) (simp_all add: ready_def impl_init_def impl_small mp_assign_def)

lemma image_simps [simp]:
  "image Null_ptr = []" "image (Mem m) = m" "image (Big_ptr b) = zstr (big_to_string b)"
  by (simp_all add: image_def)

lemma mp_assign_eq [simp]: "mp_assign ds p = p"
  by (simp add: mp_assign_def)

lemma require_simps [simp]:
  "required \<le> bytes \<Longrightarrow> require_at_least bytes required = Inr ()"
  "bytes < required \<Longrightarrow> require_at_least bytes required = Inl Unsufficient_Space"
  by (simp_all add: require_at_least_def)

lemma take_prefix: "take n xs = take n ys \<Longrightarrow> m \<le> n \<Longrightarrow> take m xs = take m ys"
  by (metis min.absorb1 take_take)

section \<open>The scan for the terminating zero\<close>

lemma mxsz_scan_result:
  "off + sz + n \<le> length src \<Longrightarrow>
     mxsz_scan src off sz n = Inr (sz + length (takeWhile (\<lambda>c. c \<noteq> nul) (take n (drop (off + sz) src))))"
proof (induction src off sz n rule: mxsz_scan.induct)
  case (2 src off sz n)
  then have "drop (off + sz) src = src ! (off + sz) # drop (off + sz + 1) src"
    by (simp add: Cons_nth_drop_Suc)
  with 2 show ?case by (simp add: rd_def)
qed simp

lemma get_string_found:
  assumes "off + n \<le> length src" "nul \<in> set (take n (drop off src))"
  shows "get_string_mxsz src off n =
           Inr (src, length (takeWhile (\<lambda>c. c \<noteq> nul) (take n (drop off src))))"
proof -
  have "length (takeWhile (\<lambda>c. c \<noteq> nul) (take n (drop off src))) < length (take n (drop off src))"
    by (rule takeWhile_shorter [OF assms(2)]) simp
  then show ?thesis using assms mxsz_scan_result [of off 0 n src]
    by (simp add: get_string_mxsz_def)
qed

lemma get_string_missing:
  assumes "off + n \<le> length src" "0 < n" "n < size_max" "nul \<notin> set (take n (drop off src))"
  shows "get_string_mxsz src off n = Inr (src[off + n - 1 := nul], n - 1)"
proof -
  have "length (takeWhile (\<lambda>c. c \<noteq> nul) (take n (drop off src))) = length (take n (drop off src))"
    by (rule takeWhile_full) (use assms(4) in auto)
  then have s: "mxsz_scan src off 0 n = Inr n" using assms mxsz_scan_result [of off 0 n src] by simp
  have "nat (int off + int n - 1) = off + n - 1" using assms(2) by simp
  then have "wr src (int off + int n - 1) nul = Inr (src[off + n - 1 := nul])"
    using assms(1,2) by (auto simp: wr_def)
  with s show ?thesis using assms by (simp add: get_string_mxsz_def)
qed

lemma prefix_zero:
  assumes "plain s" "length (zstr s) \<le> n" "off + n \<le> length from"
    and "take (length (zstr s)) (drop off from) = zstr s"
  shows "nul \<in> set (take n (drop off from))"
    and "takeWhile (\<lambda>c. c \<noteq> nul) (take n (drop off from)) = s"
    and "cstr_at from off = Inr s"
proof -
  have "\<exists>r. drop off from = zstr s @ r" using assms(4) by (metis append_take_drop_id)
  then obtain r where d: "drop off from = s @ nul # r" by (auto simp: zstr_def)
  moreover have "take n (s @ nul # r) = s @ nul # take (n - length s - 1) r"
    using assms(2) by (simp add: take_Cons')
  ultimately have e: "take n (drop off from) = s @ nul # take (n - length s - 1) r" by simp
  show "nul \<in> set (take n (drop off from))" by (simp add: e)
  show "takeWhile (\<lambda>c. c \<noteq> nul) (take n (drop off from)) = s"
    unfolding e by (rule takeWhile_plain [OF assms(1)])
  show "cstr_at from off = Inr s" by (rule cstr_at_zstr [OF assms(1), of off "from" r]) (simp add: d zstr_def)
qed

section \<open>The implementors\<close>

lemma string_okE:
  assumes "string_ok m"
  obtains s where "m = zstr s" "plain s" "length s + 1 < size_max"
proof
  show "m = zstr (butlast m)" using assms by (metis string_ok_def zstr_def append_butlast_last_id)
  show "plain (butlast m)" "length (butlast m) + 1 < size_max" using assms by (auto simp: string_ok_def)
qed

lemma dec_plain: "is_dec s \<Longrightarrow> plain s"
  by (auto simp: is_dec_def plain_def schar_def)

lemma big_text_plain:
  assumes "big_ok b"
  shows "plain (big_to_string b)" "big_to_string b \<noteq> []"
proof -
  have ok: "digits_ok (big_a b)" using assms by (auto simp: big_ok_def big_wf_def)
  have e: "big_to_string b = (if big_sign b = -1 then ''-'' else '''') @ print_digits b"
    by (simp add: big_to_string_def big_print_def print_digits_def)
  have "plain (print_digits b)" using print_digits_val(2) [OF ok] by (rule dec_plain)
  then show "plain (big_to_string b)" by (auto simp: e plain_def)
  have "print_digits b \<noteq> []"
    using show_digit(4) [of 0] show_digit(4) [of "last (big_a b)"] ok
    by (cases "big_a b" rule: rev_cases) (auto simp: print_digits_def)
  then show "big_to_string b \<noteq> []" by (simp add: e)
qed

lemma blob_size_at:
  assumes "blob_ok m" "take (length m) (drop off from) = m" "off + length m \<le> length from"
  shows "blob_get_size from off = Inr (length m - 4)"
proof -
  have "take 4 (drop off from) = take 4 m" using assms(1,2) by (metis blob_ok_def min.absorb1 take_take)
  then show ?thesis using assms by (auto simp: blob_get_size_def blob_ok_def)
qed

lemma blob_size_0: "blob_ok m \<Longrightarrow> blob_get_size m 0 = Inr (length m - 4)"
  using blob_size_at [of m 0 m] by simp

lemma valid_storageE:
  assumes "valid_storage i ds"
  obtains (static) n num m where "i = Static_implementor n num" "ds = Mem m" "length m = n"
  | (none) "i = None_implementor" "ds = Null_ptr"
  | (blob) m where "i = Blob_implementor" "ds = Mem m" "blob_ok m"
  | (str) s where "i = String_implementor" "ds = Mem (zstr s)" "plain s" "length s + 1 < size_max"
  | (big) b where "i = Bigint_implementor" "ds = Big_ptr b" "big_ok b"
  using assms
  by (cases i; cases ds) (auto simp: valid_storage_def elim: string_okE)

lemma impl_size_image:
  assumes "valid_storage i ds"
  shows "impl_get_size i ds = Inr (length (image ds))"
  using assms
  by (cases rule: valid_storageE)
    (auto simp: impl_get_size_def impl_small blob_impl_size_def string_impl_size_def bigint_impl_size_def
      as_block_def as_bigint_def blob_size_0 blob_ok_def)

lemma impl_to_image:
  assumes "valid_storage i ds" "length (image ds) \<le> n" "off + n \<le> length to"
  shows "impl_load_to i to off n ds = Inr (length (image ds), put to off (image ds))"
  using assms(1)
proof (cases rule: valid_storageE)
  case none
  then show ?thesis by (simp add: impl_load_to_def impl_small put_def)
next
  case (blob m)
  then show ?thesis using assms blob_size_0 [of m]
    by (auto simp: impl_load_to_def blob_load_to_def blob_copy_to_def as_block_def memcpy_ok blob_ok_def)
next
  case (str s)
  then show ?thesis using assms
    by (simp add: impl_load_to_def string_load_to_def string_impl_size_def as_block_def memcpy_ok)
next
  case (big b)
  then show ?thesis using assms
    by (simp add: impl_load_to_def bigint_load_to_def as_bigint_def memcpy_ok Let_def)
qed (use assms in \<open>simp add: impl_load_to_def static_load_to_def as_block_def memcpy_ok\<close>)

lemma impl_from_image:
  assumes "valid_storage i ds" "ready i ds0" "length (image ds) \<le> n" "off + n \<le> length from"
    and img: "take (length (image ds)) (drop off from) = image ds"
  shows "\<exists>k. impl_load_from i from off n ds0 = Inr (k, from, ds)"
  using assms(1)
proof (cases rule: valid_storageE)
  case none
  then show ?thesis using assms(2) by (simp add: impl_load_from_def impl_small ready_def)
next
  case (blob m)
  have g: "blob_get_size from off = Inr (length m - 4)"
    by (rule blob_size_at) (use blob assms in simp_all)
  have "memcpy (replicate (length m) nul) 0 from off (length m) = Inr m"
    using blob assms by (simp add: memcpy_ok put_all)
  then show ?thesis using blob g assms(3)
    by (auto simp: impl_load_from_def blob_load_from_def blob_copy_to_def blob_ok_def)
next
  case (str s)
  have p: "plain s" "length (zstr s) \<le> n" "take (length (zstr s)) (drop off from) = zstr s"
    using str assms by simp_all
  note z = prefix_zero [OF p(1,2) assms(4) p(3)]
  have "memcpy (replicate (length s + 1) nul) 0 from off (length s + 1) = Inr (zstr s)"
    using p assms(4) by (simp add: memcpy_ok put_all)
  then show ?thesis using str get_string_found [OF assms(4) z(1)] z(2)
    by (simp add: impl_load_from_def string_load_from_def)
next
  case (big b)
  have p: "plain (big_to_string b)" "length (zstr (big_to_string b)) \<le> n"
    "take (length (zstr (big_to_string b))) (drop off from) = zstr (big_to_string b)"
    using big assms big_text_plain by simp_all
  note z = prefix_zero [OF p(1,2) assms(4) p(3)]
  have "2 \<le> n" using p(2) big_text_plain(2) [OF big(3)] by (cases "big_to_string b") auto
  moreover obtain b0 where "ds0 = Big_ptr b0" using assms(2) big(1) by (auto simp: ready_def)
  ultimately show ?thesis
    using big get_string_found [OF assms(4) z(1)] z(2,3) big_read_print [OF big(3)]
    by (simp add: impl_load_from_def bigint_load_from_def as_bigint_def)
qed (use assms in \<open>simp add: impl_load_from_def static_load_from_def\<close>)

interpretation impl: value_codec
  "impl_load_from i" "impl_load_to i" "impl_get_size i" "ready i" "valid_storage i" image for i
  by unfold_locales (simp_all add: impl_size_image impl_to_image impl_from_image)

end
