(* ===== verification/Hash.thy ===== *)
theory Hash
  imports Bytes
begin

text \<open>
  \<open>hash.h\<close> and \<open>flags.h\<close>: the hash the database keys are stored under, the mixing function
  for compound keys, and the packed flag bytes of a message. A \<open>size_t\<close> is a \<open>64 word\<close> here,
  since the hash lives on the wrap-around of its arithmetic.
\<close>

unbundle bit_operations_syntax

section \<open>\<open>hash.h\<close>\<close>

type_synonym hash_t = "64 word"

text \<open>\<open>((h << 5) + h) + c\<close>, with the signed \<open>char\<close> promoted to \<open>int\<close> and then to \<open>size_t\<close>.\<close>

definition hash_step :: "hash_t \<Rightarrow> char \<Rightarrow> hash_t" where
  "hash_step h c = (push_bit 5 h + h) + word_of_int (schar c)"

text \<open>The loop over the characters before the terminating zero.\<close>

definition string_hash :: "string \<Rightarrow> hash_t" where
  "string_hash s = foldl hash_step 5381 s"

text \<open>\<open>std::hash<const char*>\<close> of a pointer into a block.\<close>

definition make_hash :: "block \<Rightarrow> nat \<Rightarrow> hash_t res" where
  "make_hash m off = bindr (cstr_at m off) (\<lambda>s. Inr (string_hash s))"

text \<open>\<open>hash_combine\<close> over the hashes of the remaining arguments.\<close>

fun hash_combine :: "hash_t \<Rightarrow> hash_t list \<Rightarrow> hash_t" where
  "hash_combine seed [] = seed"
| "hash_combine seed (v # rest) =
     hash_combine (seed XOR (v + 0x9e3779b9 + push_bit 6 seed + drop_bit 2 seed)) rest"

text \<open>\<open>MAKE_HASHABLE\<close>: the seed starts at zero.\<close>

definition hash_fields :: "hash_t list \<Rightarrow> hash_t" where
  "hash_fields vs = hash_combine 0 vs"

lemma hash_step_mult: "hash_step h c = 33 * h + word_of_int (schar c)"
  by (simp add: hash_step_def push_bit_eq_mult)

lemma string_hash_Nil [simp]: "string_hash [] = 5381"
  by (simp add: string_hash_def)

lemma string_hash_snoc: "string_hash (s @ [c]) = 33 * string_hash s + word_of_int (schar c)"
  by (simp add: string_hash_def hash_step_mult)

text \<open>Two states of the loop stay different by the same multiple of a power of 33.\<close>

lemma foldl_hash_diff:
  "foldl hash_step g s - foldl hash_step h s = 33 ^ length s * (g - h)"
proof (induction s arbitrary: g h)
  case (Cons c s)
  have "foldl hash_step g (c # s) - foldl hash_step h (c # s)
      = 33 ^ length s * (hash_step g c - hash_step h c)"
    by (simp only: foldl_Cons Cons.IH)
  also have "hash_step g c - hash_step h c = 33 * (g - h)"
    by (simp add: hash_step_mult right_diff_distrib)
  finally show ?case by (simp only: length_Cons power_Suc2 mult.assoc)
qed simp

lemma word_33_inverse: "(33 :: hash_t) * 0x0f83e0f83e0f83e1 = 1"
  by simp

lemma pow_33_cancel: "(33 :: hash_t) ^ n * x = 0 \<Longrightarrow> x = 0"
proof (induction n)
  case (Suc n)
  have "33 ^ n * x = (33 * 0x0f83e0f83e0f83e1) * (33 ^ n * x)" by (simp only: word_33_inverse mult_1)
  also have "\<dots> = 0x0f83e0f83e0f83e1 * (33 ^ Suc n * x)" by (simp only: power_Suc ac_simps)
  also have "\<dots> = 0" using Suc.prems by simp
  finally show ?case by (rule Suc.IH)
qed simp

lemma of_char_int: "0 \<le> (of_char c :: int)" "(of_char c :: int) < 256"
  by (metis of_nat_of_char of_nat_0_le_iff)
    (metis nat_of_char_less_256 of_nat_of_char of_nat_less_iff of_nat_numeral)

lemma schar_range: "- 128 \<le> schar c \<and> schar c < 128"
  using of_char_int [of c] by (simp add: schar_def Let_def)

lemma schar_inj: "schar c = schar d \<longleftrightarrow> c = d"
proof
  assume "schar c = schar d"
  then have "(of_char c :: int) = of_char d"
    unfolding schar_def Let_def using of_char_int [of c] of_char_int [of d] by (simp split: if_splits)
  then show "c = d" by (rule of_char_eqI)
qed simp

lemma word_schar_inj: "(word_of_int (schar c) :: hash_t) = word_of_int (schar d) \<longleftrightarrow> c = d"
proof
  assume "(word_of_int (schar c) :: hash_t) = word_of_int (schar d)"
  then have "schar c mod 2 ^ 64 = schar d mod 2 ^ 64"
    by (simp add: word_of_int_eq_iff take_bit_eq_mod)
  then have "2 ^ 64 dvd schar c - schar d" by (simp only: mod_eq_dvd_iff)
  moreover have "\<bar>schar c - schar d\<bar> < 2 ^ 64" using schar_range [of c] schar_range [of d] by auto
  ultimately have "schar c = schar d" using dvd_imp_le_int [of "schar c - schar d" "2 ^ 64"] by auto
  then show "c = d" by (simp add: schar_inj)
qed simp

section \<open>\<open>flags.h\<close>\<close>

type_synonym flag_bytes = "8 word list"

definition bytes_count :: "nat \<Rightarrow> nat" where
  "bytes_count count = count div 8 + 1"

definition flag_mask :: "nat \<Rightarrow> 8 word" where
  "flag_mask index = push_bit (7 - (index - 8 * (index div 8))) 1"

definition flags_get :: "flag_bytes \<Rightarrow> nat \<Rightarrow> bool" where
  "flags_get data index = ((data ! (index div 8)) AND flag_mask index \<noteq> 0)"

definition flags_set :: "flag_bytes \<Rightarrow> nat \<Rightarrow> bool \<Rightarrow> flag_bytes" where
  "flags_set data index val =
     (let byteIndex = index div 8
      in if val then data[byteIndex := (data ! byteIndex) OR flag_mask index]
         else data[byteIndex := (data ! byteIndex) AND NOT (flag_mask index)])"

lemma bit_flag_mask: "bit (flag_mask i) n \<longleftrightarrow> n = 7 - i mod 8"
proof -
  have "flag_mask i = push_bit (7 - i mod 8) 1"
    by (simp only: flag_mask_def minus_mult_div_eq_mod)
  then show ?thesis
    by (auto simp: bit_push_bit_iff bit_1_iff simp del: push_bit_of_1)
qed

lemma and_mask_bit: "(b AND flag_mask i \<noteq> 0) \<longleftrightarrow> bit b (7 - i mod 8)"
proof -
  have "(b AND flag_mask i \<noteq> 0) \<longleftrightarrow> (\<exists>n. bit (b AND flag_mask i) n)"
    by (metis bit_0_eq bit_eqI bot_apply bot_bool_def)
  then show ?thesis by (auto simp: bit_and_iff bit_flag_mask)
qed

lemma flags_get_bit: "flags_get data i = bit (data ! (i div 8)) (7 - i mod 8)"
  by (simp add: flags_get_def and_mask_bit)

lemma flag_position:
  fixes i j :: nat
  assumes "i div 8 = j div 8"
  shows "7 - i mod 8 = 7 - j mod 8 \<longleftrightarrow> i = j"
proof -
  have "i mod 8 < 8" "j mod 8 < 8" by simp_all
  then have "7 - i mod 8 = 7 - j mod 8 \<longleftrightarrow> i mod 8 = j mod 8" by arith
  then show ?thesis using assms div_mult_mod_eq [of i 8] div_mult_mod_eq [of j 8] by metis
qed

lemma bytes_count_covers: "i < count \<Longrightarrow> i div 8 < bytes_count count"
  by (simp add: bytes_count_def div_le_mono less_Suc_eq_le)

lemma flags_get_set:
  assumes "length data = bytes_count count" "i < count" "j < count"
  shows "flags_get (flags_set data i val) j = (if i = j then val else flags_get data j)"
proof (cases "i div 8 = j div 8")
  case True
  have "i div 8 < length data" using assms bytes_count_covers by metis
  then show ?thesis using True flag_position [OF True]
    by (auto simp: flags_set_def Let_def flags_get_bit bit_or_iff bit_and_iff bit_not_iff bit_flag_mask)
next
  case False
  then have "i \<noteq> j" by auto
  with False show ?thesis by (simp add: flags_set_def Let_def flags_get_bit)
qed

lemma length_flags_set [simp]: "length (flags_set data i val) = length data"
  by (simp add: flags_set_def Let_def)

end
