(* ===== verification/Streams.thy ===== *)
theory Streams
  imports Bytes
begin

text \<open>
  \<open>abstract_stream.h\<close>, \<open>utils.h\<close>, \<open>db_vector.h\<close> and \<open>segment_container.h\<close>: the file stream
  the database is stored in, the two wrappers around it, and the containers written through
  them.

  A \<open>std::fstream\<close> is the content of its file, the one position a file buffer has for
  reading and writing, and the error state that makes every later operation do nothing.
\<close>

section \<open>\<open>std::fstream\<close>\<close>

record fstream =
  fs_data :: block
  fs_pos :: nat
  fs_fail :: bool

text \<open>\<open>write\<close>: overwrites at the position and extends the file at its end.\<close>

definition fs_write :: "block \<Rightarrow> fstream \<Rightarrow> fstream" where
  "fs_write xs s =
     (if fs_fail s then s
      else s\<lparr>fs_data := take (fs_pos s) (fs_data s @ replicate (fs_pos s - length (fs_data s)) nul) @ xs @
                         drop (fs_pos s + length xs) (fs_data s),
             fs_pos := fs_pos s + length xs\<rparr>)"

text \<open>\<open>read\<close> of \<open>n\<close> bytes over \<open>dest\<close>: what is there is stored, a short read sets the error state.\<close>

definition fs_read :: "block \<Rightarrow> nat \<Rightarrow> fstream \<Rightarrow> block \<times> fstream" where
  "fs_read dest n s =
     (if fs_fail s then (dest, s)
      else let xs = take n (drop (fs_pos s) (fs_data s))
           in (xs @ drop (length xs) dest,
               s\<lparr>fs_pos := fs_pos s + length xs, fs_fail := length xs < n\<rparr>))"

datatype seekdir = Beg | Cur | End

definition fs_tell :: "fstream \<Rightarrow> int" where
  "fs_tell s = (if fs_fail s then -1 else int (fs_pos s))"

definition fs_seek :: "int \<Rightarrow> fstream \<Rightarrow> fstream" where
  "fs_seek pos s =
     (if fs_fail s then s
      else if pos < 0 then s\<lparr>fs_fail := True\<rparr>
      else s\<lparr>fs_pos := nat pos\<rparr>)"

definition fs_seek_off :: "int \<Rightarrow> seekdir \<Rightarrow> fstream \<Rightarrow> fstream" where
  "fs_seek_off off way s =
     fs_seek (off + (case way of Beg \<Rightarrow> 0 | Cur \<Rightarrow> int (fs_pos s) | End \<Rightarrow> int (length (fs_data s)))) s"

section \<open>\<open>abstract_stream\<close>\<close>

datatype seek_mode = Non_seekable | Seekable | Forward_seekable

text \<open>The wrappers forward; neither overrides \<open>get_seek_modeg\<close> or \<open>get_seek_modep\<close>.\<close>

definition istream_read :: "block \<Rightarrow> nat \<Rightarrow> fstream \<Rightarrow> block \<times> fstream" where
  "istream_read dest count is = fs_read dest count is"

definition istream_tellg :: "fstream \<Rightarrow> int" where
  "istream_tellg is = fs_tell is"

definition istream_seekg :: "int \<Rightarrow> fstream \<Rightarrow> fstream" where
  "istream_seekg pos is = fs_seek pos is"

definition istream_seekg_off :: "int \<Rightarrow> seekdir \<Rightarrow> fstream \<Rightarrow> fstream" where
  "istream_seekg_off off way is = fs_seek_off off way is"

definition get_seek_modeg :: "fstream \<Rightarrow> seek_mode" where
  "get_seek_modeg is = Non_seekable"

definition ostream_write :: "block \<Rightarrow> nat \<Rightarrow> fstream \<Rightarrow> fstream" where
  "ostream_write src srcLen os = fs_write (take srcLen src) os"

definition ostream_tellp :: "fstream \<Rightarrow> int" where
  "ostream_tellp os = fs_tell os"

definition ostream_seekp :: "int \<Rightarrow> fstream \<Rightarrow> fstream" where
  "ostream_seekp pos os = fs_seek pos os"

definition ostream_seekp_off :: "int \<Rightarrow> seekdir \<Rightarrow> fstream \<Rightarrow> fstream" where
  "ostream_seekp_off off way os = fs_seek_off off way os"

definition get_seek_modep :: "fstream \<Rightarrow> seek_mode" where
  "get_seek_modep os = Non_seekable"

section \<open>\<open>utils.h\<close>\<close>

text \<open>Objects without a \<open>stream_rw\<close> base are stored as their memory image.\<close>

definition write_object_generic :: "block \<Rightarrow> nat \<Rightarrow> fstream \<Rightarrow> fstream" where
  "write_object_generic p sz o1 = ostream_write p sz o1"

definition read_object_generic :: "block \<Rightarrow> nat \<Rightarrow> fstream \<Rightarrow> block \<times> fstream" where
  "read_object_generic dest sz i = istream_read dest sz i"

text \<open>\<open>write_object\<close> and \<open>read_object\<close> of a plain object, whose size is that of its image.\<close>

definition write_object :: "block \<Rightarrow> fstream \<Rightarrow> fstream" where
  "write_object val o1 = write_object_generic val (length val) o1"

definition read_object :: "block \<Rightarrow> fstream \<Rightarrow> block \<times> fstream" where
  "read_object dest i = read_object_generic dest (length dest) i"

text \<open>Both file-shifting helpers have an empty body.\<close>

definition insert_data_fstream :: "block \<Rightarrow> nat \<Rightarrow> fstream \<Rightarrow> nat \<Rightarrow> fstream" where
  "insert_data_fstream data sz fs oldSize = fs"

definition shift_stream :: "fstream \<Rightarrow> int \<Rightarrow> fstream" where
  "shift_stream fs offset = (if offset = 0 then fs else if offset < 0 then fs else fs)"

section \<open>\<open>char_arr\<close>\<close>

text \<open>
  \<open>memcpy_s (data, SIZE, str, sourceLen)\<close> followed by the check of its result. A source that is
  longer than the array is refused; a shorter one replaces the front only.
\<close>

definition char_arr_new :: "nat \<Rightarrow> block" where
  "char_arr_new SIZE = replicate SIZE nul"

definition char_arr_copy_from :: "block \<Rightarrow> string \<Rightarrow> block res" where
  "char_arr_copy_from data str =
     (if length data < length str
      then Inl (Db_Exception ''Failed to copy data from raw string to inner container'')
      else Inr (put data 0 str))"

definition char_arr_of :: "nat \<Rightarrow> string \<Rightarrow> block res" where
  "char_arr_of SIZE str = char_arr_copy_from (char_arr_new SIZE) str"

text \<open>What a stream prints of it: the characters before the first zero.\<close>

definition char_arr_print :: "block \<Rightarrow> string res" where
  "char_arr_print data = cstr_at data 0"

section \<open>\<open>db_vector.h\<close>\<close>

text \<open>Vectors of plain objects of one size, by their images.\<close>

fun write_elems :: "block list \<Rightarrow> fstream \<Rightarrow> fstream" where
  "write_elems [] s = s"
| "write_elems (x # xs) s = write_elems xs (write_object x s)"

definition write_vector :: "block list \<Rightarrow> fstream \<Rightarrow> fstream" where
  "write_vector vec s = write_elems vec (write_object (le_bytes 8 (length vec)) s)"

text \<open>\<open>reserve\<close> does not change the size, so \<open>vec[i]\<close> is an element only below the old size.\<close>

fun read_elems :: "nat \<Rightarrow> nat \<Rightarrow> block list \<Rightarrow> fstream \<Rightarrow> (block list \<times> fstream) res" where
  "read_elems i 0 vec s = Inr (vec, s)"
| "read_elems i (Suc n) vec s =
     (if i < length vec
      then let (x, s') = read_object (vec ! i) s in read_elems (i + 1) n (vec[i := x]) s'
      else Inl Out_Of_Bounds)"

text \<open>The size variable is uninitialised before the read: \<open>junk\<close> is its 8 bytes.\<close>

definition read_vector :: "block \<Rightarrow> block list \<Rightarrow> fstream \<Rightarrow> (block list \<times> fstream) res" where
  "read_vector junk vec s =
     (let (sz, s') = read_object junk s in read_elems 0 (le_val sz) vec s')"

section \<open>\<open>segment_container.h\<close>\<close>

record segmenent_preamble =
  seg_block_size :: nat
  seg_blocks_count :: nat
  seg_safe :: char
  seg_padding :: char
  seg_hash :: nat

text \<open>The memory image: 4 + 2 + 1 bytes, one byte of padding, 8 bytes.\<close>

definition preamble_image :: "segmenent_preamble \<Rightarrow> block" where
  "preamble_image p =
     le_bytes 4 (seg_block_size p) @ le_bytes 2 (seg_blocks_count p) @ [seg_safe p, seg_padding p] @
     le_bytes 8 (seg_hash p)"

definition preamble_of_image :: "block \<Rightarrow> segmenent_preamble" where
  "preamble_of_image m =
     \<lparr>seg_block_size = le_val (take 4 m), seg_blocks_count = le_val (take 2 (drop 4 m)),
      seg_safe = m ! 6, seg_padding = m ! 7, seg_hash = le_val (take 8 (drop 8 m))\<rparr>"

text \<open>\<open>adjust_blocks_count\<close>, with the conversion of the quotient to \<open>uint16_t\<close>.\<close>

definition adjust_blocks_count :: "nat \<Rightarrow> segmenent_preamble \<Rightarrow> segmenent_preamble res" where
  "adjust_blocks_count sz p =
     (if seg_block_size p = 0 then Inl Div_By_Zero
      else Inr (p\<lparr>seg_blocks_count :=
        (sz div seg_block_size p + (if sz mod seg_block_size p = 0 then 0 else 1)) mod 2 ^ 16\<rparr>))"

text \<open>\<open>get_size\<close>: the product is computed in \<open>unsigned int\<close>.\<close>

definition segment_get_size :: "segmenent_preamble \<Rightarrow> nat" where
  "segment_get_size p = (seg_blocks_count p * seg_block_size p) mod 2 ^ 32"

text \<open>\<open>malloc\<close> of a negative count gives null, which \<open>memset\<close> then writes through.\<close>

definition skip_bytes_o :: "int \<Rightarrow> fstream \<Rightarrow> fstream res" where
  "skip_bytes_o count o1 =
     (if count < 0 then Inl Null_Deref
      else Inr (ostream_write (replicate (nat count) nul) (nat count) o1))"

definition skip_bytes_i :: "int \<Rightarrow> fstream \<Rightarrow> fstream res" where
  "skip_bytes_i count i =
     (if get_seek_modeg i = Non_seekable then Inl Assert_Failed else Inr (istream_seekg count i))"

text \<open>The contained value: the size it reports, how it is written and how it is read.\<close>

definition segment_write_to ::
  "nat \<Rightarrow> (fstream \<Rightarrow> fstream) \<Rightarrow> segmenent_preamble \<Rightarrow> fstream \<Rightarrow> (segmenent_preamble \<times> fstream) res" where
  "segment_write_to sz write_val p o1 =
     bindr (adjust_blocks_count sz p) (\<lambda>p'.
       let o2 = write_object (preamble_image p') o1;
           startPos = ostream_tellp o2;
           o3 = write_val o2;
           endPos = ostream_tellp o3
       in bindr (skip_bytes_o (startPos + int (segment_get_size p') - endPos) o3) (\<lambda>o4. Inr (p', o4)))"

definition segment_read_from ::
  "(fstream \<Rightarrow> 'v \<times> fstream) \<Rightarrow> segmenent_preamble \<Rightarrow> fstream \<Rightarrow>
   (segmenent_preamble \<times> 'v \<times> nat \<times> fstream) res" where
  "segment_read_from read_val p i =
     (let (m, i1) = read_object (preamble_image p) i;
          p' = preamble_of_image m;
          startPos = istream_tellg i1;
          (v, i2) = read_val i1;
          endPos = istream_tellg i2;
          sz = endPos - startPos
      in if seg_block_size p' = 0 then Inl Div_By_Zero
         else let blocks_count = nat ((cdiv sz (int (seg_block_size p')) +
                    (if cmod sz (int (seg_block_size p')) = 0 then 0 else 1)) mod 2 ^ 64)
              in bindr (skip_bytes_i (startPos + i64 (int (blocks_count * seg_block_size p')) - endPos) i2)
                   (\<lambda>i3. Inr (p', v, blocks_count, i3)))"

section \<open>Lemmas\<close>

lemma fs_write_fields [simp]:
  "\<not> fs_fail s \<Longrightarrow> fs_pos (fs_write xs s) = fs_pos s + length xs"
  "fs_fail (fs_write xs s) = fs_fail s"
  by (simp_all add: fs_write_def)

lemma write_object_eq: "write_object xs s = fs_write xs s"
  by (simp add: write_object_def write_object_generic_def ostream_write_def)

lemma read_object_eq: "read_object dest s = fs_read dest (length dest) s"
  by (simp add: read_object_def read_object_generic_def istream_read_def)

lemma fs_write_data:
  "\<not> fs_fail s \<Longrightarrow> fs_pos s \<le> length (fs_data s) \<Longrightarrow>
   fs_data (fs_write xs s) = take (fs_pos s) (fs_data s) @ xs @ drop (fs_pos s + length xs) (fs_data s)"
  by (simp add: fs_write_def)

lemma fs_write_pos_le:
  "\<not> fs_fail s \<Longrightarrow> fs_pos s \<le> length (fs_data s) \<Longrightarrow> fs_pos (fs_write xs s) \<le> length (fs_data (fs_write xs s))"
  by (simp add: fs_write_data min_def)

text \<open>Two writes in a row are one.\<close>

lemma fs_write_append:
  assumes "fs_pos s \<le> length (fs_data s)"
  shows "fs_write ys (fs_write xs s) = fs_write (xs @ ys) s"
proof (cases "fs_fail s")
  case True
  then show ?thesis by (simp add: fs_write_def)
next
  case False
  then show ?thesis using assms
    by (simp add: fs_write_def min_def drop_drop add.commute add.left_commute)
qed

text \<open>Reading where the bytes are: no error, and the position moves on.\<close>

lemma fs_read_ok:
  assumes "\<not> fs_fail s" "drop (fs_pos s) (fs_data s) = xs @ rest" "length dest = length xs"
  shows "fs_read dest (length xs) s = (xs, s\<lparr>fs_pos := fs_pos s + length xs\<rparr>)"
  using assms by (simp add: fs_read_def Let_def)

end
