(* ===== verification/Db_Header.thy ===== *)
theory Db_Header
  imports Streams
begin

text \<open>
  \<open>db_header.h\<close> and \<open>db_header.cpp\<close>: the magic value, the metadata and the description at the
  front of a database file, with their reading and writing. The argument \<open>dbg\<close> is the build
  configuration (\<open>DEBUG_BOOL\<close>), and \<open>ptr\<close> the size of a pointer, which enters the size of the
  polymorphic classes.
\<close>

section \<open>Magic value\<close>

definition DB_MAGIC :: block where
  "DB_MAGIC = ''StAtE1'' @ [nul]"

record db_magic =
  magic_value :: block

definition db_magic_new :: db_magic where
  "db_magic_new = \<lparr>magic_value = DB_MAGIC\<rparr>"

fun verify_from :: "block \<Rightarrow> nat \<Rightarrow> nat \<Rightarrow> bool" where
  "verify_from v i 0 = True"
| "verify_from v i (Suc n) = (if v ! i \<noteq> DB_MAGIC ! i then False else verify_from v (i + 1) n)"

definition magic_verify :: "db_magic \<Rightarrow> bool" where
  "magic_verify m = verify_from (magic_value m) 0 7"

section \<open>Header\<close>

definition MAJOR_VERSION :: nat where
  "MAJOR_VERSION = 1"

definition DB_VERSION :: "bool \<Rightarrow> string" where
  "DB_VERSION dbg = ''1.0.0'' @ (if dbg then ''-debug'' else '''')"

definition DEFAULT_DB_DESCRIPTION :: "bool \<Rightarrow> string" where
  "DEFAULT_DB_DESCRIPTION dbg = ''A STATE database ('' @ DB_VERSION dbg @ '')''"

definition DEFAULT_DB_NAME :: string where
  "DEFAULT_DB_NAME = ''DB''"

record db_meta =
  meta_version :: char

definition db_meta_new :: db_meta where
  "db_meta_new = \<lparr>meta_version = char_of MAJOR_VERSION\<rparr>"

definition meta_set_defaults :: "db_meta \<Rightarrow> db_meta" where
  "meta_set_defaults m = m\<lparr>meta_version := char_of MAJOR_VERSION\<rparr>"

record db_info =
  info_name :: block
  info_description :: block

definition db_info_new :: db_info where
  "db_info_new = \<lparr>info_name = char_arr_new 32, info_description = char_arr_new 256\<rparr>"

definition info_set_defaults :: "bool \<Rightarrow> db_info \<Rightarrow> db_info res" where
  "info_set_defaults dbg i =
     bindr (char_arr_copy_from (info_description i) (DEFAULT_DB_DESCRIPTION dbg)) (\<lambda>d.
     bindr (char_arr_copy_from (info_name i) DEFAULT_DB_NAME) (\<lambda>n.
       Inr (i\<lparr>info_description := d, info_name := n\<rparr>)))"

record db_header =
  hdr_debug_mode :: bool
  hdr_meta :: db_meta
  hdr_info :: db_info

definition db_header_new :: "bool \<Rightarrow> db_header" where
  "db_header_new dbg = \<lparr>hdr_debug_mode = dbg, hdr_meta = db_meta_new, hdr_info = db_info_new\<rparr>"

definition header_set_defaults :: "bool \<Rightarrow> db_header \<Rightarrow> db_header res" where
  "header_set_defaults dbg h =
     bindr (info_set_defaults dbg (hdr_info h)) (\<lambda>i.
       Inr (h\<lparr>hdr_info := i, hdr_meta := meta_set_defaults (hdr_meta h)\<rparr>))"

section \<open>Reading and writing\<close>

definition info_write_to :: "db_info \<Rightarrow> fstream \<Rightarrow> fstream" where
  "info_write_to i o1 = write_object (info_description i) (write_object (info_name i) o1)"

definition info_read_from :: "db_info \<Rightarrow> fstream \<Rightarrow> db_info \<times> fstream" where
  "info_read_from i s =
     (let (n, s1) = read_object (info_name i) s;
          (d, s2) = read_object (info_description i) s1
      in (i\<lparr>info_name := n, info_description := d\<rparr>, s2))"

definition info_get_size :: "db_info \<Rightarrow> nat" where
  "info_get_size i = length (info_name i) + length (info_description i)"

definition bool_image :: "bool \<Rightarrow> block" where
  "bool_image b = [if b then CHR 0x01 else nul]"

definition header_write_to :: "db_header \<Rightarrow> fstream \<Rightarrow> fstream" where
  "header_write_to h o1 =
     info_write_to (hdr_info h)
       (write_object [meta_version (hdr_meta h)]
         (write_object (bool_image (hdr_debug_mode h)) o1))"

definition header_read_from :: "db_header \<Rightarrow> fstream \<Rightarrow> db_header \<times> fstream" where
  "header_read_from h s =
     (let (b, s1) = read_object (bool_image (hdr_debug_mode h)) s;
          (v, s2) = read_object [meta_version (hdr_meta h)] s1;
          (i, s3) = info_read_from (hdr_info h) s2
      in (h\<lparr>hdr_debug_mode := (b ! 0 \<noteq> nul), hdr_meta := (hdr_meta h)\<lparr>meta_version := v ! 0\<rparr>,
            hdr_info := i\<rparr>, s3))"

text \<open>\<open>get_size\<close> counts the metadata and the description, not the \<open>debug_mode\<close> byte.\<close>

definition header_get_size :: "db_header \<Rightarrow> nat" where
  "header_get_size h = 1 + info_get_size (hdr_info h)"

text \<open>
  \<open>sizeof(db_header)\<close>: a pointer to the virtual table, the two bytes \<open>debug_mode\<close> and \<open>meta\<close>
  padded to the alignment of a pointer, and the \<open>db_info\<close> with a virtual table of its own.
\<close>

definition sizeof_db_header :: "nat \<Rightarrow> nat" where
  "sizeof_db_header ptr = (ptr + (2 + (ptr - 2))) + (ptr + 32 + 256)"

definition MINIMAL_HEADER_SIZE :: "nat \<Rightarrow> nat" where
  "MINIMAL_HEADER_SIZE ptr = sizeof_db_header ptr"

section \<open>Lemmas\<close>

text \<open>The bytes of a header.\<close>

definition header_image :: "db_header \<Rightarrow> block" where
  "header_image h =
     bool_image (hdr_debug_mode h) @ [meta_version (hdr_meta h)] @
     info_name (hdr_info h) @ info_description (hdr_info h)"

definition header_ok :: "db_header \<Rightarrow> bool" where
  "header_ok h \<longleftrightarrow> length (info_name (hdr_info h)) = 32 \<and> length (info_description (hdr_info h)) = 256"

lemma verify_from_iff:
  "verify_from v i n \<longleftrightarrow> (\<forall>j. i \<le> j \<and> j < i + n \<longrightarrow> v ! j = DB_MAGIC ! j)"
proof (induction v i n rule: verify_from.induct)
  case (2 v i n)
  have range: "i \<le> j \<and> j < i + Suc n \<longleftrightarrow> j = i \<or> (i + 1 \<le> j \<and> j < i + 1 + n)" for j
    by arith
  show ?case unfolding range using 2 by auto
qed auto

lemma length_DB_MAGIC [simp]: "length DB_MAGIC = 7"
  by (simp add: DB_MAGIC_def)

lemma magic_verify_iff: "length (magic_value m) = 7 \<Longrightarrow> magic_verify m \<longleftrightarrow> magic_value m = DB_MAGIC"
  by (auto simp: magic_verify_def verify_from_iff list_eq_iff_nth_eq)

lemma header_write_image:
  "fs_pos s \<le> length (fs_data s) \<Longrightarrow> header_write_to h s = fs_write (header_image h) s"
proof (cases "fs_fail s")
  case True
  then show ?thesis by (simp add: header_write_to_def info_write_to_def write_object_eq fs_write_def)
next
  case False
  assume "fs_pos s \<le> length (fs_data s)"
  with False show ?thesis
    by (simp add: header_write_to_def info_write_to_def write_object_eq header_image_def
        fs_write_append fs_write_pos_le)
qed

lemma length_header_image: "header_ok h \<Longrightarrow> length (header_image h) = 290"
  by (simp add: header_image_def header_ok_def bool_image_def)

lemma header_read_image:
  assumes "\<not> fs_fail s" "drop (fs_pos s) (fs_data s) = header_image h @ rest" "header_ok h" "header_ok h0"
  shows "header_read_from h0 s = (h, s\<lparr>fs_pos := fs_pos s + 290\<rparr>)"
proof -
  let ?p = "fs_pos s" and ?d = "fs_data s"
  let ?n = "info_name (hdr_info h)" and ?e = "info_description (hdr_info h)"
  have d: "drop ?p ?d = bool_image (hdr_debug_mode h) @ [meta_version (hdr_meta h)] @ ?n @ ?e @ rest"
    using assms(2) by (simp add: header_image_def)
  have l: "length ?n = 32" "length ?e = 256" using assms(3) by (simp_all add: header_ok_def)
  have step: "drop (?p + k) ?d = drop k (drop ?p ?d)" for k by (simp add: add.commute)
  have r1: "fs_read (bool_image x) (Suc 0) s = (bool_image (hdr_debug_mode h), s\<lparr>fs_pos := ?p + 1\<rparr>)" for x
    using fs_read_ok [of s "bool_image (hdr_debug_mode h)" _ "bool_image x"] assms(1) d
    by (simp add: bool_image_def)
  have r2: "fs_read [x] (Suc 0) (s\<lparr>fs_pos := ?p + 1\<rparr>) = ([meta_version (hdr_meta h)], s\<lparr>fs_pos := ?p + 2\<rparr>)" for x
    using fs_read_ok [of "s\<lparr>fs_pos := ?p + 1\<rparr>" "[meta_version (hdr_meta h)]" "?n @ ?e @ rest" "[x]"]
      assms(1) step [of 1] d by (simp add: bool_image_def)
  have r3: "fs_read x 32 (s\<lparr>fs_pos := ?p + 2\<rparr>) = (?n, s\<lparr>fs_pos := ?p + 34\<rparr>)" if "length x = 32" for x
    using fs_read_ok [of "s\<lparr>fs_pos := ?p + 2\<rparr>" ?n "?e @ rest" x] assms(1) step [of 2] d l that
    by (simp add: bool_image_def)
  have r4: "fs_read x 256 (s\<lparr>fs_pos := ?p + 34\<rparr>) = (?e, s\<lparr>fs_pos := ?p + 290\<rparr>)" if "length x = 256" for x
    using fs_read_ok [of "s\<lparr>fs_pos := ?p + 34\<rparr>" ?e rest x] assms(1) step [of 34] d l that
    by (simp add: bool_image_def)
  have b: "(bool_image x ! 0 \<noteq> nul) = x" for x by (simp add: bool_image_def)
  have lb: "length (bool_image x) = Suc 0" for x by (simp add: bool_image_def)
  show ?thesis
    using assms(4) r1 r2 r3 r4 b lb l
    by (simp add: header_read_from_def info_read_from_def read_object_eq header_ok_def)
qed

lemma db_header_new_ok [simp]: "header_ok (db_header_new dbg)"
  by (simp add: header_ok_def db_header_new_def db_info_new_def char_arr_new_def)

lemma length_description: "length (DEFAULT_DB_DESCRIPTION dbg) \<le> 256"
  by (simp add: DEFAULT_DB_DESCRIPTION_def DB_VERSION_def)

lemma header_set_defaults_ok:
  assumes "header_ok h"
  shows "\<exists>h'. header_set_defaults dbg h = Inr h' \<and> header_ok h' \<and> hdr_debug_mode h' = hdr_debug_mode h"
  using assms length_description [of dbg]
  by (auto simp: header_set_defaults_def info_set_defaults_def char_arr_copy_from_def header_ok_def
      DEFAULT_DB_NAME_def length_put)

end
