(* ===== verification/Db.thy ===== *)
theory Db
  imports Bpt_Delete Dtypes_Codec Hash Db_Header
begin

text \<open>
  \<open>db.h\<close> and \<open>db.cpp\<close>: the database, a B+ tree of objects under the hashes of their keys,
  and the header of its file. The stream \<open>db\<close> holds a reference to is passed to the operations
  that use it; a pointer member is null, points to its object, or is unusable (never
  initialised, or freed).
\<close>

section \<open>State\<close>

datatype 'a ptr = Null | Live 'a | Stale

definition live :: "'a ptr \<Rightarrow> 'a res" where
  "live p = (case p of Null \<Rightarrow> Inl Null_Deref | Live x \<Rightarrow> Inr x | Stale \<Rightarrow> Inl Use_After_Free)"

type_synonym obj_tree = "(hash_t, db_object) tree"

record db_inner =
  in_tree :: obj_tree
  in_header :: db_header

text \<open>The third template argument of the tree.\<close>

definition TREE_ORDER :: nat where
  "TREE_ORDER = 6"

text \<open>\<open>mem\<close> is what uninitialised memory reads as, see \<open>leaf_list_new\<close>.\<close>

definition db_inner_new :: "bool \<Rightarrow> (addr \<Rightarrow> size_t) \<Rightarrow> db_inner" where
  "db_inner_new dbg mem = \<lparr>in_tree = tree_new mem, in_header = db_header_new dbg\<rparr>"

definition inner_write_to :: "db_inner \<Rightarrow> fstream \<Rightarrow> fstream" where
  "inner_write_to i o1 = header_write_to (in_header i) o1"

definition inner_read_from :: "db_inner \<Rightarrow> fstream \<Rightarrow> db_inner \<times> fstream" where
  "inner_read_from i s = (let (h, s') = header_read_from (in_header i) s in (i\<lparr>in_header := h\<rparr>, s'))"

definition inner_get_size :: "db_inner \<Rightarrow> nat" where
  "inner_get_size i = header_get_size (in_header i)"

record db =
  inner :: "db_inner ptr"

text \<open>The constructor leaves \<open>inner\<close> uninitialised: \<open>p\<close> is what the memory holds.\<close>

definition db_new :: "db_inner ptr \<Rightarrow> db" where
  "db_new p = \<lparr>inner = p\<rparr>"

section \<open>File\<close>

definition reset_inner :: "bool \<Rightarrow> (addr \<Rightarrow> size_t) \<Rightarrow> db \<Rightarrow> db res" where
  "reset_inner dbg mem d =
     (case inner d of
        Stale \<Rightarrow> Inl Use_After_Free
      | _ \<Rightarrow> Inr (d\<lparr>inner := Live (db_inner_new dbg mem)\<rparr>))"

definition rewind_stream :: "fstream \<Rightarrow> fstream" where
  "rewind_stream s = fs_seek_off 0 Beg s"

definition generate_inner :: "bool \<Rightarrow> (addr \<Rightarrow> size_t) \<Rightarrow> db \<Rightarrow> db res" where
  "generate_inner dbg mem d =
     bindr (reset_inner dbg mem d) (\<lambda>d1.
     bindr (live (inner d1)) (\<lambda>i.
     bindr (header_set_defaults dbg (in_header i)) (\<lambda>h.
       Inr (d1\<lparr>inner := Live (i\<lparr>in_header := h\<rparr>)\<rparr>))))"

definition make_fresh :: "bool \<Rightarrow> (addr \<Rightarrow> size_t) \<Rightarrow> db \<Rightarrow> fstream \<Rightarrow> (db \<times> fstream) res" where
  "make_fresh dbg mem d s =
     (let s1 = rewind_stream s; s2 = write_object (magic_value db_magic_new) s1
      in bindr (generate_inner dbg mem d) (\<lambda>d1.
         bindr (live (inner d1)) (\<lambda>i. Inr (d1, inner_write_to i s2))))"

text \<open>The magic value read from the file replaces the one the local object was built with.\<close>

definition verify_magic :: "fstream \<Rightarrow> fstream res" where
  "verify_magic s =
     (let (v, s') = read_object (magic_value db_magic_new) s
      in if \<not> magic_verify \<lparr>magic_value = v\<rparr> then Inl (Db_Exception ''Invalid magic value'')
         else Inr s')"

definition db_load :: "db \<Rightarrow> fstream \<Rightarrow> (db \<times> fstream) res" where
  "db_load d s =
     bindr (verify_magic s) (\<lambda>s1.
     bindr (live (inner d)) (\<lambda>i.
       let (h, s2) = header_read_from (in_header i) s1
       in Inr (d\<lparr>inner := Live (i\<lparr>in_header := h\<rparr>)\<rparr>, s2)))"

definition reload :: "bool \<Rightarrow> (addr \<Rightarrow> size_t) \<Rightarrow> db \<Rightarrow> fstream \<Rightarrow> (db \<times> fstream) res" where
  "reload dbg mem d s =
     bindr (reset_inner dbg mem d) (\<lambda>d1. db_load d1 (rewind_stream s))"

section \<open>Keys and values\<close>

definition get_object :: "db \<Rightarrow> hash_t \<Rightarrow> db_object option comp" where
  "get_object d keyHash = bindc (liftc (live (inner d))) (\<lambda>i. tree_get (in_tree i) keyHash)"

text \<open>
  \<open>set_value\<close>: the key and the value are pointers into one message buffer. The key is copied
  into the object before the value is loaded and hashed after that.
\<close>

definition set_value ::
  "db \<Rightarrow> block \<Rightarrow> nat \<Rightarrow> dtype_t \<Rightarrow> nat \<Rightarrow> nat \<Rightarrow> (db \<times> block) comp" where
  "set_value d buf key dt src len =
     bindc (liftc (cstr_at buf key)) (\<lambda>keystr.
     bindc (liftc (db_object_new dt keystr)) (\<lambda>obj.
     bindc (liftc (obj_load_from obj buf src len)) (\<lambda>(n, buf', obj').
     bindc (liftc (make_hash buf' key)) (\<lambda>keyHash.
     bindc (liftc (live (inner d))) (\<lambda>i.
     bindc (tree_set TREE_ORDER (in_tree i) keyHash obj') (\<lambda>t.
       ret (d\<lparr>inner := Live (i\<lparr>in_tree := t\<rparr>)\<rparr>, buf')))))))"

definition delete_key :: "db \<Rightarrow> hash_t \<Rightarrow> (db \<times> bool) comp" where
  "delete_key d keyHash =
     bindc (liftc (live (inner d))) (\<lambda>i.
     bindc (tree_delete_key (in_tree i) keyHash) (\<lambda>(t, r).
       ret (d\<lparr>inner := Live (i\<lparr>in_tree := t\<rparr>)\<rparr>, r)))"

text \<open>\<open>iterate\<close>: the calls of \<open>fn\<close> in their order.\<close>

definition db_iterate :: "db \<Rightarrow> (hash_t \<times> db_object) list comp" where
  "db_iterate d = bindc (liftc (live (inner d))) (\<lambda>i. tree_iterate (in_tree i))"

datatype numeric_operation_result = NumericOpDone | NumericOpNotFound | NumericOpNotNumeric

text \<open>\<open>add\<close> checks the object and changes nothing; \<open>inc\<close> and \<open>dec\<close> return no value.\<close>

definition db_add :: "db \<Rightarrow> hash_t \<Rightarrow> int \<Rightarrow> numeric_operation_result comp" where
  "db_add d keyHash val =
     bindc (get_object d keyHash) (\<lambda>obj.
       case obj of
         None \<Rightarrow> ret NumericOpNotFound
       | Some ob \<Rightarrow>
           bindc (liftc (obj_is_numeric ob)) (\<lambda>num.
             if \<not> num then ret NumericOpNotNumeric else ret NumericOpDone))"

definition db_inc :: "db \<Rightarrow> hash_t \<Rightarrow> numeric_operation_result comp" where
  "db_inc d keyHash = bindc (db_add d keyHash 1) (\<lambda>_. fail Missing_Return)"

definition db_dec :: "db \<Rightarrow> hash_t \<Rightarrow> numeric_operation_result comp" where
  "db_dec d keyHash = bindc (db_add d keyHash (- 1)) (\<lambda>_. fail Missing_Return)"

section \<open>Refinement of a map from hashes to objects\<close>

text \<open>The objects of a database in ascending order of their hashes.\<close>

definition db_entries :: "db \<Rightarrow> (hash_t \<times> db_object) list \<Rightarrow> bool" where
  "db_entries d xs \<longleftrightarrow> (\<exists>i. inner d = Live i \<and> tree_entries TREE_ORDER (in_tree i) xs)"

lemma TREE_ORDER_bounds: "3 \<le> TREE_ORDER" "TREE_ORDER < size_max"
  by (simp_all add: TREE_ORDER_def size_max_def)

lemma live_simps [simp]: "live (Live x) = Inr x" "live Null = Inl Null_Deref" "live Stale = Inl Use_After_Free"
  by (simp_all add: live_def)

lemma get_object_entries: "db_entries d xs \<Longrightarrow> get_object d k = ret (map_of xs k)"
  by (auto simp: db_entries_def get_object_def intro: bpt.lookup_entries tree_get_entries)

lemma db_iterate_entries: "db_entries d xs \<Longrightarrow> db_iterate d = ret xs"
  by (auto simp: db_entries_def db_iterate_def intro: tree_iterate_entries)

lemma db_entries_sorted: "db_entries d xs \<Longrightarrow> sorted_keys xs"
  by (auto simp: db_entries_def intro: tree_entries_sorted)

text \<open>What \<open>set_value\<close> makes of the bytes, up to the insertion.\<close>

definition value_object :: "block \<Rightarrow> nat \<Rightarrow> dtype_t \<Rightarrow> nat \<Rightarrow> nat \<Rightarrow> (hash_t \<times> db_object \<times> block) res" where
  "value_object buf key dt src len =
     bindr (cstr_at buf key) (\<lambda>keystr.
     bindr (db_object_new dt keystr) (\<lambda>obj.
     bindr (obj_load_from obj buf src len) (\<lambda>(n, buf', obj').
     bindr (make_hash buf' key) (\<lambda>keyHash. Inr (keyHash, obj', buf')))))"

lemma bindc_liftc: "bindc (liftc r) f = (case r of Inl e \<Rightarrow> fail e | Inr x \<Rightarrow> f x)"
  by (cases r) simp_all

lemma set_value_object:
  "set_value d buf key dt src len =
     (case value_object buf key dt src len of
        Inl e \<Rightarrow> fail e
      | Inr (h, ob, buf') \<Rightarrow>
          bindc (liftc (live (inner d))) (\<lambda>i.
          bindc (tree_set TREE_ORDER (in_tree i) h ob) (\<lambda>t.
            ret (d\<lparr>inner := Live (i\<lparr>in_tree := t\<rparr>)\<rparr>, buf'))))"
  by (simp add: set_value_def value_object_def bindc_liftc bindr_def split: sum.split prod.split)

lemma set_value_entries:
  assumes "db_entries d xs" "value_object buf key dt src len = Inr (h, ob, buf')"
  shows "\<exists>d'. set_value d buf key dt src len = ret (d', buf') \<and> db_entries d' (upd_kv h ob xs)"
proof -
  obtain i where i: "inner d = Live i" "tree_entries TREE_ORDER (in_tree i) xs"
    using assms(1) by (auto simp: db_entries_def)
  obtain t where t: "tree_set TREE_ORDER (in_tree i) h ob = ret t" "tree_entries TREE_ORDER t (upd_kv h ob xs)"
    using tree_set_entries [OF i(2)] by blast
  then show ?thesis using assms(2) i(1) by (auto simp: set_value_object db_entries_def)
qed

lemma set_value_error:
  "value_object buf key dt src len = Inl e \<Longrightarrow> set_value d buf key dt src len = fail e"
  by (simp add: set_value_object)

lemma generate_inner_entries:
  assumes "inner d \<noteq> Stale"
  shows "\<exists>d' i. generate_inner dbg (\<lambda>_. 0) d = Inr d' \<and> inner d' = Live i \<and> header_ok (in_header i) \<and>
           hdr_debug_mode (in_header i) = dbg \<and> db_entries d' []"
proof -
  have "reset_inner dbg (\<lambda>_. 0) d = Inr (d\<lparr>inner := Live (db_inner_new dbg (\<lambda>_. 0))\<rparr>)"
    using assms by (simp add: reset_inner_def split: ptr.split)
  moreover obtain h where "header_set_defaults dbg (db_header_new dbg) = Inr h" "header_ok h"
    "hdr_debug_mode h = dbg"
    using header_set_defaults_ok [OF db_header_new_ok [of dbg], of dbg] by (auto simp: db_header_new_def)
  ultimately show ?thesis
    using tree_new_entries [OF TREE_ORDER_bounds]
    by (auto simp: generate_inner_def db_inner_new_def db_entries_def)
qed

end
