(* ===== verification/Db_Wrapper.thy ===== *)
theory Db_Wrapper
  imports Db
begin

text \<open>
  \<open>db_wrapper.h\<close>: opening, checking, clearing and closing the database file. The file system
  shows the wrapper one file, absent or with its content; \<open>access\<close> says whether the operating
  system lets the program open it. An open stream holds the content, which returns to the
  file when the stream is closed.
\<close>

section \<open>Files\<close>

record open_mode =
  m_in :: bool
  m_out :: bool
  m_trunc :: bool

text \<open>
  The combinations \<open>basic_filebuf::open\<close> accepts: truncation needs \<open>out\<close>, and the file has to
  exist unless it is truncated or opened for output only.
\<close>

definition mode_ok :: "open_mode \<Rightarrow> bool" where
  "mode_ok m \<longleftrightarrow> m_out m \<or> (m_in m \<and> \<not> m_trunc m)"

record file_stream =
  fo_stream :: fstream
  fo_open :: bool

definition closed_stream :: file_stream where
  "closed_stream = \<lparr>fo_stream = \<lparr>fs_data = [], fs_pos = 0, fs_fail = True\<rparr>, fo_open = False\<rparr>"

definition file_open :: "bool \<Rightarrow> open_mode \<Rightarrow> block option \<Rightarrow> file_stream" where
  "file_open access m file =
     (let opened = (\<lambda>xs. \<lparr>fo_stream = \<lparr>fs_data = xs, fs_pos = 0, fs_fail = False\<rparr>, fo_open = True\<rparr>)
      in if \<not> access \<or> \<not> mode_ok m then closed_stream
         else if m_trunc m \<or> (m_out m \<and> \<not> m_in m) then opened []
         else case file of None \<Rightarrow> closed_stream | Some xs \<Rightarrow> opened xs)"

section \<open>The wrapper\<close>

record db_wrapper =
  w_file :: "block option"
  w_stream :: "file_stream ptr"
  w_db :: "db ptr"

definition db_wrapper_new :: "block option \<Rightarrow> db_wrapper" where
  "db_wrapper_new file = \<lparr>w_file = file, w_stream = Null, w_db = Null\<rparr>"

definition get_inner :: "db_wrapper \<Rightarrow> db option res" where
  "get_inner w = (case w_db w of Null \<Rightarrow> Inr None | Live d \<Rightarrow> Inr (Some d) | Stale \<Rightarrow> Inl Use_After_Free)"

text \<open>Closing flushes the content to the file.\<close>

definition flush_to :: "file_stream \<Rightarrow> db_wrapper \<Rightarrow> db_wrapper" where
  "flush_to f w = (if fo_open f then w\<lparr>w_file := Some (fs_data (fo_stream f))\<rparr> else w)"

definition close_stream :: "file_stream \<Rightarrow> file_stream" where
  "close_stream f = f\<lparr>fo_open := False\<rparr>"

text \<open>\<open>dispose\<close> deletes both objects and leaves the pointers as they are.\<close>

definition dispose :: "db_wrapper \<Rightarrow> db_wrapper res" where
  "dispose w =
     bindr (case w_db w of Null \<Rightarrow> Inr w | Live _ \<Rightarrow> Inr (w\<lparr>w_db := Stale\<rparr>) | Stale \<Rightarrow> Inl Use_After_Free)
       (\<lambda>w1. case w_stream w1 of
          Null \<Rightarrow> Inr w1
        | Live f \<Rightarrow> Inr ((flush_to f w1)\<lparr>w_stream := Stale\<rparr>)
        | Stale \<Rightarrow> Inl Use_After_Free)"

definition close_file :: "db_wrapper \<Rightarrow> db_wrapper res" where
  "close_file w =
     (case w_stream w of
        Null \<Rightarrow> Inr w
      | Live f \<Rightarrow>
          if fo_open f then Inr ((flush_to f w)\<lparr>w_stream := Live (close_stream f)\<rparr>) else Inr w
      | Stale \<Rightarrow> Inl Use_After_Free)"

definition open_file :: "bool \<Rightarrow> db_wrapper \<Rightarrow> file_stream res" where
  "open_file access w =
     (let mode = \<lparr>m_in = True, m_out = True, m_trunc = (w_file w = None)\<rparr>;
          f = file_open access mode (w_file w)
      in if fs_fail (fo_stream f) then Inl (Db_Exception ''Failed to open database file'') else Inr f)"

text \<open>
  \<open>clear_file\<close>: the stream that should truncate the file is opened for input only. What
  opening it does to the file is read off the mode: an accepted \<open>trunc\<close> empties it.
\<close>

definition truncate_with :: "bool \<Rightarrow> open_mode \<Rightarrow> db_wrapper \<Rightarrow> db_wrapper" where
  "truncate_with access m w =
     (let f = file_open access m (w_file w)
      in if fo_open f then w\<lparr>w_file := Some (fs_data (fo_stream f))\<rparr> else w)"

definition clear_file :: "bool \<Rightarrow> db_wrapper \<Rightarrow> db_wrapper res" where
  "clear_file access w =
     bindr (close_file w) (\<lambda>w1.
       let w2 = truncate_with access \<lparr>m_in = True, m_out = False, m_trunc = True\<rparr> w1
       in bindr (open_file access w2) (\<lambda>f. Inr (w2\<lparr>w_stream := Live f\<rparr>)))"

text \<open>\<open>fs::file_size\<close> of the file behind the open stream.\<close>

definition file_size :: "db_wrapper \<Rightarrow> nat" where
  "file_size w =
     (case w_stream w of
        Live f \<Rightarrow> if fo_open f then length (fs_data (fo_stream f))
                  else (case w_file w of None \<Rightarrow> 0 | Some xs \<Rightarrow> length xs)
      | _ \<Rightarrow> (case w_file w of None \<Rightarrow> 0 | Some xs \<Rightarrow> length xs))"

text \<open>The database works on the stream the wrapper owns. \<open>p\<close> is the uninitialised \<open>inner\<close>.\<close>

definition with_stream ::
  "(db \<Rightarrow> fstream \<Rightarrow> (db \<times> fstream) res) \<Rightarrow> db \<Rightarrow> db_wrapper \<Rightarrow> db_wrapper res" where
  "with_stream op d w =
     bindr (live (w_stream w)) (\<lambda>f.
     bindr (op d (fo_stream f)) (\<lambda>(d', s').
       Inr (w\<lparr>w_db := Live d', w_stream := Live (f\<lparr>fo_stream := s'\<rparr>)\<rparr>)))"

definition verify_file ::
  "nat \<Rightarrow> bool \<Rightarrow> bool \<Rightarrow> (addr \<Rightarrow> size_t) \<Rightarrow> db_inner ptr \<Rightarrow> db_wrapper \<Rightarrow> db_wrapper res" where
  "verify_file ptr dbg access mem p w =
     (if file_size w < MINIMAL_HEADER_SIZE ptr
      then bindr (clear_file access w) (\<lambda>w1. with_stream (make_fresh dbg mem) (db_new p) w1)
      else with_stream (reload dbg mem) (db_new p) w)"

definition load_data ::
  "nat \<Rightarrow> bool \<Rightarrow> bool \<Rightarrow> (addr \<Rightarrow> size_t) \<Rightarrow> db_inner ptr \<Rightarrow> db_wrapper \<Rightarrow> db_wrapper res" where
  "load_data ptr dbg access mem p w =
     bindr (dispose w) (\<lambda>w1.
     bindr (open_file access w1) (\<lambda>f.
       let file = Some (fs_data (fo_stream f))
       in verify_file ptr dbg access mem p (w1\<lparr>w_file := file, w_stream := Live f\<rparr>)))"

text \<open>\<open>resize_file\<close>: \<open>fs::resize_file\<close> cuts the file or extends it with zeros.\<close>

definition resize_file :: "bool \<Rightarrow> nat \<Rightarrow> db_wrapper \<Rightarrow> db_wrapper res" where
  "resize_file access newSize w =
     bindr (close_file w) (\<lambda>w1.
       case w_file w1 of
         None \<Rightarrow> Inl (Db_Exception ''boost::filesystem::resize_file'')
       | Some xs \<Rightarrow>
           let w2 = w1\<lparr>w_file := Some (take newSize (xs @ replicate (newSize - length xs) nul))\<rparr>
           in bindr (live (w_stream w2)) (\<lambda>f.
                Inr (w2\<lparr>w_stream := Live (file_open access \<lparr>m_in = True, m_out = True, m_trunc = False\<rparr>
                          (w_file w2))\<rparr>)))"

section \<open>Lemmas\<close>

text \<open>The file content as the outside sees it.\<close>

definition disk :: "db_wrapper \<Rightarrow> block option" where
  "disk w =
     (case w_stream w of
        Live f \<Rightarrow> if fo_open f then Some (fs_data (fo_stream f)) else w_file w
      | _ \<Rightarrow> w_file w)"

lemma clear_file_keeps:
  assumes "w_stream w = Live f" "fo_open f"
  shows "clear_file True w = Inr (w\<lparr>w_file := Some (fs_data (fo_stream f)), w_stream :=
           Live \<lparr>fo_stream = \<lparr>fs_data = fs_data (fo_stream f), fs_pos = 0, fs_fail = False\<rparr>, fo_open = True\<rparr>\<rparr>)"
  using assms
  by (simp add: clear_file_def close_file_def flush_to_def truncate_with_def file_open_def mode_ok_def
      open_file_def closed_stream_def)

text \<open>The bytes of a fresh database over old content.\<close>

lemma make_fresh_image:
  assumes "p \<noteq> Stale" "\<not> fs_fail s"
  shows "\<exists>d i s'. make_fresh dbg (\<lambda>_. 0) (db_new p) s = Inr (d, s') \<and> inner d = Live i \<and>
           header_ok (in_header i) \<and> hdr_debug_mode (in_header i) = dbg \<and> db_entries d [] \<and>
           \<not> fs_fail s' \<and>
           fs_data s' = DB_MAGIC @ header_image (in_header i) @ drop 297 (fs_data s)"
proof -
  obtain d i where d: "generate_inner dbg (\<lambda>_. 0) (db_new p) = Inr d" "inner d = Live i"
    "header_ok (in_header i)" "hdr_debug_mode (in_header i) = dbg" "db_entries d []"
    using generate_inner_entries [of "db_new p" dbg] assms(1) by (auto simp: db_new_def)
  let ?s = "s\<lparr>fs_pos := 0\<rparr>"
  have r: "rewind_stream s = ?s" using assms(2) by (simp add: rewind_stream_def fs_seek_off_def fs_seek_def)
  have "fs_pos (fs_write DB_MAGIC ?s) \<le> length (fs_data (fs_write DB_MAGIC ?s))"
    by (rule fs_write_pos_le) (simp_all add: assms(2))
  then have s: "inner_write_to i (write_object DB_MAGIC ?s) = fs_write (DB_MAGIC @ header_image (in_header i)) ?s"
    by (simp add: inner_write_to_def write_object_eq header_write_image fs_write_append)
  have "fs_data (fs_write (DB_MAGIC @ header_image (in_header i)) ?s) =
      DB_MAGIC @ header_image (in_header i) @ drop 297 (fs_data s)"
    using assms(2) length_header_image [OF d(3)] by (simp add: fs_write_data)
  then show ?thesis using d r s assms(2)
    by (simp add: make_fresh_def db_magic_new_def Let_def)
qed

lemma verify_magic_prefix:
  assumes "\<not> fs_fail s" "fs_pos s = 0"
  shows "verify_magic s =
     (if take 7 (fs_data s) = take (length (fs_data s)) DB_MAGIC
      then Inr (s\<lparr>fs_pos := min 7 (length (fs_data s)), fs_fail := length (fs_data s) < 7\<rparr>)
      else Inl (Db_Exception ''Invalid magic value''))"
proof -
  let ?x = "take 7 (fs_data s)"
  have "magic_verify \<lparr>magic_value = ?x @ drop (length ?x) DB_MAGIC\<rparr> \<longleftrightarrow> ?x @ drop (length ?x) DB_MAGIC = DB_MAGIC"
    by (subst magic_verify_iff) simp_all
  also have "\<dots> \<longleftrightarrow> ?x = take (length ?x) DB_MAGIC"
    by (metis append_same_eq append_take_drop_id)
  also have "take (length ?x) DB_MAGIC = take (length (fs_data s)) DB_MAGIC"
    by (simp add: min_def)
  finally have m: "magic_verify \<lparr>magic_value = ?x @ drop (length ?x) DB_MAGIC\<rparr> \<longleftrightarrow>
    ?x = take (length (fs_data s)) DB_MAGIC" .
  have "min (length (fs_data s)) 7 < 7 \<longleftrightarrow> length (fs_data s) < 7" by auto
  with m show ?thesis using assms
    by (simp add: verify_magic_def db_magic_new_def read_object_eq fs_read_def Let_def min.commute)
qed

lemma rewind_stream_ok: "\<not> fs_fail s \<Longrightarrow> rewind_stream s = s\<lparr>fs_pos := 0\<rparr>"
  by (simp add: rewind_stream_def fs_seek_off_def fs_seek_def)

text \<open>A reload of what \<open>make_fresh\<close> wrote restores the header.\<close>

lemma reload_image:
  assumes "p \<noteq> Stale" "\<not> fs_fail s" "fs_data s = DB_MAGIC @ header_image h @ rest" "header_ok h"
  shows "\<exists>d i s'. reload dbg (\<lambda>_. 0) (db_new p) s = Inr (d, s') \<and> inner d = Live i \<and> in_header i = h \<and>
           db_entries d [] \<and> fs_data s' = fs_data s \<and> \<not> fs_fail s'"
proof -
  let ?d = "db_new p\<lparr>inner := Live (db_inner_new dbg (\<lambda>_. 0))\<rparr>"
  let ?s = "s\<lparr>fs_pos := 7\<rparr>"
  have r: "reset_inner dbg (\<lambda>_. 0) (db_new p) = Inr ?d"
    using assms(1) by (simp add: reset_inner_def db_new_def split: ptr.split)
  have "take 7 (fs_data s) = DB_MAGIC" "7 \<le> length (fs_data s)" using assms(3) by simp_all
  then have v: "verify_magic (rewind_stream s) = Inr ?s"
    using verify_magic_prefix [of "s\<lparr>fs_pos := 0\<rparr>"] assms(2)
    by (simp add: rewind_stream_ok min_def)
  have "drop (fs_pos ?s) (fs_data ?s) = header_image h @ rest" using assms(3) by simp
  then have "header_read_from (db_header_new dbg) ?s = (h, ?s\<lparr>fs_pos := 297\<rparr>)"
    using header_read_image [of ?s h rest "db_header_new dbg"] assms(2,4) by simp
  then show ?thesis using r v assms(2) tree_new_entries [OF TREE_ORDER_bounds]
    by (simp add: reload_def db_load_def db_inner_new_def db_entries_def)
qed

end
