(* ===== verification/Store_Props.thy ===== *)
theory Store_Props
  imports Db_Wrapper
begin

text \<open>
  The properties of the values, the database and its file: round trips of objects and headers,
  the branches of loading a value, the database as a map from hashes to objects, and what
  opening a file does.
\<close>

section \<open>Values\<close>

lemma db_object_new_ready:
  assumes "get_implementor dt = Some i"
  shows "\<exists>ds. db_object_new dt key = Inr \<lparr>obj_ds = ds, obj_dtype = dt, obj_key = key\<rparr> \<and> ready i ds"
  using assms by (auto simp: db_object_new_def obj_clear_def obj_implementor_def)

text \<open>
  C7. For every data type of the table: an object in good standing reports a size, writes
  exactly that many bytes without touching the bytes around them, and a new object of the
  same type that loads them holds the same value.
\<close>

theorem object_write_load:
  assumes "get_implementor (obj_dtype ob) = Some i" "valid_storage i (obj_ds ob)"
    and "obj_get_size ob = Inr n" "off + n \<le> length to"
    and "db_object_new (obj_dtype ob) key = Inr new"
  shows "\<exists>k to'. obj_write_to ob to off n = Inr (n, to') \<and>
           take off to' = take off to \<and> drop (off + n) to' = drop (off + n) to \<and>
           obj_load_from new to' off n = Inr (k, to', new\<lparr>obj_ds := obj_ds ob\<rparr>)"
proof -
  have imp: "obj_implementor ob = Inr i" using assms(1) by (simp add: obj_implementor_def)
  then have sz: "impl_get_size i (obj_ds ob) = Inr n" using assms(3) by (simp add: obj_get_size_def)
  obtain ds where new: "new = \<lparr>obj_ds = ds, obj_dtype = obj_dtype ob, obj_key = key\<rparr>" "ready i ds"
    using db_object_new_ready [OF assms(1), of key] assms(5) by auto
  obtain k to' where w: "impl_load_to i to off n (obj_ds ob) = Inr (n, to')"
    "impl_load_from i to' off n ds = Inr (k, to', obj_ds ob)"
    using impl.write_load [OF assms(2) new(2) sz assms(4)] by blast
  have "take off to' = take off to \<and> drop (off + n) to' = drop (off + n) to"
    by (rule impl.write_frame [OF assms(2) sz assms(4) w(1)])
  then show ?thesis using imp w new(1) assms(1)
    by (auto simp: obj_write_to_def obj_load_from_def obj_implementor_def)
qed

lemma greeting_object:
  "get_implementor 2 = Some String_implementor"
  "valid_storage String_implementor (Mem (zstr ''hi''))"
  "obj_get_size \<lparr>obj_ds = Mem (zstr ''hi''), obj_dtype = 2, obj_key = k\<rparr> = Inr 3"
  "db_object_new 2 k = Inr \<lparr>obj_ds = Mem [nul], obj_dtype = 2, obj_key = k\<rparr>"
proof -
  show imp: "get_implementor 2 = Some String_implementor"
    by (simp add: get_implementor_def implementors_def dtype_ids)
  show v: "valid_storage String_implementor (Mem (zstr ''hi''))"
    by (simp add: valid_storage_def string_ok_def zstr_def plain_def size_max_def)
  show "obj_get_size \<lparr>obj_ds = Mem (zstr ''hi''), obj_dtype = 2, obj_key = k\<rparr> = Inr 3"
    using imp impl_size_image [OF v] by (simp add: obj_get_size_def obj_implementor_def)
  show "db_object_new 2 k = Inr \<lparr>obj_ds = Mem [nul], obj_dtype = 2, obj_key = k\<rparr>"
    using imp by (simp add: db_object_new_def obj_clear_def obj_implementor_def impl_init_def impl_small)
qed

theorem object_write_load_witness:
  "\<exists>k to'. obj_write_to \<lparr>obj_ds = Mem (zstr ''hi''), obj_dtype = 2, obj_key = ''k''\<rparr> ''######'' 1 3 = Inr (3, to') \<and>
     take 1 to' = take 1 ''######'' \<and> drop (1 + 3) to' = drop (1 + 3) ''######'' \<and>
     obj_load_from \<lparr>obj_ds = Mem [nul], obj_dtype = 2, obj_key = ''m''\<rparr> to' 1 3 =
       Inr (k, to', \<lparr>obj_ds = Mem [nul], obj_dtype = 2, obj_key = ''m''\<rparr>\<lparr>obj_ds := Mem (zstr ''hi'')\<rparr>)"
  using object_write_load [of "\<lparr>obj_ds = Mem (zstr ''hi''), obj_dtype = 2, obj_key = ''k''\<rparr>"
      String_implementor 3 1 "''######''" "''m''"] greeting_object
  by simp

text \<open>
  A blob that announces \<open>2 ^ 32 - 4\<close> bytes or more passes both space checks, because the sum
  with the size field is truncated to 32 bits, and the copy then leaves the block allocated
  for it.
\<close>

lemma blob_size_wraps:
  assumes "off + n \<le> length from" "4 \<le> n" "2 ^ 32 \<le> le_val (take 4 (drop off from)) + 4"
  shows "blob_load_from from off n ds = Inl Out_Of_Bounds"
proof -
  let ?v = "le_val (take 4 (drop off from))"
  have "?v < 256 ^ length (take 4 (drop off from))" by (rule le_val_bound)
  then have v: "?v < 2 ^ 32" using assms(1,2) by simp
  then have s: "(?v + 4) mod 2 ^ 32 = ?v + 4 - 2 ^ 32" using assms(3) by (simp add: mod_if)
  then have small: "(?v + 4) mod 2 ^ 32 < 4" using v by simp
  have g: "blob_get_size from off = Inr ?v" using assms(1,2) by (simp add: blob_get_size_def)
  have "blob_copy_to from off (replicate ((?v + 4) mod 2 ^ 32) nul) 0 = Inl Out_Of_Bounds"
    using g small by (simp add: blob_copy_to_def memcpy_dest)
  then show ?thesis using g small assms(2)
    by (simp add: blob_load_from_def Let_def)
qed

lemma load_space_needed:
  assumes "off + n \<le> length from" "ready i ds"
  shows "impl_load_from i from off n ds = Inl Unsufficient_Space \<longleftrightarrow>
     (case i of
        Static_implementor sz _ \<Rightarrow> n < sz
      | None_implementor \<Rightarrow> False
      | Blob_implementor \<Rightarrow> n < 4 \<or> n < (le_val (take 4 (drop off from)) + 4) mod 2 ^ 32
      | String_implementor \<Rightarrow> False
      | Bigint_implementor \<Rightarrow> n < 2)"
proof (cases i)
  case (Static_implementor sz num)
  then show ?thesis using assms(1)
    by (cases "n < sz") (simp_all add: impl_load_from_def static_load_from_def)
next
  case None_implementor
  then show ?thesis by (simp add: impl_load_from_def impl_small)
next
  case Blob_implementor
  have m: "blob_copy_to from off to k \<noteq> Inl Unsufficient_Space" for to k
    by (simp add: blob_copy_to_def blob_get_size_def bindr_def memcpy_def rdn_def split: sum.split)
  show ?thesis
  proof (cases "n < 4")
    case True
    then show ?thesis using Blob_implementor by (simp add: impl_load_from_def blob_load_from_def)
  next
    case False
    then have "blob_get_size from off = Inr (le_val (take 4 (drop off from)))"
      using assms(1) by (simp add: blob_get_size_def)
    then show ?thesis using Blob_implementor False m
      by (auto simp: impl_load_from_def blob_load_from_def Let_def bindr_def require_at_least_def split: sum.splits)
  qed
next
  case String_implementor
  have "get_string_mxsz from off n \<noteq> Inl Unsufficient_Space"
    using assms(1) mxsz_scan_result [of off 0 n "from"]
    by (simp add: get_string_mxsz_def bindr_def wr_def split: sum.split)
  then show ?thesis using String_implementor
    by (auto simp: impl_load_from_def string_load_from_def bindr_def memcpy_def rdn_def split: sum.splits if_splits)
next
  case Bigint_implementor
  then obtain b where "ds = Big_ptr b" using assms(2) by (auto simp: ready_def)
  moreover have "get_string_mxsz from off n \<noteq> Inl Unsufficient_Space"
    using assms(1) mxsz_scan_result [of off 0 n "from"]
    by (simp add: get_string_mxsz_def bindr_def wr_def split: sum.split)
  ultimately show ?thesis using Bigint_implementor
    by (auto simp: impl_load_from_def bigint_load_from_def as_bigint_def bindr_def require_at_least_def cstr_at_def
        split: sum.splits if_splits)
qed

text \<open>
  C2. Loading a value from \<open>n\<close> allocated bytes throws \<open>unsufficient_space\<close> exactly when they are
  fewer than the type needs: the size of a static type, two bytes for a \<open>bigint\<close>, the size
  field and then the announced size (truncated to 32 bits) for a blob; strings and \<open>none\<close>
  never do. The truncation lets a blob that announces \<open>2 ^ 32 - 4\<close> bytes or more pass both
  checks, and its copy then leaves the block allocated for it.
\<close>

theorem load_unsufficient_space:
  assumes "off + n \<le> length from" "ready i ds"
  shows "(impl_load_from i from off n ds = Inl Unsufficient_Space \<longleftrightarrow>
     (case i of
        Static_implementor sz _ \<Rightarrow> n < sz
      | None_implementor \<Rightarrow> False
      | Blob_implementor \<Rightarrow> n < 4 \<or> n < (le_val (take 4 (drop off from)) + 4) mod 2 ^ 32
      | String_implementor \<Rightarrow> False
      | Bigint_implementor \<Rightarrow> n < 2)) \<and>
     (i = Blob_implementor \<and> 4 \<le> n \<and> 2 ^ 32 \<le> le_val (take 4 (drop off from)) + 4 \<longrightarrow>
        impl_load_from i from off n ds = Inl Out_Of_Bounds)"
  using load_space_needed [OF assms] blob_size_wraps [OF assms(1)] by (simp add: impl_load_from_def)

theorem load_unsufficient_space_witness:
  "impl_load_from (Static_implementor 4 True) ''abcd'' 1 3 (Mem []) = Inl Unsufficient_Space \<and>
   impl_load_from Blob_implementor [CHR 0xFE, CHR 0xFF, CHR 0xFF, CHR 0xFF] 0 4 (Mem []) = Inl Out_Of_Bounds"
  using load_unsufficient_space [of 1 3 "''abcd''" "Static_implementor 4 True" "Mem []"]
    load_unsufficient_space [of 0 4 "[CHR 0xFE, CHR 0xFF, CHR 0xFF, CHR 0xFF]" Blob_implementor "Mem []"]
  by (simp add: ready_def take_Cons')

lemma string_load_nothing:
  assumes "0 < off" "off \<le> length from"
  shows "string_load_from from off 0 ds = Inr (0, from[off - 1 := nul], Mem [])"
proof -
  have "nat (int off - 1) = off - 1" using assms(1) by simp
  then have "get_string_mxsz from off 0 = Inr (from[off - 1 := nul], sz_dec 0)"
    using assms by (auto simp: get_string_mxsz_def wr_def)
  moreover have "sz_inc (sz_dec 0) = 0" by (rule sz_inc_dec) (simp add: size_max_def)
  ultimately show ?thesis using assms(2) by (simp add: string_load_from_def memcpy_ok put_def)
qed

text \<open>
  Loading a string on every branch: with a zero among the \<open>n\<close> bytes the characters before
  it are stored; without one the last byte is overwritten in the caller's buffer and lost; and
  with no bytes at all the byte before the pointer is overwritten, an empty block is stored
  and the later question for its size runs out of that block.
\<close>

lemma string_load_branches:
  assumes "off + n \<le> length from" "n < size_max"
  shows "(nul \<in> set (take n (drop off from)) \<longrightarrow>
           string_load_from from off n ds =
             (let s = takeWhile (\<lambda>c. c \<noteq> nul) (take n (drop off from)) in Inr (length s + 1, from, Mem (zstr s)))) \<and>
    (0 < n \<and> nul \<notin> set (take n (drop off from)) \<longrightarrow>
           string_load_from from off n ds =
             Inr (n, from[off + n - 1 := nul], Mem (zstr (take (n - 1) (drop off from))))) \<and>
    (n = 0 \<and> 0 < off \<longrightarrow>
           string_load_from from off n ds = Inr (0, from[off - 1 := nul], Mem []) \<and>
           string_impl_size (Mem []) = Inl Out_Of_Bounds)"
proof (intro conjI [OF _ conjI] impI; (elim conjE)?)
  assume z: "nul \<in> set (take n (drop off from))"
  let ?s = "takeWhile (\<lambda>c. c \<noteq> nul) (take n (drop off from))"
  have l: "length ?s < n" using takeWhile_shorter [OF z, of "\<lambda>c. c \<noteq> nul"] assms(1) by simp
  have p: "take (length ?s) (drop off from) = ?s"
    using takeWhile_eq_take [of "\<lambda>c. c \<noteq> nul" "take n (drop off from)"] l by (simp add: min_def)
  have c: "drop off from ! length ?s = nul"
    using nth_length_takeWhile [of "\<lambda>c. c \<noteq> nul" "take n (drop off from)"] l assms(1) by simp
  have "take (length ?s + 1) (drop off from) = zstr ?s"
    using p c l assms(1) by (simp add: take_Suc_conv_app_nth zstr_def)
  then have "memcpy (replicate (length ?s + 1) nul) 0 from off (length ?s + 1) = Inr (zstr ?s)"
    using l assms(1) by (simp add: memcpy_ok put_all)
  then show "string_load_from from off n ds = (let s = ?s in Inr (length s + 1, from, Mem (zstr s)))"
    using get_string_found [OF assms(1) z] l assms(2) by (simp add: string_load_from_def Let_def)
next
  assume n: "0 < n" and z: "nul \<notin> set (take n (drop off from))"
  let ?from = "from[off + n - 1 := nul]"
  have "off + (n - 1) < length from" using assms(1) n by simp
  then have "drop off ?from = take (n - 1) (drop off from) @ nul # drop n (drop off from)"
    using n by (simp add: upd_conv_take_nth_drop drop_take add.commute)
  moreover have "length (take (n - 1) (drop off from)) = n - 1" using assms(1) by simp
  ultimately have "take n (drop off ?from) = zstr (take (n - 1) (drop off from))"
    using n by (cases n) (simp_all add: zstr_def)
  then have "memcpy (replicate n nul) 0 ?from off n = Inr (zstr (take (n - 1) (drop off from)))"
    using assms(1) n by (simp add: memcpy_ok put_all)
  moreover have "sz_inc (n - 1) = n" using n assms(2) by (subst sz_inc_small) auto
  ultimately show "string_load_from from off n ds = Inr (n, ?from, Mem (zstr (take (n - 1) (drop off from))))"
    using get_string_missing [OF assms(1) n assms(2) z] by (simp add: string_load_from_def)
next
  assume n: "n = 0" and o: "0 < off"
  show "string_load_from from off n ds = Inr (0, from[off - 1 := nul], Mem []) \<and>
      string_impl_size (Mem []) = Inl Out_Of_Bounds"
    using n string_load_nothing [OF o, of "from" ds] assms(1)
    by (simp add: string_impl_size_def as_block_def cstr_at_def)
qed

lemma string_load_branches_example:
  "string_load_from ''abc'' 1 2 Null_ptr = Inr (2, ''abc''[2 := nul], Mem (zstr (take 1 (drop 1 ''abc'')))) \<and>
   string_load_from ''ab'' 2 0 Null_ptr = Inr (0, ''ab''[1 := nul], Mem [])"
proof -
  have "2 < size_max" "0 < size_max" by (simp_all add: size_max_def)
  moreover have "nul \<notin> set (take 2 (drop 1 ''abc''))" by simp
  ultimately show ?thesis
    using string_load_branches [of 1 2 "''abc''" Null_ptr] string_load_branches [of 2 0 "''ab''" Null_ptr]
    by simp
qed

end
