(* ===== verification/Db_Props.thy ===== *)
theory Db_Props
  imports Store_Props
begin

text \<open>
  The properties of the database and of its file: \<open>set_value\<close> as an update of a map from
  hashes to objects, what the hash distinguishes, the header in the file and the opening of a
  database file.
\<close>

section \<open>The database as a map\<close>

lemma value_object_ok:
  assumes "cstr_at buf key = Inr s" "get_implementor dt = Some i" "valid_storage i ds"
    and "length (image ds) \<le> len" "src + len \<le> length buf"
    and "take (length (image ds)) (drop src buf) = image ds"
  shows "value_object buf key dt src len =
           Inr (string_hash s, \<lparr>obj_ds = ds, obj_dtype = dt, obj_key = s\<rparr>, buf)"
proof -
  obtain ds0 where new: "db_object_new dt s = Inr \<lparr>obj_ds = ds0, obj_dtype = dt, obj_key = s\<rparr>" "ready i ds0"
    using db_object_new_ready [OF assms(2), of s] by blast
  obtain k where "impl_load_from i buf src len ds0 = Inr (k, buf, ds)"
    using impl.load_from_image [OF assms(3) new(2) assms(4,5,6)] by blast
  then show ?thesis using new(1) assms(1,2)
    by (simp add: value_object_def obj_load_from_def obj_implementor_def make_hash_def)
qed

text \<open>
  C2. \<open>set_value\<close> of a well-formed value on a database in good standing returns, and the
  database then maps the hash of the key to an object with exactly this key, type and value,
  answers every other hash as before, and iterates over its objects in ascending order of
  their hashes.
\<close>

theorem set_value_updates:
  assumes "db_entries d xs" "cstr_at buf key = Inr s" "get_implementor dt = Some i" "valid_storage i ds"
    and "length (image ds) \<le> len" "src + len \<le> length buf"
    and "take (length (image ds)) (drop src buf) = image ds"
  shows "\<exists>d' ys. set_value d buf key dt src len = ret (d', buf) \<and> db_entries d' ys \<and>
           get_object d' (string_hash s) = ret (Some \<lparr>obj_ds = ds, obj_dtype = dt, obj_key = s\<rparr>) \<and>
           (\<forall>h. h \<noteq> string_hash s \<longrightarrow> get_object d' h = get_object d h) \<and>
           db_iterate d' = ret ys \<and> sorted_wrt (<) (map fst ys) \<and>
           set (map fst ys) = insert (string_hash s) (set (map fst xs))"
proof -
  let ?ob = "\<lparr>obj_ds = ds, obj_dtype = dt, obj_key = s\<rparr>" and ?h = "string_hash s"
  have v: "value_object buf key dt src len = Inr (?h, ?ob, buf)"
    using assms(2-) by (rule value_object_ok)
  then obtain d' where d': "set_value d buf key dt src len = ret (d', buf)" "db_entries d' (upd_kv ?h ?ob xs)"
    using set_value_entries [OF assms(1)] by blast
  then show ?thesis
    using get_object_entries [OF d'(2)] get_object_entries [OF assms(1)] db_iterate_entries [OF d'(2)]
      db_entries_sorted [OF d'(2)]
    by auto
qed

text \<open>The message of a client that sets the key \<open>k\<close> to the string \<open>hi\<close>, and a new database.\<close>

definition hi_message :: block where
  "hi_message = zstr ''k'' @ [CHR 0x02] @ zstr ''hi''"

definition new_db :: db where
  "new_db = \<lparr>inner = Live (db_inner_new False (\<lambda>_. 0))\<rparr>"

lemma new_db_entries: "db_entries new_db []"
  using tree_new_entries [OF TREE_ORDER_bounds] by (simp add: new_db_def db_entries_def db_inner_new_def)

theorem set_value_updates_witness:
  "\<exists>d' ys. set_value new_db hi_message 0 2 3 3 = ret (d', hi_message) \<and> db_entries d' ys \<and>
     get_object d' (string_hash ''k'') =
       ret (Some \<lparr>obj_ds = Mem (zstr ''hi''), obj_dtype = 2, obj_key = ''k''\<rparr>) \<and>
     (\<forall>h. h \<noteq> string_hash ''k'' \<longrightarrow> get_object d' h = get_object new_db h) \<and>
     db_iterate d' = ret ys \<and> sorted_wrt (<) (map fst ys) \<and> set (map fst ys) = {string_hash ''k''}"
proof -
  have "cstr_at hi_message 0 = Inr ''k''" by (simp add: hi_message_def cstr_at_def zstr_def)
  moreover have "take (length (image (Mem (zstr ''hi'')))) (drop 3 hi_message) = image (Mem (zstr ''hi''))"
    "3 + 3 \<le> length hi_message"
    by (simp_all add: hi_message_def zstr_def numeral_3_eq_3)
  ultimately show ?thesis
    using set_value_updates [OF new_db_entries, of hi_message 0 "''k''" 2 String_implementor
        "Mem (zstr ''hi'')" 3 3] greeting_object(1,2)
    by simp
qed


section \<open>The file\<close>

text \<open>
  C25. Round trip of the header: what \<open>db_header::write_to\<close> writes at a position of a stream in
  good standing, \<open>read_from\<close> at that position reads back, and it takes 290 bytes, one more than
  \<open>get_size\<close> reports.
\<close>

theorem header_roundtrip:
  assumes "\<not> fs_fail s" "fs_pos s \<le> length (fs_data s)" "header_ok h" "header_ok h0"
  shows "header_read_from h0 ((header_write_to h s)\<lparr>fs_pos := fs_pos s\<rparr>) = (h, header_write_to h s) \<and>
         fs_pos (header_write_to h s) = fs_pos s + header_get_size h + 1"
proof -
  let ?s = "(header_write_to h s)\<lparr>fs_pos := fs_pos s\<rparr>"
  have w: "header_write_to h s = fs_write (header_image h) s" by (rule header_write_image [OF assms(2)])
  have p: "fs_pos (header_write_to h s) = fs_pos s + 290"
    using w assms(1) length_header_image [OF assms(3)] by simp
  have "drop (fs_pos ?s) (fs_data ?s) = header_image h @ drop (fs_pos s + 290) (fs_data s)"
    using w assms(1,2) length_header_image [OF assms(3)] by (simp add: fs_write_data)
  moreover have "\<not> fs_fail ?s" using w assms(1) by simp
  ultimately have "header_read_from h0 ?s = (h, ?s\<lparr>fs_pos := fs_pos s + 290\<rparr>)"
    using header_read_image [of ?s h _ h0] assms(3,4) by simp
  moreover have "?s\<lparr>fs_pos := fs_pos s + 290\<rparr> = header_write_to h s" by (simp add: p [symmetric])
  moreover have "header_get_size h = 289" using assms(3)
    by (simp add: header_get_size_def info_get_size_def header_ok_def)
  ultimately show ?thesis using p by simp
qed

definition empty_stream :: fstream where
  "empty_stream = \<lparr>fs_data = [], fs_pos = 0, fs_fail = False\<rparr>"

theorem header_roundtrip_witness:
  "header_read_from (db_header_new False)
     ((header_write_to (db_header_new True) empty_stream)\<lparr>fs_pos := fs_pos empty_stream\<rparr>) =
   (db_header_new True, header_write_to (db_header_new True) empty_stream)"
  using header_roundtrip [of empty_stream "db_header_new True" "db_header_new False"]
  by (simp add: empty_stream_def)





end
