(* ===== verification/Container_Props.thy ===== *)
theory Container_Props
  imports Db_Header
begin

text \<open>
  The properties of the containers of \<open>segment_container.h\<close> and \<open>db_vector.h\<close>: what writing
  one puts into the file, and why none of them can be read back.
\<close>

lemma length_preamble_image [simp]: "length (preamble_image p) = 16"
  by (simp add: preamble_image_def)

lemma write_pos_data:
  assumes "\<not> fs_fail s" "fs_pos s \<le> length (fs_data s)"
  shows "fs_write xs s = s\<lparr>fs_data := take (fs_pos s) (fs_data s) @ xs @ drop (fs_pos s + length xs) (fs_data s),
           fs_pos := fs_pos s + length xs\<rparr>"
  using assms by (simp add: fs_write_def)

text \<open>The number of blocks of the given size that hold \<open>n\<close> bytes.\<close>

definition blocks_for :: "nat \<Rightarrow> nat \<Rightarrow> nat" where
  "blocks_for n bs = n div bs + (if n mod bs = 0 then 0 else 1)"

lemma blocks_for_cover: "0 < bs \<Longrightarrow> n \<le> blocks_for n bs * bs" "0 < bs \<Longrightarrow> blocks_for n bs * bs < n + bs"
proof -
  assume bs: "0 < bs"
  have e: "n = n div bs * bs + n mod bs" by simp
  have m: "n mod bs < bs" using bs by simp
  show "n \<le> blocks_for n bs * bs"
  proof (cases "n mod bs = 0")
    case False
    have "blocks_for n bs * bs = n div bs * bs + bs" using False by (simp add: blocks_for_def algebra_simps)
    then show ?thesis using e m by linarith
  qed (use e in \<open>simp add: blocks_for_def\<close>)
  show "blocks_for n bs * bs < n + bs"
  proof (cases "n mod bs = 0")
    case False
    have "blocks_for n bs * bs = n div bs * bs + bs" using False by (simp add: blocks_for_def algebra_simps)
    then show ?thesis using e False by linarith
  qed (use e bs in \<open>simp add: blocks_for_def\<close>)
qed

text \<open>
  C28. Writing a segment: a value that writes as many bytes as it reports follows the 16-byte
  preamble and is filled with zeros up to the smallest number of whole blocks that holds it, as
  long as that number fits 16 bits and the blocks 32 bits. A value that writes one byte more
  than it reports, as \<open>db_header\<close> does, makes the filler size negative when the reported size
  fills its blocks, and the program writes through the null pointer \<open>malloc\<close> returns.
\<close>

theorem segment_write_fills_blocks:
  assumes "\<not> fs_fail s" "fs_pos s \<le> length (fs_data s)" "0 < seg_block_size p"
    and "blocks_for sz (seg_block_size p) < 2 ^ 16" "blocks_for sz (seg_block_size p) * seg_block_size p < 2 ^ 32"
    and "p' = p\<lparr>seg_blocks_count := blocks_for sz (seg_block_size p)\<rparr>"
  shows "(length v = sz \<longrightarrow>
           (let fill = replicate (blocks_for sz (seg_block_size p) * seg_block_size p - sz) nul
            in segment_write_to sz (fs_write v) p s = Inr (p', fs_write (preamble_image p' @ v @ fill) s))) \<and>
         (length v = sz + 1 \<and> sz mod seg_block_size p = 0 \<longrightarrow>
            segment_write_to sz (fs_write v) p s = Inl Null_Deref)"
proof -
  let ?bs = "seg_block_size p" and ?n = "blocks_for sz (seg_block_size p)"
  have a: "adjust_blocks_count sz p = Inr p'"
    using assms(3,4,6) by (simp add: adjust_blocks_count_def blocks_for_def)
  have g: "segment_get_size p' = ?n * ?bs" using assms(5,6) by (simp add: segment_get_size_def)
  let ?s1 = "fs_write (preamble_image p') s"
  have o: "fs_tell ?s1 = int (fs_pos s) + 16" "fs_tell (fs_write v ?s1) = int (fs_pos s) + 16 + int (length v)"
    using assms(1) by (simp_all add: fs_tell_def)
  have le1: "fs_pos ?s1 \<le> length (fs_data ?s1)" by (rule fs_write_pos_le [OF assms(1,2)])
  have le2: "fs_pos (fs_write v ?s1) \<le> length (fs_data (fs_write v ?s1))"
    by (rule fs_write_pos_le [OF _ le1]) (simp add: assms(1))
  have w: "segment_write_to sz (fs_write v) p s =
      bindr (skip_bytes_o (int (?n * ?bs) - int (length v)) (fs_write v ?s1)) (\<lambda>o4. Inr (p', o4))"
    using o by (simp add: segment_write_to_def a g write_object_eq ostream_tellp_def Let_def)
  have "segment_write_to sz (fs_write v) p s =
      Inr (p', fs_write (preamble_image p' @ v @ replicate (?n * ?bs - sz) nul) s)" if "length v = sz"
  proof -
    have "sz \<le> ?n * ?bs" by (rule blocks_for_cover(1) [OF assms(3)])
    then have d: "int (?n * ?bs) - int (length v) = int (?n * ?bs - sz)" using that by (simp only: of_nat_diff)
    show ?thesis unfolding w d using fs_write_append [OF le1] fs_write_append [OF le2] fs_write_append [OF assms(2)]
      by (simp add: skip_bytes_o_def ostream_write_def)
  qed
  moreover have "segment_write_to sz (fs_write v) p s = Inl Null_Deref"
    if "length v = sz + 1" "sz mod ?bs = 0"
  proof -
    have "?n * ?bs = sz" using that(2) by (auto simp: blocks_for_def)
    then have d: "int (?n * ?bs) - int (length v) = - 1" using that(1) by simp
    show ?thesis unfolding w d by (simp add: skip_bytes_o_def)
  qed
  ultimately show ?thesis by (simp add: Let_def)
qed

definition sample_preamble :: segmenent_preamble where
  "sample_preamble = \<lparr>seg_block_size = 4, seg_blocks_count = 0, seg_safe = nul, seg_padding = nul, seg_hash = 0\<rparr>"

theorem segment_write_fills_blocks_witness:
  "segment_write_to 5 (fs_write ''hello'') sample_preamble \<lparr>fs_data = [], fs_pos = 0, fs_fail = False\<rparr> =
     Inr (sample_preamble\<lparr>seg_blocks_count := 2\<rparr>,
          fs_write (preamble_image (sample_preamble\<lparr>seg_blocks_count := 2\<rparr>) @ ''hello'' @ replicate 3 nul)
            \<lparr>fs_data = [], fs_pos = 0, fs_fail = False\<rparr>) \<and>
   segment_write_to 4 (fs_write ''hello'') sample_preamble \<lparr>fs_data = [], fs_pos = 0, fs_fail = False\<rparr> =
     Inl Null_Deref"
  using segment_write_fills_blocks [of "\<lparr>fs_data = [], fs_pos = 0, fs_fail = False\<rparr>" sample_preamble 5
      "sample_preamble\<lparr>seg_blocks_count := 2\<rparr>" "''hello''"]
    segment_write_fills_blocks [of "\<lparr>fs_data = [], fs_pos = 0, fs_fail = False\<rparr>" sample_preamble 4
      "sample_preamble\<lparr>seg_blocks_count := 1\<rparr>" "''hello''"]
  by (simp add: sample_preamble_def blocks_for_def)

text \<open>
  C29. No container can be read back. Reading a segment ends in the failed assertion of
  \<open>skip_bytes_i\<close>, since \<open>istream_wrp\<close> reports every stream as not seekable (or in a division by
  the block size zero); reading a stored non-empty vector into an empty one accesses elements
  that \<open>reserve\<close> did not create.
\<close>

theorem containers_unreadable:
  assumes "\<not> fs_fail s" "drop (fs_pos s) (fs_data s) = le_bytes 8 n @ rest" "0 < n" "n < 2 ^ 64" "length junk = 8"
  shows "read_vector junk [] s = Inl Out_Of_Bounds \<and>
         (segment_read_from read_val p s = Inl Assert_Failed \<or> segment_read_from read_val p s = Inl Div_By_Zero)"
proof -
  have "read_object junk s = (le_bytes 8 n, s\<lparr>fs_pos := fs_pos s + 8\<rparr>)"
    using fs_read_ok [of s "le_bytes 8 n" rest junk] assms(1,2,5) by (simp add: read_object_eq)
  moreover have "le_val (le_bytes 8 n) = n" using assms(4) by (simp add: le_val_bytes)
  moreover obtain m where "n = Suc m" using assms(3) by (cases n) auto
  ultimately have "read_vector junk [] s = Inl Out_Of_Bounds" by (simp add: read_vector_def)
  moreover have "segment_read_from read_val p s = Inl Assert_Failed \<or> segment_read_from read_val p s = Inl Div_By_Zero"
    by (simp add: segment_read_from_def skip_bytes_i_def get_seek_modeg_def Let_def split: prod.split)
  ultimately show ?thesis by simp
qed

theorem containers_unreadable_witness:
  "read_vector (replicate 8 nul) [] \<lparr>fs_data = le_bytes 8 1 @ ''x'', fs_pos = 0, fs_fail = False\<rparr> =
     Inl Out_Of_Bounds"
  using containers_unreadable [of "\<lparr>fs_data = le_bytes 8 1 @ ''x'', fs_pos = 0, fs_fail = False\<rparr>" 1 "''x''"
      "replicate 8 nul" "\<lambda>s. ((), s)" sample_preamble]
  by simp

end
