(* ===== verification/Dyn_Storage.thy ===== *)
theory Dyn_Storage
  imports Bytes
begin

text \<open>
  \<open>dynamic_storage.h\<close>: the typed buffer a connection reads into and writes from. A C++ type is
  the name \<open>typeid\<close> gives it and its size; an object in the buffer is its bytes.
\<close>

record ctype =
  ty_name :: string
  ty_size :: nat

record dynamic_storage =
  dyn_data :: block
  dyn_size :: nat
  dyn_type :: string

definition STORAGE_BINARY :: string where
  "STORAGE_BINARY = ''BINARY''"

definition dyn_new :: dynamic_storage where
  "dyn_new = \<lparr>dyn_data = [], dyn_size = 0, dyn_type = ''''\<rparr>"

definition has_value :: "dynamic_storage \<Rightarrow> bool" where
  "has_value s = (length (dyn_data s) \<noteq> 0)"

definition assert_has_value :: "dynamic_storage \<Rightarrow> unit res" where
  "assert_has_value s = (if has_value s then Inr () else Inl Assert_Failed)"

definition dyn_get_type :: "dynamic_storage \<Rightarrow> string" where
  "dyn_get_type s = dyn_type s"

definition assert_type_is :: "string \<Rightarrow> dynamic_storage \<Rightarrow> unit res" where
  "assert_type_is ty s = (let current = dyn_get_type s in if current = ty then Inr () else Inl Assert_Failed)"

definition assert_type :: "ctype \<Rightarrow> dynamic_storage \<Rightarrow> unit res" where
  "assert_type T s = bindr (assert_has_value s) (\<lambda>_. assert_type_is (ty_name T) s)"

definition assert_binary :: "dynamic_storage \<Rightarrow> unit res" where
  "assert_binary s = bindr (assert_has_value s) (\<lambda>_. assert_type_is STORAGE_BINARY s)"

definition dyn_is :: "ctype \<Rightarrow> dynamic_storage \<Rightarrow> bool" where
  "dyn_is T s = (dyn_get_type s = ty_name T)"

definition is_binary :: "dynamic_storage \<Rightarrow> bool" where
  "is_binary s = (dyn_get_type s = STORAGE_BINARY)"

text \<open>\<open>get\<close>: the bytes of the object the reference is bound to.\<close>

definition dyn_get :: "ctype \<Rightarrow> dynamic_storage \<Rightarrow> block res" where
  "dyn_get T s = bindr (assert_type T s) (\<lambda>_. rdn (dyn_data s) 0 (ty_size T))"

definition get_binary :: "dynamic_storage \<Rightarrow> block res" where
  "get_binary s = bindr (assert_binary s) (\<lambda>_. Inr (dyn_data s))"

text \<open>\<open>set\<close> only checks the type.\<close>

definition dyn_set :: "ctype \<Rightarrow> block \<Rightarrow> dynamic_storage \<Rightarrow> dynamic_storage res" where
  "dyn_set T val s = bindr (assert_type T s) (\<lambda>_. Inr s)"

definition set_binary :: "block \<Rightarrow> nat \<Rightarrow> dynamic_storage \<Rightarrow> dynamic_storage res" where
  "set_binary mem n s =
     bindr (assert_binary s) (\<lambda>_.
       if \<not> n \<le> dyn_size s then Inl Assert_Failed
       else bindr (memcpy (dyn_data s) 0 mem 0 n) (\<lambda>d. Inr (s\<lparr>dyn_data := d\<rparr>)))"

text \<open>A storage of zero bytes counts as empty, and its type name stays.\<close>

definition deallocate :: "dynamic_storage \<Rightarrow> dynamic_storage" where
  "deallocate s = (if \<not> has_value s then s else s\<lparr>dyn_data := [], dyn_type := '''', dyn_size := 0\<rparr>)"

text \<open>\<open>resize\<close> keeps the bytes that are there and fills with zeros.\<close>

definition resize :: "nat \<Rightarrow> block \<Rightarrow> block" where
  "resize n d = take n d @ replicate (n - length d) nul"

definition dyn_allocate :: "ctype \<Rightarrow> dynamic_storage \<Rightarrow> dynamic_storage" where
  "dyn_allocate T s =
     (let s1 = deallocate s
      in s1\<lparr>dyn_type := ty_name T, dyn_size := ty_size T, dyn_data := resize (ty_size T) (dyn_data s1)\<rparr>)"

definition allocate_binary :: "nat \<Rightarrow> dynamic_storage \<Rightarrow> dynamic_storage" where
  "allocate_binary n s =
     (let s1 = deallocate s
      in s1\<lparr>dyn_type := STORAGE_BINARY, dyn_size := n, dyn_data := resize n (dyn_data s1)\<rparr>)"

definition allocate_binary_from :: "nat \<Rightarrow> block \<Rightarrow> dynamic_storage \<Rightarrow> dynamic_storage res" where
  "allocate_binary_from n memory s =
     (let s1 = allocate_binary n s
      in bindr (memcpy (dyn_data s1) 0 memory 0 n) (\<lambda>d. Inr (s1\<lparr>dyn_data := d\<rparr>)))"

text \<open>\<open>construct\<close> with the value the constructor arguments make.\<close>

definition dyn_construct :: "ctype \<Rightarrow> block \<Rightarrow> dynamic_storage \<Rightarrow> dynamic_storage res" where
  "dyn_construct T val s =
     bindr (assert_type T s) (\<lambda>_.
     bindr (memcpy (dyn_data s) 0 val 0 (ty_size T)) (\<lambda>d. Inr (s\<lparr>dyn_data := d\<rparr>)))"

definition allocate_constructed :: "ctype \<Rightarrow> block \<Rightarrow> dynamic_storage \<Rightarrow> dynamic_storage res" where
  "allocate_constructed T val s = dyn_construct T val (dyn_allocate T s)"

definition dyn_copy_from :: "ctype \<Rightarrow> block \<Rightarrow> dynamic_storage \<Rightarrow> dynamic_storage res" where
  "dyn_copy_from T src s = dyn_construct T src (dyn_allocate T s)"

text \<open>The buffer handed to the socket: the address is the storage, so only the size is kept.\<close>

definition get_asio_buffer :: "dynamic_storage \<Rightarrow> nat" where
  "get_asio_buffer s = dyn_size s"

definition allocate_asio_buffer :: "ctype \<Rightarrow> dynamic_storage \<Rightarrow> dynamic_storage \<times> nat" where
  "allocate_asio_buffer T s = (let s1 = dyn_allocate T s in (s1, get_asio_buffer s1))"

section \<open>Lemmas\<close>

text \<open>The size that is reported is the size of the buffer.\<close>

definition dyn_ok :: "dynamic_storage \<Rightarrow> bool" where
  "dyn_ok s \<longleftrightarrow> dyn_size s = length (dyn_data s)"

lemma length_resize [simp]: "length (resize n d) = n"
  by (simp add: resize_def)

lemma deallocate_data [simp]: "dyn_data (deallocate s) = []"
  by (simp add: deallocate_def has_value_def)

lemma dyn_new_ok [simp]: "dyn_ok dyn_new"
  by (simp add: dyn_ok_def dyn_new_def)

lemma deallocate_ok: "dyn_ok s \<Longrightarrow> dyn_ok (deallocate s)"
  by (simp add: dyn_ok_def deallocate_def has_value_def)

lemma allocate_fields [simp]:
  "dyn_data (dyn_allocate T s) = replicate (ty_size T) nul"
  "dyn_size (dyn_allocate T s) = ty_size T"
  "dyn_type (dyn_allocate T s) = ty_name T"
  "dyn_data (allocate_binary n s) = replicate n nul"
  "dyn_size (allocate_binary n s) = n"
  "dyn_type (allocate_binary n s) = STORAGE_BINARY"
  by (simp_all add: dyn_allocate_def allocate_binary_def resize_def Let_def)

lemma copy_from_ok:
  assumes "length src = ty_size T" "0 < ty_size T"
  shows "\<exists>s'. dyn_copy_from T src s = Inr s' \<and> dyn_data s' = src \<and> dyn_size s' = length src \<and> dyn_ok s'"
  using assms
  by (auto simp: dyn_copy_from_def dyn_construct_def assert_type_def assert_has_value_def has_value_def
      assert_type_is_def dyn_get_type_def memcpy_ok put_all dyn_ok_def)

lemma allocate_binary_from_ok:
  assumes "n \<le> length memory"
  shows "\<exists>s'. allocate_binary_from n memory s = Inr s' \<and> dyn_data s' = take n memory \<and> dyn_size s' = n \<and> dyn_ok s'"
  using assms by (auto simp: allocate_binary_from_def memcpy_ok put_all dyn_ok_def Let_def)

lemma allocate_get:
  "0 < ty_size T \<Longrightarrow> length d = ty_size T \<Longrightarrow> dyn_get T ((dyn_allocate T s)\<lparr>dyn_data := d\<rparr>) = Inr d"
  by (simp add: dyn_get_def assert_type_def assert_has_value_def has_value_def assert_type_is_def dyn_get_type_def)

end
