(* ===== verification/Net_Message.thy ===== *)
theory Net_Message
  imports Hash
begin

text \<open>
  \<open>commands.h\<close>, \<open>net_message.h\<close>, \<open>net_message.cpp\<close>, \<open>dispatcher.h\<close> and \<open>format_utils\<close>: the
  command identifiers, the packed messages on the wire, the C-string views of a message body
  and the table of handlers.
\<close>

section \<open>\<open>commands.h\<close>\<close>

type_synonym command_t = nat

text \<open>\<open>(0xff << 8) | x\<close> converted to \<open>uint16_t\<close>.\<close>

definition MAKE_RESPONSE_CMD :: "nat \<Rightarrow> command_t" where
  "MAKE_RESPONSE_CMD x = unat ((push_bit 8 (0xff :: 32 word)) OR of_nat (x mod 2 ^ 16)) mod 2 ^ 16"

definition response_key_update :: command_t where "response_key_update = MAKE_RESPONSE_CMD 1"
definition response_key_deleted :: command_t where "response_key_deleted = MAKE_RESPONSE_CMD 2"
definition response_force_logout :: command_t where "response_force_logout = MAKE_RESPONSE_CMD 3"
definition response_pong :: command_t where "response_pong = MAKE_RESPONSE_CMD 4"
definition response_error :: command_t where "response_error = MAKE_RESPONSE_CMD 0xEE"

definition request_get :: command_t where "request_get = 1"
definition request_delete :: command_t where "request_delete = 2"
definition request_ping :: command_t where "request_ping = 3"
definition request_set :: command_t where "request_set = 4"
definition request_get_all :: command_t where "request_get_all = 5"
definition request_inc :: command_t where "request_inc = 6"
definition request_dec :: command_t where "request_dec = 7"
definition request_clear_all :: command_t where "request_clear_all = 8"

lemmas request_ids = request_get_def request_delete_def request_ping_def request_set_def
  request_get_all_def request_inc_def request_dec_def request_clear_all_def

lemma response_ids:
  "response_key_update = 0xff01" "response_key_deleted = 0xff02" "response_force_logout = 0xff03"
  "response_pong = 0xff04" "response_error = 0xffee"
  by (simp_all add: response_key_update_def response_key_deleted_def response_force_logout_def
      response_pong_def response_error_def MAKE_RESPONSE_CMD_def)

section \<open>\<open>net_message.h\<close>\<close>

definition PROTOCOL_VERSION :: nat where
  "PROTOCOL_VERSION = 1"

record hello_message_static =
  hello_HELLO :: block
  hello_protocol_version :: nat

definition hello_of_bytes :: "block \<Rightarrow> hello_message_static" where
  "hello_of_bytes m = \<lparr>hello_HELLO = take 5 m, hello_protocol_version = of_char (m ! 5)\<rparr>"

definition hello_valid :: "nat \<Rightarrow> hello_message_static \<Rightarrow> bool" where
  "hello_valid proto_version h \<longleftrightarrow>
     hello_protocol_version h = proto_version \<and>
     hello_HELLO h ! 0 = CHR ''H'' \<and>
     hello_HELLO h ! 1 = CHR ''e'' \<and>
     hello_HELLO h ! 2 = CHR ''L'' \<and>
     hello_HELLO h ! 3 = CHR ''l'' \<and>
     hello_HELLO h ! 4 = CHR ''O''"

text \<open>Two bytes identifier, the flag bytes of \<open>flags_t<1>\<close>, four bytes size; packed.\<close>

record message_preamble =
  msg_id :: command_t
  msg_flags :: flag_bytes
  msg_size :: nat

definition preamble_size :: nat where
  "preamble_size = 2 + bytes_count 1 + 4"

definition preamble_of_bytes :: "block \<Rightarrow> message_preamble" where
  "preamble_of_bytes m =
     \<lparr>msg_id = le_val (take 2 m),
      msg_flags = map (\<lambda>c. of_nat (of_char c)) (take (bytes_count 1) (drop 2 m)),
      msg_size = le_val (take 4 (drop (2 + bytes_count 1) m))\<rparr>"

record message_out_preamble =
  out_id :: command_t
  out_size :: nat

definition out_preamble_bytes :: "message_out_preamble \<Rightarrow> block" where
  "out_preamble_bytes p = le_bytes 2 (out_id p) @ le_bytes 4 (out_size p)"

text \<open>
  \<open>static_simple_message\<close>: the constructor sets the identifier and leaves the size as the memory
  was; \<open>junk\<close> is what it reads as.
\<close>

definition static_simple_message :: "command_t \<Rightarrow> nat \<Rightarrow> message_out_preamble" where
  "static_simple_message cmd junk = \<lparr>out_id = cmd, out_size = junk\<rparr>"

definition make_pong_message :: "nat \<Rightarrow> message_out_preamble" where
  "make_pong_message junk = static_simple_message response_pong junk"

definition make_key_deleted_preamble :: "nat \<Rightarrow> message_out_preamble" where
  "make_key_deleted_preamble junk = static_simple_message response_key_deleted junk"

definition make_key_updated_preamble :: "nat \<Rightarrow> message_out_preamble" where
  "make_key_updated_preamble junk = static_simple_message response_key_update junk"

definition make_error_preamble :: "nat \<Rightarrow> message_out_preamble" where
  "make_error_preamble junk = static_simple_message response_error junk"

section \<open>\<open>processed_message\<close>\<close>

record processed_message =
  pm_id :: command_t
  pm_size :: nat
  pm_flags :: flag_bytes
  pm_buffer :: block

definition processed_message_new :: "message_preamble \<Rightarrow> block \<Rightarrow> processed_message" where
  "processed_message_new msgp buffer =
     \<lparr>pm_id = msg_id msgp, pm_size = msg_size msgp, pm_flags = msg_flags msgp, pm_buffer = buffer\<rparr>"

text \<open>The loops that look for the zero among the first \<open>size\<close> bytes of the body.\<close>

fun cstr_scan :: "block \<Rightarrow> nat \<Rightarrow> nat \<Rightarrow> nat res" where
  "cstr_scan str len 0 = Inr len"
| "cstr_scan str len (Suc n) =
     bindr (rd str len) (\<lambda>c. if c \<noteq> nul then cstr_scan str (len + 1) n else Inr len)"

text \<open>\<open>get_cstr\<close>: the first string; the size becomes what remains behind it, in \<open>uint32_t\<close>.\<close>

definition get_cstr :: "processed_message \<Rightarrow> (string \<times> processed_message) res" where
  "get_cstr m =
     bindr (cstr_scan (pm_buffer m) 0 (pm_size m)) (\<lambda>len.
     bindr (if len = pm_size m
            then bindr (wr (pm_buffer m) (int len - 1) nul) (\<lambda>b. Inr (b, int len - 1))
            else Inr (pm_buffer m, int len)) (\<lambda>(buf, len').
     bindr (cstr_at buf 0) (\<lambda>s.
       Inr (s, m\<lparr>pm_buffer := buf, pm_size := nat ((int (pm_size m) - (len' + 1)) mod 2 ^ 32)\<rparr>))))"

text \<open>\<open>as_cstr\<close>: the last byte is overwritten; \<open>size - 1\<close> is computed in \<open>uint32_t\<close>.\<close>

definition as_cstr :: "processed_message \<Rightarrow> (string \<times> processed_message) res" where
  "as_cstr m =
     bindr (wr (pm_buffer m) ((int (pm_size m) - 1) mod 2 ^ 32) nul) (\<lambda>buf.
     bindr (cstr_at buf 0) (\<lambda>s. Inr (s, m\<lparr>pm_buffer := buf\<rparr>)))"

section \<open>\<open>dispatcher.h\<close>\<close>

type_synonym 'h dispatcher = "command_t \<Rightarrow> 'h option"

definition register_handler :: "command_t \<Rightarrow> 'h \<Rightarrow> 'h dispatcher \<Rightarrow> 'h dispatcher" where
  "register_handler cmd h d = d(cmd \<mapsto> h)"

definition dispatcher_clear :: "command_t \<Rightarrow> 'h dispatcher \<Rightarrow> 'h dispatcher" where
  "dispatcher_clear cmd d = d(cmd := None)"

text \<open>\<open>call\<close>: \<open>run\<close> is the application of a stored handler to the arguments.\<close>

definition dispatcher_call :: "command_t \<Rightarrow> 'h dispatcher \<Rightarrow> ('h \<Rightarrow> 's \<Rightarrow> 's comp) \<Rightarrow> 's \<Rightarrow> ('s \<times> bool) comp" where
  "dispatcher_call cmd d run s =
     (case d cmd of
        None \<Rightarrow> ret (s, False)
      | Some h \<Rightarrow> bindc (run h s) (\<lambda>s'. ret (s', True)))"

section \<open>Lemmas\<close>

lemma hello_valid_bytes:
  assumes "length m = 6"
  shows "hello_valid PROTOCOL_VERSION (hello_of_bytes m) \<longleftrightarrow> m = ''HeLlO'' @ [CHR 0x01]"
proof -
  obtain a b c d e f where m: "m = [a, b, c, d, e, f]"
    using assms by (auto simp: numeral_eq_Suc length_Suc_conv)
  have "(1 :: nat) = of_char (CHR 0x01)" by simp
  then have "of_char f = (1 :: nat) \<longleftrightarrow> f = CHR 0x01" using of_char_eq_iff [of f "CHR 0x01"] by metis
  then show ?thesis by (auto simp: m hello_valid_def hello_of_bytes_def PROTOCOL_VERSION_def)
qed

lemma length_out_preamble [simp]: "length (out_preamble_bytes p) = 6"
  by (simp add: out_preamble_bytes_def)

lemma cstr_scan_result:
  "len + n \<le> length str \<Longrightarrow>
     cstr_scan str len n = Inr (len + length (takeWhile (\<lambda>c. c \<noteq> nul) (take n (drop len str))))"
proof (induction str len n rule: cstr_scan.induct)
  case (2 str len n)
  then have "drop len str = str ! len # drop (len + 1) str" by (simp add: Cons_nth_drop_Suc)
  with 2 show ?case by (simp add: rd_def)
qed simp

text \<open>A body of one byte or more: the key is what precedes the first zero, or all but the last byte.\<close>

lemma as_cstr_ok:
  assumes "pm_size m = length (pm_buffer m)" "0 < pm_size m" "pm_size m < 2 ^ 32"
  shows "as_cstr m =
     Inr (takeWhile (\<lambda>c. c \<noteq> nul) (butlast (pm_buffer m)), m\<lparr>pm_buffer := butlast (pm_buffer m) @ [nul]\<rparr>)"
proof -
  obtain xs x where b: "pm_buffer m = xs @ [x]" using assms(1,2) by (cases "pm_buffer m" rule: rev_cases) auto
  have l: "pm_size m = length xs + 1" using assms(1) b by simp
  have "(int (pm_size m) - 1) mod 2 ^ 32 = int (length xs)" using l assms(3) by simp
  then have w: "wr (pm_buffer m) ((int (pm_size m) - 1) mod 2 ^ 32) nul = Inr (xs @ [nul])"
    by (simp add: wr_def b)
  have "takeWhile (\<lambda>c. c \<noteq> nul) (xs @ [nul]) = takeWhile (\<lambda>c. c \<noteq> nul) xs"
    by (induction xs) simp_all
  then show ?thesis using w b by (simp add: as_cstr_def cstr_at_def)
qed

lemma as_cstr_empty:
  assumes "pm_size m = 0" "length (pm_buffer m) < 2 ^ 32 - 1"
  shows "as_cstr m = Inl Out_Of_Bounds"
  using assms by (simp add: as_cstr_def wr_def)

end
