(* ===== verification/Connection.thy ===== *)
theory Connection
  imports Dyn_Storage Net_Message
begin

text \<open>
  \<open>connection.h\<close> and \<open>connection.cpp\<close>: one client connection with its read and write
  operations, the queues of delayed operations, the timers and closing.

  The socket is what the connection uses of it: whether it is open, the asynchronous
  operations handed to it that have not completed, and the bytes it has sent. Completions come
  at any time, in the order the operations were started, with any number of transferred bytes.
  A timer wait may end at any time, by expiry or by cancellation. The functions bound as
  handlers are the constructors of \<open>read_next\<close> and \<open>write_next\<close>; what the shared flag
  \<open>operation_done\<close> of an operation holds is recorded under the number of the operation.
\<close>

section \<open>State\<close>

datatype inner_handler = Get_handler | Set_handler | Delete_handler

datatype read_next = Received_hello | Handle_message | Processed_data inner_handler message_preamble

datatype write_next = Empty_handler | Send_data block | Free_memory

text \<open>The operations waiting for their turn: handler, \<open>required\<close>, timeout in milliseconds.\<close>

datatype pending_read_op =
    Pending_read ctype read_next bool nat
  | Pending_read_raw nat read_next bool nat

datatype pending_write_op =
    Pending_write ctype block write_next bool nat
  | Pending_write_raw block nat write_next bool nat

record read_op =
  ro_number :: nat
  ro_required :: bool
  ro_next :: read_next

record write_op =
  wo_number :: nat
  wo_required :: bool
  wo_next :: write_next

record tcp_connection =
  c_address :: string
  c_open :: bool
  c_read_in_progress :: bool
  c_write_in_progress :: bool
  c_pending_reads :: "pending_read_op list"
  c_pending_writes :: "pending_write_op list"
  c_storage :: dynamic_storage
  c_write_storage :: dynamic_storage
  c_reads :: "read_op list"
  c_writes :: "write_op list"
  c_numbers :: nat
  c_done :: "nat set"
  c_waits :: "nat list"
  c_sent :: block
  c_closed_signals :: nat
  c_junk :: nat

definition TIMEOUT :: nat where
  "TIMEOUT = 6000"

text \<open>A new connection; \<open>junk\<close> is what uninitialised members read as.\<close>

definition tcp_connection_new :: "nat \<Rightarrow> tcp_connection" where
  "tcp_connection_new junk =
     \<lparr>c_address = '''', c_open = True, c_read_in_progress = False, c_write_in_progress = False,
      c_pending_reads = [], c_pending_writes = [], c_storage = dyn_new, c_write_storage = dyn_new,
      c_reads = [], c_writes = [], c_numbers = 0, c_done = {}, c_waits = [], c_sent = [],
      c_closed_signals = 0, c_junk = junk\<rparr>"

section \<open>Small operations\<close>

text \<open>\<open>init\<close>: the address of the peer, \<open>addr:port\<close>, is the identifier of the connection.\<close>

definition conn_init :: "string \<Rightarrow> tcp_connection \<Rightarrow> tcp_connection" where
  "conn_init peer c = c\<lparr>c_address := peer\<rparr>"

definition get_id :: "tcp_connection \<Rightarrow> string" where
  "get_id c = c_address c"

definition get_timeout :: "tcp_connection \<Rightarrow> nat" where
  "get_timeout c = TIMEOUT"

definition get_read_buffer :: "tcp_connection \<Rightarrow> dynamic_storage" where
  "get_read_buffer c = c_storage c"

definition conn_close :: "tcp_connection \<Rightarrow> tcp_connection" where
  "conn_close c = c\<lparr>c_open := False, c_closed_signals := c_closed_signals c + 1\<rparr>"

definition assert_no_error :: "bool \<Rightarrow> tcp_connection \<Rightarrow> tcp_connection \<times> bool" where
  "assert_no_error failed c = (if failed then (conn_close c, True) else (c, False))"

definition timeout_close :: "tcp_connection \<Rightarrow> tcp_connection" where
  "timeout_close c = conn_close c"

text \<open>\<open>run_timer\<close>, called when the timeout is not zero.\<close>

definition run_timer :: "nat \<Rightarrow> nat \<Rightarrow> tcp_connection \<Rightarrow> tcp_connection" where
  "run_timer timeout operation c = (if timeout \<noteq> 0 then c\<lparr>c_waits := c_waits c @ [operation]\<rparr> else c)"

definition handle_timeout_expiration :: "nat \<Rightarrow> tcp_connection \<Rightarrow> tcp_connection" where
  "handle_timeout_expiration operation c = (if operation \<in> c_done c then c else conn_close c)"

section \<open>Writing\<close>

text \<open>Handing the filled write storage to the socket.\<close>

definition begin_write :: "dynamic_storage \<Rightarrow> write_next \<Rightarrow> nat \<Rightarrow> bool \<Rightarrow> tcp_connection \<Rightarrow> tcp_connection" where
  "begin_write st h timeout required c =
     (let n = c_numbers c
      in run_timer timeout n
           (c\<lparr>c_write_in_progress := True, c_write_storage := st, c_numbers := n + 1,
              c_writes := c_writes c @ [\<lparr>wo_number = n, wo_required = required, wo_next = h\<rparr>]\<rparr>))"

text \<open>
  The delayed operation is built with the base class's own, still uninitialised \<open>timeout\<close>
  instead of the argument.
\<close>

definition async_write_message ::
  "ctype \<Rightarrow> block \<Rightarrow> write_next \<Rightarrow> nat \<Rightarrow> bool \<Rightarrow> tcp_connection \<Rightarrow> tcp_connection res" where
  "async_write_message T val h timeout required c =
     (if c_write_in_progress c
      then Inr (c\<lparr>c_pending_writes := c_pending_writes c @ [Pending_write T val h required (c_junk c)]\<rparr>)
      else bindr (dyn_copy_from T val (c_write_storage c)) (\<lambda>st.
             Inr (begin_write st h timeout required c)))"

definition async_write_raw ::
  "block \<Rightarrow> nat \<Rightarrow> write_next \<Rightarrow> nat \<Rightarrow> bool \<Rightarrow> tcp_connection \<Rightarrow> tcp_connection res" where
  "async_write_raw memory amount h timeout required c =
     (if amount = 0 then Inr c
      else if c_write_in_progress c
      then Inr (c\<lparr>c_pending_writes := c_pending_writes c @ [Pending_write_raw memory amount h required timeout]\<rparr>)
      else bindr (allocate_binary_from amount memory (c_write_storage c)) (\<lambda>st.
             Inr (begin_write st h timeout required c)))"

text \<open>The packed response preambles.\<close>

definition out_type :: ctype where
  "out_type = \<lparr>ty_name = ''static_simple_message'', ty_size = 6\<rparr>"

text \<open>The shortcut with the default timeout.\<close>

definition write_preamble :: "message_out_preamble \<Rightarrow> write_next \<Rightarrow> tcp_connection \<Rightarrow> tcp_connection res" where
  "write_preamble p h c = async_write_message out_type (out_preamble_bytes p) h TIMEOUT True c"

definition async_write_error :: "string \<Rightarrow> tcp_connection \<Rightarrow> tcp_connection res" where
  "async_write_error message c =
     (let err = (make_error_preamble (c_junk c))\<lparr>out_size := (length message + 1) mod 2 ^ 32\<rparr>
      in bindr (write_preamble err Empty_handler c) (\<lambda>c1.
         async_write_raw (zstr message) (out_size err) Empty_handler TIMEOUT True c1))"

definition perform_write :: "pending_write_op \<Rightarrow> tcp_connection \<Rightarrow> tcp_connection res" where
  "perform_write op c =
     (case op of
        Pending_write T val h required timeout \<Rightarrow> async_write_message T val h timeout required c
      | Pending_write_raw memory sz h required timeout \<Rightarrow> async_write_raw memory sz h timeout required c)"

text \<open>
  The handlers of write operations: none, the lambda of \<open>send_value\<close> that sends the value after
  its preamble, and the one that frees the copied key.
\<close>

definition run_write_next :: "write_next \<Rightarrow> tcp_connection \<Rightarrow> tcp_connection res" where
  "run_write_next h c =
     (case h of
        Empty_handler \<Rightarrow> Inr c
      | Send_data data \<Rightarrow> async_write_raw data (length data) Free_memory TIMEOUT True c
      | Free_memory \<Rightarrow> Inr c)"

definition handle_write_operation :: "bool \<Rightarrow> write_op \<Rightarrow> tcp_connection \<Rightarrow> tcp_connection res" where
  "handle_write_operation failed op c =
     (let c1 = c\<lparr>c_done := insert (wo_number op) (c_done c)\<rparr>
      in if wo_required op \<and> failed then Inr (conn_close c1)
         else bindr (run_write_next (wo_next op) (c1\<lparr>c_write_in_progress := False\<rparr>)) (\<lambda>c2.
                case c_pending_writes c2 of
                  [] \<Rightarrow> Inr c2
                | p # ps \<Rightarrow> perform_write p (c2\<lparr>c_pending_writes := ps\<rparr>)))"

text \<open>The completion of the oldest write operation, after \<open>n\<close> bytes of the storage went out.\<close>

definition write_done :: "bool \<Rightarrow> nat \<Rightarrow> tcp_connection \<Rightarrow> tcp_connection res" where
  "write_done failed n c =
     (case c_writes c of
        [] \<Rightarrow> Inr c
      | op # ops \<Rightarrow>
          handle_write_operation failed op
            (c\<lparr>c_writes := ops, c_sent := c_sent c @ take n (dyn_data (c_write_storage c))\<rparr>))"

section \<open>Reading\<close>

definition begin_read :: "dynamic_storage \<Rightarrow> read_next \<Rightarrow> nat \<Rightarrow> bool \<Rightarrow> tcp_connection \<Rightarrow> tcp_connection" where
  "begin_read st h timeout required c =
     (let n = c_numbers c
      in run_timer timeout n
           (c\<lparr>c_read_in_progress := True, c_storage := st, c_numbers := n + 1,
              c_reads := c_reads c @ [\<lparr>ro_number = n, ro_required = required, ro_next = h\<rparr>]\<rparr>))"

definition async_read_message :: "ctype \<Rightarrow> read_next \<Rightarrow> nat \<Rightarrow> bool \<Rightarrow> tcp_connection \<Rightarrow> tcp_connection" where
  "async_read_message T h timeout required c =
     (if c_read_in_progress c
      then c\<lparr>c_pending_reads := c_pending_reads c @ [Pending_read T h required timeout]\<rparr>
      else begin_read (fst (allocate_asio_buffer T (c_storage c))) h timeout required c)"

definition async_read_raw :: "nat \<Rightarrow> read_next \<Rightarrow> nat \<Rightarrow> bool \<Rightarrow> tcp_connection \<Rightarrow> tcp_connection" where
  "async_read_raw amount h timeout required c =
     (if c_read_in_progress c
      then c\<lparr>c_pending_reads := c_pending_reads c @ [Pending_read_raw amount h required timeout]\<rparr>
      else begin_read (allocate_binary amount (c_storage c)) h timeout required c)"

definition perform_read :: "pending_read_op \<Rightarrow> tcp_connection \<Rightarrow> tcp_connection" where
  "perform_read op c =
     (case op of
        Pending_read T h required timeout \<Rightarrow> async_read_message T h timeout required c
      | Pending_read_raw amount h required timeout \<Rightarrow> async_read_raw amount h timeout required c)"

definition hello_type :: ctype where
  "hello_type = \<lparr>ty_name = ''hello_message_static'', ty_size = 6\<rparr>"

definition preamble_type :: ctype where
  "preamble_type = \<lparr>ty_name = ''message_preamble'', ty_size = preamble_size\<rparr>"

definition conn_start :: "tcp_connection \<Rightarrow> tcp_connection" where
  "conn_start c = async_read_message hello_type Received_hello TIMEOUT True c"

definition start_read_message :: "tcp_connection \<Rightarrow> tcp_connection" where
  "start_read_message c =
     (if \<not> c_open c then c else async_read_message preamble_type Handle_message 0 True c)"

definition received_hello :: "tcp_connection \<Rightarrow> tcp_connection res" where
  "received_hello c =
     bindr (dyn_get hello_type (c_storage c)) (\<lambda>m.
       if \<not> hello_valid PROTOCOL_VERSION (hello_of_bytes m)
       then let c1 = conn_close c in Inr (c1\<lparr>c_storage := deallocate (c_storage c1)\<rparr>)
       else Inr (start_read_message (c\<lparr>c_storage := deallocate (c_storage c)\<rparr>)))"

text \<open>
  The part of \<open>handle_message\<close> before the signal: \<open>None\<close> when the error closed the connection.
  The message is read through a reference into the storage that was deallocated just before;
  its bytes are still the ones received.
\<close>

definition take_message :: "bool \<Rightarrow> tcp_connection \<Rightarrow> (tcp_connection \<times> message_preamble option) res" where
  "take_message failed c =
     (let (c1, closed) = assert_no_error failed c
      in if closed then Inr (c1, None)
         else bindr (dyn_get preamble_type (c_storage c1)) (\<lambda>m.
                Inr (c1\<lparr>c_storage := deallocate (c_storage c1)\<rparr>, Some (preamble_of_bytes m))))"

text \<open>The bytes a completed read left in the storage.\<close>

definition receive :: "block \<Rightarrow> tcp_connection \<Rightarrow> tcp_connection" where
  "receive xs c =
     c\<lparr>c_storage := (c_storage c)\<lparr>dyn_data := put (dyn_data (c_storage c)) 0 (take (dyn_size (c_storage c)) xs)\<rparr>\<rparr>"

text \<open>The end of \<open>handle_data\<close>: the next delayed read operation.\<close>

definition next_read :: "tcp_connection \<Rightarrow> tcp_connection" where
  "next_read c =
     (case c_pending_reads c of
        [] \<Rightarrow> c
      | p # ps \<Rightarrow> perform_read p (c\<lparr>c_pending_reads := ps\<rparr>))"

end
