(* ===== verification/Server.thy ===== *)
theory Server
  imports Connection Db "HOL-Library.List_Lexorder" "HOL-Library.Char_ord"
begin

text \<open>
  \<open>asio_server.h\<close> and \<open>asio_server.cpp\<close> with the part of \<open>connection.cpp\<close> that calls into the
  server: accepting and removing connections, dispatching messages, and the handlers for
  \<open>PING\<close>, \<open>GET\<close>, \<open>SET\<close>, \<open>DELETE\<close> and \<open>GET_ALL\<close>.

  The map of connections is ordered by the identifiers. Functions posted to the io service wait
  in \<open>s_posted\<close>; operations of a destroyed connection that the socket has not yet completed are
  counted in \<open>s_orphans\<close>.
\<close>

section \<open>State\<close>

datatype handler = Ping_handler | Get_all_handler | Process_message inner_handler

record asio_server =
  s_db :: db
  s_listening :: bool
  s_connections :: "(string \<times> tcp_connection) list"
  s_dispatcher :: "handler dispatcher"
  s_posted :: "string list"
  s_orphans :: nat
  s_accepts :: nat
  s_stats_waits :: nat

definition get_conn :: "string \<Rightarrow> asio_server \<Rightarrow> tcp_connection comp" where
  "get_conn k s = (case map_of (s_connections s) k of None \<Rightarrow> fail Use_After_Free | Some c \<Rightarrow> ret c)"

text \<open>
  \<open>handle_connection_close\<close>, connected to the \<open>on_closed\<close> signal, posts one removal for every
  signal since the connection was last stored.
\<close>

definition handle_connection_close :: "string \<Rightarrow> nat \<Rightarrow> asio_server \<Rightarrow> asio_server" where
  "handle_connection_close k signals s = s\<lparr>s_posted := s_posted s @ replicate signals k\<rparr>"

definition put_conn :: "string \<Rightarrow> tcp_connection \<Rightarrow> asio_server \<Rightarrow> asio_server" where
  "put_conn k c s =
     handle_connection_close k (c_closed_signals c)
       (s\<lparr>s_connections := upd_kv k (c\<lparr>c_closed_signals := 0\<rparr>) (s_connections s)\<rparr>)"

definition with_conn :: "string \<Rightarrow> (tcp_connection \<Rightarrow> tcp_connection comp) \<Rightarrow> asio_server \<Rightarrow> asio_server comp" where
  "with_conn k f s = bindc (get_conn k s) (\<lambda>c. bindc (f c) (\<lambda>c'. ret (put_conn k c' s)))"

text \<open>\<open>apply_all_connections\<close>, over the identifiers in their order.\<close>

fun apply_ids ::
  "(tcp_connection \<Rightarrow> tcp_connection comp) \<Rightarrow> string list \<Rightarrow> asio_server \<Rightarrow> asio_server comp" where
  "apply_ids h [] s = ret s"
| "apply_ids h (k # ks) s = bindc (with_conn k h s) (apply_ids h ks)"

definition apply_all_connections ::
  "(tcp_connection \<Rightarrow> tcp_connection comp) \<Rightarrow> asio_server \<Rightarrow> asio_server comp" where
  "apply_all_connections h s = apply_ids h (map fst (s_connections s)) s"

section \<open>Handlers\<close>

definition send_key_not_found :: "string \<Rightarrow> tcp_connection \<Rightarrow> tcp_connection res" where
  "send_key_not_found key c =
     (let preamble = (make_key_deleted_preamble (c_junk c))\<lparr>out_size := (length key + 1) mod 2 ^ 32\<rparr>
      in bindr (memcpy (replicate (out_size preamble) nul) 0 (zstr key) 0 (out_size preamble)) (\<lambda>deletedKey.
         bindr (write_preamble preamble Empty_handler c) (\<lambda>c1.
         async_write_raw deletedKey (out_size preamble) Free_memory (get_timeout c1) True c1)))"

text \<open>The body of an update message: the key with its zero, the type, the value.\<close>

definition object_message :: "db_object \<Rightarrow> block res" where
  "object_message ob =
     (let key = obj_get_key ob; keySize = length key + 1
      in bindr (obj_get_size ob) (\<lambda>objSize.
           let sz = 1 + objSize + keySize;
               d1 = put (replicate sz nul) 0 key;
               d2 = d1[length key := nul]
           in bindr (obj_write_to ob d2 (keySize + 1) objSize) (\<lambda>(n, d3).
                Inr (d3[keySize := char_of (obj_get_type ob)]))))"

definition send_value_object :: "db_object \<Rightarrow> tcp_connection \<Rightarrow> tcp_connection res" where
  "send_value_object ob c =
     bindr (object_message ob) (\<lambda>data.
       write_preamble ((make_key_updated_preamble (c_junk c))\<lparr>out_size := length data mod 2 ^ 32\<rparr>)
         (Send_data data) c)"

definition send_value :: "db \<Rightarrow> string \<Rightarrow> tcp_connection \<Rightarrow> tcp_connection comp" where
  "send_value d key c =
     bindc (liftc (make_hash (zstr key) 0)) (\<lambda>keyHash.
     bindc (get_object d keyHash) (\<lambda>obj.
       case obj of
         Some ob \<Rightarrow> liftc (send_value_object ob c)
       | None \<Rightarrow> liftc (send_key_not_found key c)))"

text \<open>The body of a message is the storage of its connection; what a handler writes stays there.\<close>

definition store_buffer :: "string \<Rightarrow> block \<Rightarrow> asio_server \<Rightarrow> asio_server comp" where
  "store_buffer k buf s =
     with_conn k (\<lambda>c. ret (c\<lparr>c_storage := (c_storage c)\<lparr>dyn_data := buf\<rparr>\<rparr>)) s"

definition ping_handler :: "string \<Rightarrow> asio_server \<Rightarrow> asio_server comp" where
  "ping_handler k s =
     with_conn k (\<lambda>c. liftc (write_preamble (make_pong_message (c_junk c)) Empty_handler c)) s"

definition get_handler :: "string \<Rightarrow> processed_message \<Rightarrow> asio_server \<Rightarrow> asio_server comp" where
  "get_handler k msg s =
     bindc (liftc (as_cstr msg)) (\<lambda>(key, msg').
     bindc (store_buffer k (pm_buffer msg') s) (\<lambda>s1.
     with_conn k (send_value (s_db s1) key) s1))"

text \<open>
  \<open>SET\<close>: the key, its zero, the type and the value have to be there. An exception other than
  \<open>unsufficient_space\<close> leaves the handler.
\<close>

definition set_handler :: "string \<Rightarrow> processed_message \<Rightarrow> asio_server \<Rightarrow> asio_server comp" where
  "set_handler k msg s =
     (let chBuf = pm_buffer msg
      in bindc (liftc (cstr_scan chBuf 0 (pm_size msg))) (\<lambda>keySize.
           if pm_size msg - keySize < 1 + 1
           then with_conn k (\<lambda>c. liftc (async_write_error ''You have sent not enough data for DTYPE'' c)) s
           else
             bindc (liftc (wr chBuf (int keySize) nul)) (\<lambda>buf1.
             bindc (liftc (rd buf1 (keySize + 1))) (\<lambda>b.
               let dtype = of_char b
               in if \<not> has_type dtype
                  then bindc (store_buffer k buf1 s)
                         (with_conn k (\<lambda>c. liftc (async_write_error ''Unknown type'' c)))
                  else
                    (case set_value (s_db s) buf1 0 dtype (keySize + 1 + 1) (pm_size msg - keySize - 1 - 1) of
                       None \<Rightarrow> None
                     | Some (Inl e) \<Rightarrow>
                         if e = Unsufficient_Space
                         then bindc (store_buffer k buf1 s)
                                (with_conn k (\<lambda>c. liftc (async_write_error ''Not enough space for VALUE'' c)))
                         else fail e
                     | Some (Inr (d, buf2)) \<Rightarrow>
                         bindc (store_buffer k buf2 (s\<lparr>s_db := d\<rparr>)) (\<lambda>s1.
                         bindc (liftc (cstr_at buf2 0)) (\<lambda>key.
                         apply_all_connections (send_value d key) s1)))))))"

definition delete_handler :: "string \<Rightarrow> processed_message \<Rightarrow> asio_server \<Rightarrow> asio_server comp" where
  "delete_handler k msg s =
     bindc (liftc (as_cstr msg)) (\<lambda>(key, msg').
     bindc (store_buffer k (pm_buffer msg') s) (\<lambda>s1.
     bindc (liftc (make_hash (zstr key) 0)) (\<lambda>keyHash.
     bindc (delete_key (s_db s1) keyHash) (\<lambda>(d, deleted).
       let s2 = s1\<lparr>s_db := d\<rparr>
       in if \<not> deleted then with_conn k (\<lambda>c. liftc (send_key_not_found key c)) s2
          else apply_all_connections (\<lambda>c. liftc (send_key_not_found key c)) s2))))"

text \<open>\<open>GET_ALL\<close>: every object is looked up again under the hash of its key.\<close>

fun send_all :: "string \<Rightarrow> (hash_t \<times> db_object) list \<Rightarrow> asio_server \<Rightarrow> asio_server comp" where
  "send_all k [] s = ret s"
| "send_all k ((h, ob) # obs) s =
     bindc (with_conn k (send_value (s_db s) (takeWhile (\<lambda>x. x \<noteq> nul) (obj_get_key ob))) s) (send_all k obs)"

definition get_all_handler :: "string \<Rightarrow> asio_server \<Rightarrow> asio_server comp" where
  "get_all_handler k s = bindc (db_iterate (s_db s)) (\<lambda>obs. send_all k obs s)"

definition run_inner :: "inner_handler \<Rightarrow> string \<Rightarrow> processed_message \<Rightarrow> asio_server \<Rightarrow> asio_server comp" where
  "run_inner h k msg s =
     (case h of
        Get_handler \<Rightarrow> get_handler k msg s
      | Set_handler \<Rightarrow> set_handler k msg s
      | Delete_handler \<Rightarrow> delete_handler k msg s)"

text \<open>\<open>process_message\<close>: load the body, then \<open>handle_proccessed_data\<close> calls the inner handler.\<close>

definition process_message :: "inner_handler \<Rightarrow> message_preamble \<Rightarrow> string \<Rightarrow> asio_server \<Rightarrow> asio_server comp" where
  "process_message h msgp k s =
     with_conn k (\<lambda>c. ret (async_read_raw (msg_size msgp) (Processed_data h msgp) (get_timeout c) True c)) s"

definition handle_proccessed_data ::
  "inner_handler \<Rightarrow> message_preamble \<Rightarrow> string \<Rightarrow> asio_server \<Rightarrow> asio_server comp" where
  "handle_proccessed_data h msgp k s =
     bindc (get_conn k s) (\<lambda>c.
     bindc (liftc (get_binary (get_read_buffer c))) (\<lambda>buf.
       run_inner h k (processed_message_new msgp buf) s))"

definition run_handler :: "message_preamble \<Rightarrow> string \<Rightarrow> handler \<Rightarrow> asio_server \<Rightarrow> asio_server comp" where
  "run_handler msgp k h s =
     (case h of
        Ping_handler \<Rightarrow> ping_handler k s
      | Get_all_handler \<Rightarrow> get_all_handler k s
      | Process_message h' \<Rightarrow> process_message h' msgp k s)"

text \<open>No handler is registered for \<open>DELETE\<close>.\<close>

definition init_dispatcher :: "handler dispatcher" where
  "init_dispatcher =
     register_handler request_get_all Get_all_handler
       (register_handler request_set (Process_message Set_handler)
         (register_handler request_get (Process_message Get_handler)
           (register_handler request_ping Ping_handler Map.empty)))"

definition server_handle_message :: "string \<Rightarrow> message_preamble \<Rightarrow> asio_server \<Rightarrow> asio_server comp" where
  "server_handle_message k preamble s =
     bindc (dispatcher_call (msg_id preamble) (s_dispatcher s) (run_handler preamble k) s) (\<lambda>(s', hasHandler).
       ret s')"

section \<open>The read side of a connection\<close>

definition handle_message :: "bool \<Rightarrow> string \<Rightarrow> asio_server \<Rightarrow> asio_server comp" where
  "handle_message failed k s =
     bindc (get_conn k s) (\<lambda>c.
     bindc (liftc (take_message failed c)) (\<lambda>(c1, m).
       let s1 = put_conn k c1 s
       in case m of
            None \<Rightarrow> ret s1
          | Some msg \<Rightarrow>
              bindc (server_handle_message k msg s1) (with_conn k (\<lambda>c. ret (start_read_message c)))))"

definition run_read_next :: "read_next \<Rightarrow> bool \<Rightarrow> string \<Rightarrow> asio_server \<Rightarrow> asio_server comp" where
  "run_read_next h failed k s =
     (case h of
        Received_hello \<Rightarrow> with_conn k (\<lambda>c. liftc (received_hello c)) s
      | Handle_message \<Rightarrow> handle_message failed k s
      | Processed_data h' msgp \<Rightarrow> handle_proccessed_data h' msgp k s)"

definition handle_data :: "bool \<Rightarrow> read_op \<Rightarrow> string \<Rightarrow> asio_server \<Rightarrow> asio_server comp" where
  "handle_data failed op k s =
     bindc (get_conn k s) (\<lambda>c.
       let c1 = c\<lparr>c_done := insert (ro_number op) (c_done c)\<rparr>
       in if ro_required op \<and> failed then ret (put_conn k (conn_close c1) s)
          else bindc (run_read_next (ro_next op) failed k (put_conn k (c1\<lparr>c_read_in_progress := False\<rparr>) s))
                 (with_conn k (\<lambda>c. ret (next_read c))))"

section \<open>Life cycle\<close>

definition start_stats_task :: "asio_server \<Rightarrow> asio_server" where
  "start_stats_task s = s\<lparr>s_stats_waits := s_stats_waits s + 1\<rparr>"

definition stats_printer :: "asio_server \<Rightarrow> asio_server" where
  "stats_printer s = (if \<not> s_listening s then s else start_stats_task s)"

definition start_accept :: "asio_server \<Rightarrow> asio_server" where
  "start_accept s = (if \<not> s_listening s then s else s\<lparr>s_accepts := s_accepts s + 1\<rparr>)"

definition start_listening :: "asio_server \<Rightarrow> asio_server" where
  "start_listening s =
     (if s_listening s then s else start_accept (start_stats_task (s\<lparr>s_listening := True\<rparr>)))"

definition asio_server_new :: "db \<Rightarrow> asio_server" where
  "asio_server_new d =
     \<lparr>s_db = d, s_listening = False, s_connections = [], s_dispatcher = init_dispatcher, s_posted = [],
      s_orphans = 0, s_accepts = 0, s_stats_waits = 0\<rparr>"

text \<open>
  \<open>handle_accept\<close>: \<open>init\<close> asks the socket for its peer before the error is looked at, and so does
  the log message after the socket was closed; both throw when there is none.
\<close>

definition handle_accept :: "nat \<Rightarrow> string \<Rightarrow> bool \<Rightarrow> asio_server \<Rightarrow> asio_server comp" where
  "handle_accept junk peer failed s =
     (if failed then fail System_Error
      else let connection = conn_init peer (tcp_connection_new junk)
           in if \<not> s_listening s then fail System_Error
              else ret (start_accept (put_conn (get_id connection) (conn_start connection) s)))"

text \<open>Erasing the last pointer destroys the connection; its outstanding operations remain.\<close>

definition handle_connection_remove :: "string \<Rightarrow> asio_server \<Rightarrow> asio_server" where
  "handle_connection_remove connId s =
     s\<lparr>s_connections := del_kv connId (s_connections s),
       s_orphans := s_orphans s +
         (case map_of (s_connections s) connId of
            None \<Rightarrow> 0 | Some c \<Rightarrow> length (c_reads c) + length (c_writes c))\<rparr>"

section \<open>Events of the io service\<close>

datatype event =
    Accepted nat string bool
  | Read_done string bool block
  | Write_done string bool nat
  | Timer_done string nat
  | Posted
  | Stats_done
  | Orphan_done

text \<open>\<open>io_service_.run()\<close> calls the function bound to a completed operation.\<close>

definition on_read_done :: "string \<Rightarrow> bool \<Rightarrow> block \<Rightarrow> asio_server \<Rightarrow> asio_server comp" where
  "on_read_done k failed xs s =
     (case map_of (s_connections s) k of
        None \<Rightarrow> ret s
      | Some c \<Rightarrow>
          (case c_reads c of
             [] \<Rightarrow> ret s
           | op # ops \<Rightarrow> handle_data failed op k (put_conn k (receive xs (c\<lparr>c_reads := ops\<rparr>)) s)))"

definition on_write_done :: "string \<Rightarrow> bool \<Rightarrow> nat \<Rightarrow> asio_server \<Rightarrow> asio_server comp" where
  "on_write_done k failed n s =
     (if map_of (s_connections s) k = None then ret s
      else with_conn k (\<lambda>c. liftc (write_done failed n c)) s)"

definition on_timer_done :: "string \<Rightarrow> nat \<Rightarrow> asio_server \<Rightarrow> asio_server comp" where
  "on_timer_done k n s =
     (case map_of (s_connections s) k of
        None \<Rightarrow> ret s
      | Some c \<Rightarrow>
          if n \<in> set (c_waits c)
          then ret (put_conn k (handle_timeout_expiration n (c\<lparr>c_waits := remove1 n (c_waits c)\<rparr>)) s)
          else ret s)"

definition server_step :: "event \<Rightarrow> asio_server \<Rightarrow> asio_server comp" where
  "server_step e s =
     (case e of
        Accepted junk peer failed \<Rightarrow>
          if s_accepts s = 0 then ret s
          else handle_accept junk peer failed (s\<lparr>s_accepts := s_accepts s - 1\<rparr>)
      | Read_done k failed xs \<Rightarrow> on_read_done k failed xs s
      | Write_done k failed n \<Rightarrow> on_write_done k failed n s
      | Timer_done k n \<Rightarrow> on_timer_done k n s
      | Posted \<Rightarrow>
          (case s_posted s of [] \<Rightarrow> ret s | k # ks \<Rightarrow> ret (handle_connection_remove k (s\<lparr>s_posted := ks\<rparr>)))
      | Stats_done \<Rightarrow>
          if s_stats_waits s = 0 then ret s else ret (stats_printer (s\<lparr>s_stats_waits := s_stats_waits s - 1\<rparr>))
      | Orphan_done \<Rightarrow> if s_orphans s = 0 then ret s else fail Use_After_Free)"

fun run_events :: "event list \<Rightarrow> asio_server \<Rightarrow> asio_server comp" where
  "run_events [] s = ret s"
| "run_events (e # es) s = bindc (server_step e s) (run_events es)"

end
