(* ===== verification/Net_Inv.thy ===== *)
theory Net_Inv
  imports Server
begin

text \<open>
  The invariants of a connection: at most one read and one write operation is with the socket,
  delayed operations wait only while one is in progress, and the storage has the type the
  handler of the outstanding read asks for. Every operation of a connection keeps them; none
  of the handlers a read can have is the one for \<open>DELETE\<close>, which is never registered.
\<close>

section \<open>The write side\<close>

definition pending_write_ok :: "pending_write_op \<Rightarrow> bool" where
  "pending_write_ok p =
     (case p of
        Pending_write T val h r t \<Rightarrow> length val = ty_size T \<and> 0 < ty_size T
      | Pending_write_raw memory n h r t \<Rightarrow> n \<le> length memory \<and> 0 < n)"

definition wcore :: "tcp_connection \<Rightarrow> bool" where
  "wcore c \<longleftrightarrow>
     length (c_writes c) \<le> 1 \<and> (c_writes c \<noteq> [] \<longrightarrow> c_write_in_progress c) \<and>
     (\<forall>p\<in>set (c_pending_writes c). pending_write_ok p)"

definition winv :: "tcp_connection \<Rightarrow> bool" where
  "winv c \<longleftrightarrow> wcore c \<and> (c_pending_writes c \<noteq> [] \<longrightarrow> c_write_in_progress c)"

text \<open>What a write operation leaves alone.\<close>

definition read_view :: "tcp_connection \<Rightarrow> read_op list \<times> bool \<times> pending_read_op list \<times> dynamic_storage \<times> bool" where
  "read_view c = (c_reads c, c_read_in_progress c, c_pending_reads c, c_storage c, c_open c)"

text \<open>A write operation succeeds and keeps the invariant of the write side.\<close>

definition wkeeps :: "(tcp_connection \<Rightarrow> tcp_connection res) \<Rightarrow> bool" where
  "wkeeps f \<longleftrightarrow>
     (\<forall>c. wcore c \<longrightarrow> (\<exists>c'. f c = Inr c' \<and> wcore c' \<and> read_view c' = read_view c \<and> (winv c \<longrightarrow> winv c')))"

lemma wkeepsI:
  "(\<And>c. wcore c \<Longrightarrow> \<exists>c'. f c = Inr c' \<and> wcore c' \<and> read_view c' = read_view c \<and> (winv c \<longrightarrow> winv c')) \<Longrightarrow> wkeeps f"
  by (simp add: wkeeps_def)

lemma wkeepsE:
  assumes "wkeeps f" "wcore c"
  obtains c' where "f c = Inr c'" "wcore c'" "read_view c' = read_view c" "winv c \<Longrightarrow> winv c'"
  using assms unfolding wkeeps_def by blast

lemma wkeeps_Inr: "wkeeps Inr"
  by (rule wkeepsI) simp

lemma wkeeps_bind:
  assumes "wkeeps f" "\<And>c. wkeeps g"
  shows "wkeeps (\<lambda>c. bindr (f c) g)"
proof (rule wkeepsI)
  fix c
  assume "wcore c"
  then obtain c1 where 1: "f c = Inr c1" "wcore c1" "read_view c1 = read_view c" "winv c \<Longrightarrow> winv c1"
    using wkeepsE [OF assms(1)] by blast
  obtain c2 where "g c1 = Inr c2" "wcore c2" "read_view c2 = read_view c1" "winv c1 \<Longrightarrow> winv c2"
    using wkeepsE [OF assms(2) 1(2)] by blast
  with 1 show "\<exists>c'. bindr (f c) g = Inr c' \<and> wcore c' \<and> read_view c' = read_view c \<and> (winv c \<longrightarrow> winv c')"
    by auto
qed

lemma begin_write_fields [simp]:
  "c_writes (begin_write st h t r c) = c_writes c @ [\<lparr>wo_number = c_numbers c, wo_required = r, wo_next = h\<rparr>]"
  "c_write_in_progress (begin_write st h t r c)"
  "c_pending_writes (begin_write st h t r c) = c_pending_writes c"
  "c_write_storage (begin_write st h t r c) = st"
  "read_view (begin_write st h t r c) = read_view c"
  "c_sent (begin_write st h t r c) = c_sent c"
  "c_junk (begin_write st h t r c) = c_junk c"
  "c_closed_signals (begin_write st h t r c) = c_closed_signals c"
  by (simp_all add: begin_write_def run_timer_def read_view_def Let_def)

lemma wcore_idle: "wcore c \<Longrightarrow> \<not> c_write_in_progress c \<Longrightarrow> c_writes c = []"
  by (auto simp: wcore_def)

lemma begin_write_inv:
  assumes "wcore c" "\<not> c_write_in_progress c"
  shows "winv (begin_write st h t r c)"
proof -
  have "c_writes c = []" by (rule wcore_idle [OF assms])
  then show ?thesis using assms(1) unfolding winv_def wcore_def begin_write_fields by simp
qed

lemma push_write_inv:
  assumes "wcore c" "c_write_in_progress c" "pending_write_ok p"
  shows "winv (c\<lparr>c_pending_writes := c_pending_writes c @ [p]\<rparr>)"
  using assms by (auto simp: winv_def wcore_def)

lemma winv_wcore: "winv c \<Longrightarrow> wcore c"
  by (simp add: winv_def)

lemma async_write_message_result:
  assumes "wcore c" "length val = ty_size T" "0 < ty_size T"
  shows "\<exists>c'. async_write_message T val h t r c = Inr c' \<and> winv c' \<and> read_view c' = read_view c"
proof (cases "c_write_in_progress c")
  case True
  then show ?thesis using assms push_write_inv [OF assms(1) True]
    by (auto simp: async_write_message_def pending_write_ok_def read_view_def)
next
  case False
  then show ?thesis using assms copy_from_ok [OF assms(2,3), of "c_write_storage c"] begin_write_inv [OF assms(1) False]
    by (auto simp: async_write_message_def)
qed

lemma async_write_raw_result:
  assumes "wcore c" "n \<le> length memory" "0 < n"
  shows "\<exists>c'. async_write_raw memory n h t r c = Inr c' \<and> winv c' \<and> read_view c' = read_view c"
proof (cases "c_write_in_progress c")
  case True
  then show ?thesis using assms push_write_inv [OF assms(1) True]
    by (auto simp: async_write_raw_def pending_write_ok_def read_view_def)
next
  case False
  then show ?thesis using assms allocate_binary_from_ok [of n memory "c_write_storage c"] begin_write_inv [OF assms(1) False]
    by (auto simp: async_write_raw_def)
qed

lemma async_write_message_wkeeps:
  "length val = ty_size T \<Longrightarrow> 0 < ty_size T \<Longrightarrow> wkeeps (async_write_message T val h t r)"
  by (rule wkeepsI) (metis async_write_message_result winv_wcore)

lemma async_write_raw_wkeeps: "n \<le> length memory \<Longrightarrow> wkeeps (async_write_raw memory n h t r)"
proof (rule wkeepsI)
  fix c
  assume a: "n \<le> length memory" "wcore c"
  show "\<exists>c'. async_write_raw memory n h t r c = Inr c' \<and> wcore c' \<and> read_view c' = read_view c \<and> (winv c \<longrightarrow> winv c')"
  proof (cases "n = 0")
    case True
    with a show ?thesis by (simp add: async_write_raw_def)
  next
    case False
    then obtain c' where "async_write_raw memory n h t r c = Inr c'" "winv c'" "read_view c' = read_view c"
      using async_write_raw_result [OF a(2,1), of h t r] by auto
    then show ?thesis using winv_wcore by auto
  qed
qed

lemma write_preamble_result:
  "wcore c \<Longrightarrow> \<exists>c'. write_preamble p h c = Inr c' \<and> winv c' \<and> read_view c' = read_view c"
  unfolding write_preamble_def by (rule async_write_message_result) (simp_all add: out_type_def)

lemma perform_write_inv:
  assumes "wcore c" "pending_write_ok p"
  shows "\<exists>c'. perform_write p c = Inr c' \<and> winv c' \<and> read_view c' = read_view c"
  using assms async_write_message_result [of c] async_write_raw_result [of c]
  by (cases p) (auto simp: perform_write_def pending_write_ok_def)

lemma run_write_next_wkeeps: "wkeeps (run_write_next h)"
  using async_write_raw_wkeeps wkeeps_Inr
  by (cases h) (simp_all add: run_write_next_def [abs_def])

lemma conn_close_views [simp]:
  "c_writes (conn_close c) = c_writes c" "c_pending_writes (conn_close c) = c_pending_writes c"
  "c_write_in_progress (conn_close c) = c_write_in_progress c"
  "c_reads (conn_close c) = c_reads c" "c_pending_reads (conn_close c) = c_pending_reads c"
  "c_read_in_progress (conn_close c) = c_read_in_progress c" "c_storage (conn_close c) = c_storage c"
  by (simp_all add: conn_close_def)

text \<open>The read side without the socket state, which \<open>close\<close> changes.\<close>

definition reads_of :: "tcp_connection \<Rightarrow> read_op list \<times> bool \<times> pending_read_op list \<times> dynamic_storage" where
  "reads_of c = (c_reads c, c_read_in_progress c, c_pending_reads c, c_storage c)"

lemma reads_of_view: "read_view c = read_view c' \<Longrightarrow> reads_of c = reads_of c'"
  by (simp add: read_view_def reads_of_def)

lemma write_done_inv:
  assumes "winv c"
  shows "\<exists>c'. write_done failed n c = Inr c' \<and> winv c' \<and> reads_of c' = reads_of c"
proof (cases "c_writes c")
  case Nil
  with assms show ?thesis by (simp add: write_done_def)
next
  case (Cons op ops)
  then have ops: "ops = []" "c_write_in_progress c" using assms by (auto simp: winv_def wcore_def)
  let ?c = "c\<lparr>c_writes := ops, c_sent := c_sent c @ take n (dyn_data (c_write_storage c))\<rparr>"
  let ?c1 = "?c\<lparr>c_done := insert (wo_number op) (c_done ?c)\<rparr>"
  have w: "write_done failed n c = handle_write_operation failed op ?c" using Cons by (simp add: write_done_def)
  show ?thesis
  proof (cases "wo_required op \<and> failed")
    case True
    then show ?thesis using w assms ops
      by (auto simp: handle_write_operation_def winv_def wcore_def reads_of_def conn_close_def)
  next
    case False
    have "wcore (?c1\<lparr>c_write_in_progress := False\<rparr>)" using assms ops by (simp add: winv_def wcore_def)
    then obtain c2 where c2: "run_write_next (wo_next op) (?c1\<lparr>c_write_in_progress := False\<rparr>) = Inr c2" "wcore c2"
      "read_view c2 = read_view (?c1\<lparr>c_write_in_progress := False\<rparr>)"
      using wkeepsE [OF run_write_next_wkeeps] by blast
    then have r2: "reads_of c2 = reads_of c" by (simp add: read_view_def reads_of_def)
    show ?thesis
    proof (cases "c_pending_writes c2")
      case Nil
      then show ?thesis using w False c2 r2 by (auto simp: handle_write_operation_def winv_def Let_def)
    next
      case (Cons p ps)
      then have "wcore (c2\<lparr>c_pending_writes := ps\<rparr>)" "pending_write_ok p" using c2(2) by (auto simp: wcore_def)
      then obtain c3 where "perform_write p (c2\<lparr>c_pending_writes := ps\<rparr>) = Inr c3" "winv c3"
        "read_view c3 = read_view (c2\<lparr>c_pending_writes := ps\<rparr>)"
        using perform_write_inv by blast
      then show ?thesis using w False c2(1) r2 Cons
        by (auto simp: handle_write_operation_def read_view_def reads_of_def Let_def)
    qed
  qed
qed

section \<open>The read side\<close>

text \<open>The storage suits the handler of the outstanding read.\<close>

definition next_ok :: "read_next \<Rightarrow> dynamic_storage \<Rightarrow> bool" where
  "next_ok h st \<longleftrightarrow>
     dyn_ok st \<and>
     (case h of
        Received_hello \<Rightarrow> dyn_type st = ty_name hello_type \<and> dyn_size st = ty_size hello_type
      | Handle_message \<Rightarrow> dyn_type st = ty_name preamble_type \<and> dyn_size st = ty_size preamble_type
      | Processed_data h' m \<Rightarrow>
          h' \<noteq> Delete_handler \<and> dyn_type st = STORAGE_BINARY \<and> dyn_size st = msg_size m)"

definition pending_read_ok :: "pending_read_op \<Rightarrow> bool" where
  "pending_read_ok p =
     (case p of
        Pending_read T h r t \<Rightarrow>
          (h = Received_hello \<and> T = hello_type) \<or> (h = Handle_message \<and> T = preamble_type)
      | Pending_read_raw n h r t \<Rightarrow> (\<exists>h' m. h = Processed_data h' m \<and> h' \<noteq> Delete_handler \<and> n = msg_size m))"

definition rcore :: "tcp_connection \<Rightarrow> bool" where
  "rcore c \<longleftrightarrow>
     length (c_reads c) \<le> 1 \<and> (c_reads c \<noteq> [] \<longrightarrow> c_read_in_progress c) \<and>
     (\<forall>op\<in>set (c_reads c). next_ok (ro_next op) (c_storage c)) \<and>
     (\<forall>p\<in>set (c_pending_reads c). pending_read_ok p)"

definition rinv :: "tcp_connection \<Rightarrow> bool" where
  "rinv c \<longleftrightarrow> rcore c \<and> (c_pending_reads c \<noteq> [] \<longrightarrow> c_read_in_progress c)"

lemma rcore_view: "reads_of c = reads_of c' \<Longrightarrow> rcore c = rcore c'"
  by (simp add: reads_of_def rcore_def)

lemma rinv_view: "reads_of c = reads_of c' \<Longrightarrow> rinv c = rinv c'"
  using rcore_view [of c c'] by (simp add: rinv_def reads_of_def)

definition write_view :: "tcp_connection \<Rightarrow> write_op list \<times> bool \<times> pending_write_op list" where
  "write_view c = (c_writes c, c_write_in_progress c, c_pending_writes c)"

lemma winv_view: "write_view c = write_view c' \<Longrightarrow> winv c = winv c'"
  by (simp add: write_view_def winv_def wcore_def)

lemma begin_read_fields [simp]:
  "c_reads (begin_read st h t r c) = c_reads c @ [\<lparr>ro_number = c_numbers c, ro_required = r, ro_next = h\<rparr>]"
  "c_read_in_progress (begin_read st h t r c)"
  "c_pending_reads (begin_read st h t r c) = c_pending_reads c"
  "c_storage (begin_read st h t r c) = st"
  "write_view (begin_read st h t r c) = write_view c"
  by (simp_all add: begin_read_def run_timer_def write_view_def Let_def)

lemma read_started:
  assumes "rcore c" "\<not> c_read_in_progress c" "next_ok h st"
  shows "rinv (begin_read st h t r c)"
  using assms by (auto simp: rinv_def rcore_def)

lemma push_read_inv:
  assumes "rcore c" "c_read_in_progress c" "pending_read_ok p"
  shows "rinv (c\<lparr>c_pending_reads := c_pending_reads c @ [p]\<rparr>)"
  using assms by (auto simp: rinv_def rcore_def)

lemma perform_read_inv:
  assumes "rcore c" "pending_read_ok p"
  shows "rinv (perform_read p c) \<and> write_view (perform_read p c) = write_view c"
proof -
  have st: "next_ok h (dyn_allocate T s)"
    if "(h = Received_hello \<and> T = hello_type) \<or> (h = Handle_message \<and> T = preamble_type)" for h T s
    using that by (auto simp: next_ok_def dyn_ok_def)
  have raw: "next_ok (Processed_data h m) (allocate_binary (msg_size m) s)" if "h \<noteq> Delete_handler" for h m s
    using that by (simp add: next_ok_def dyn_ok_def)
  show ?thesis
  proof (cases "c_read_in_progress c")
    case True
    then show ?thesis using assms push_read_inv [OF assms(1) True]
      by (cases p)
        (auto simp: perform_read_def async_read_message_def async_read_raw_def pending_read_ok_def write_view_def)
  next
    case False
    then show ?thesis using assms st raw read_started [OF assms(1) False]
      by (cases p)
        (auto simp: perform_read_def async_read_message_def async_read_raw_def pending_read_ok_def
          allocate_asio_buffer_def Let_def)
  qed
qed

lemma start_read_message_inv:
  assumes "rcore c"
  shows "rcore (start_read_message c)" "rinv c \<Longrightarrow> rinv (start_read_message c)"
    "write_view (start_read_message c) = write_view c"
  using perform_read_inv [OF assms, of "Pending_read preamble_type Handle_message True 0"] assms
  by (auto simp: start_read_message_def perform_read_def pending_read_ok_def rinv_def)

lemma next_read_inv:
  assumes "rcore c"
  shows "rinv (next_read c) \<and> write_view (next_read c) = write_view c"
proof (cases "c_pending_reads c")
  case Nil
  then show ?thesis using assms by (simp add: next_read_def rinv_def)
next
  case (Cons p ps)
  have "rcore (c\<lparr>c_pending_reads := ps\<rparr>)" "pending_read_ok p" using assms Cons by (auto simp: rcore_def)
  then show ?thesis using perform_read_inv [of "c\<lparr>c_pending_reads := ps\<rparr>" p] Cons
    by (simp add: next_read_def write_view_def)
qed

lemma conn_start_inv:
  "winv (conn_start (conn_init peer (tcp_connection_new junk))) \<and> rinv (conn_start (conn_init peer (tcp_connection_new junk)))"
proof -
  let ?c = "conn_init peer (tcp_connection_new junk)"
  have "rcore ?c" "winv ?c" by (simp_all add: conn_init_def tcp_connection_new_def rcore_def winv_def wcore_def)
  moreover have "conn_start ?c = perform_read (Pending_read hello_type Received_hello True TIMEOUT) ?c"
    by (simp add: conn_start_def perform_read_def)
  ultimately show ?thesis
    using perform_read_inv [of ?c "Pending_read hello_type Received_hello True TIMEOUT"]
      winv_view [of "conn_start ?c" ?c]
    by (simp add: pending_read_ok_def)
qed

text \<open>A completed read with the socket idle again; the handlers of typed messages find their type.\<close>

definition idle :: "tcp_connection \<Rightarrow> bool" where
  "idle c \<longleftrightarrow> rcore c \<and> c_reads c = [] \<and> \<not> c_read_in_progress c"

lemma dyn_get_typed:
  assumes "dyn_ok st" "dyn_type st = ty_name T" "dyn_size st = ty_size T" "0 < ty_size T"
  shows "dyn_get T st = Inr (dyn_data st)"
  using assms
  by (simp add: dyn_get_def assert_type_def assert_has_value_def has_value_def assert_type_is_def
      dyn_get_type_def dyn_ok_def)

lemma typed_sizes [simp]: "ty_size hello_type = 6" "ty_size preamble_type = 8 - 1"
  by (simp_all add: hello_type_def preamble_type_def preamble_size_def bytes_count_def)

lemma idle_storage [simp]: "idle (c\<lparr>c_storage := st\<rparr>) = idle c"
  by (auto simp: idle_def rcore_def)

lemma idle_close [simp]: "idle (conn_close c) = idle c"
  by (simp add: idle_def rcore_def)

lemma idle_rcore: "idle c \<Longrightarrow> rcore c"
  by (simp add: idle_def)

lemma received_hello_inv:
  assumes "idle c" "next_ok Received_hello (c_storage c)"
  shows "\<exists>c'. received_hello c = Inr c' \<and> rcore c' \<and> write_view c' = write_view c"
proof -
  have g: "dyn_get hello_type (c_storage c) = Inr (dyn_data (c_storage c))"
    by (rule dyn_get_typed) (use assms(2) in \<open>auto simp: next_ok_def\<close>)
  have "rcore (c\<lparr>c_storage := deallocate (c_storage c)\<rparr>)"
    "rcore (conn_close c\<lparr>c_storage := deallocate (c_storage c)\<rparr>)"
    using assms(1) idle_rcore by (simp_all add: idle_rcore)
  then show ?thesis using g start_read_message_inv [of "c\<lparr>c_storage := deallocate (c_storage c)\<rparr>"]
    by (auto simp: received_hello_def Let_def write_view_def)
qed

lemma take_message_inv:
  assumes "idle c" "next_ok Handle_message (c_storage c)"
  shows "\<exists>c' m. take_message failed c = Inr (c', m) \<and> idle c' \<and> write_view c' = write_view c"
proof -
  have "dyn_get preamble_type (c_storage c) = Inr (dyn_data (c_storage c))"
    by (rule dyn_get_typed) (use assms(2) in \<open>auto simp: next_ok_def\<close>)
  then show ?thesis using assms(1)
    by (auto simp: take_message_def assert_no_error_def Let_def write_view_def)
qed

lemma receive_fields [simp]:
  "c_reads (receive xs c) = c_reads c" "c_pending_reads (receive xs c) = c_pending_reads c"
  "c_read_in_progress (receive xs c) = c_read_in_progress c" "write_view (receive xs c) = write_view c"
  "c_closed_signals (receive xs c) = c_closed_signals c"
  by (simp_all add: receive_def write_view_def)

lemma receive_next_ok: "next_ok h (c_storage c) \<Longrightarrow> next_ok h (c_storage (receive xs c))"
  by (auto simp: next_ok_def receive_def dyn_ok_def length_put min_def split: read_next.splits)

end
