(* ===== verification/Server_Inv.thy ===== *)
theory Server_Inv
  imports Net_Inv
begin

text \<open>
  The invariant of the server over all sequences of events: the invariants of every connection,
  the registered handlers and a database in good standing.
\<close>

section \<open>The invariant\<close>

text \<open>
  While the handler of a read of connection \<open>k\<close> runs, that connection satisfies \<open>Q\<close> in place of
  the invariant of its read side.
\<close>

definition sinv_at :: "(tcp_connection \<Rightarrow> bool) \<Rightarrow> string \<Rightarrow> asio_server \<Rightarrow> bool" where
  "sinv_at Q k s \<longleftrightarrow>
     s_listening s \<and> s_dispatcher s = init_dispatcher \<and> sorted_keys (s_connections s) \<and>
     (\<exists>xs. db_entries (s_db s) xs) \<and>
     (\<forall>k' c. map_of (s_connections s) k' = Some c \<longrightarrow> winv c \<and> (if k' = k then Q c else rinv c))"

definition sinv :: "asio_server \<Rightarrow> bool" where
  "sinv s \<longleftrightarrow>
     s_listening s \<and> s_dispatcher s = init_dispatcher \<and> sorted_keys (s_connections s) \<and>
     (\<exists>xs. db_entries (s_db s) xs) \<and>
     (\<forall>k c. map_of (s_connections s) k = Some c \<longrightarrow> winv c \<and> rinv c)"

lemma sinv_at_rinv: "sinv_at rinv k s = sinv s"
  by (auto simp: sinv_at_def sinv_def)

text \<open>Conditions on the read side only.\<close>

definition viewed :: "(tcp_connection \<Rightarrow> bool) \<Rightarrow> bool" where
  "viewed Q \<longleftrightarrow> (\<forall>c c'. reads_of c = reads_of c' \<longrightarrow> Q c = Q c')"

lemma viewedI: "(\<And>c c'. reads_of c = reads_of c' \<Longrightarrow> Q c = Q c') \<Longrightarrow> viewed Q"
  unfolding viewed_def by blast

lemma viewedD: "viewed Q \<Longrightarrow> reads_of c = reads_of c' \<Longrightarrow> Q c \<Longrightarrow> Q c'"
  unfolding viewed_def by blast

lemma viewed_rcore [simp]: "viewed rcore"
  by (rule viewedI) (rule rcore_view)

lemma viewed_rinv [simp]: "viewed rinv"
  by (rule viewedI) (rule rinv_view)

lemma viewed_idle [simp]: "viewed idle"
proof (rule viewedI)
  fix c c' :: tcp_connection
  assume v: "reads_of c = reads_of c'"
  then have "c_reads c = c_reads c'" "c_read_in_progress c = c_read_in_progress c'" by (simp_all add: reads_of_def)
  then show "idle c = idle c'" using rcore_view [OF v] by (simp add: idle_def)
qed

lemma viewed_next [simp]: "viewed (\<lambda>c. idle c \<and> next_ok h (c_storage c))"
proof (rule viewedI)
  fix c c' :: tcp_connection
  assume v: "reads_of c = reads_of c'"
  then have "c_storage c = c_storage c'" by (simp add: reads_of_def)
  then show "(idle c \<and> next_ok h (c_storage c)) = (idle c' \<and> next_ok h (c_storage c'))"
    using viewed_idle v unfolding viewed_def by metis
qed

lemma put_conn_fields [simp]:
  "s_db (put_conn k c s) = s_db s" "s_listening (put_conn k c s) = s_listening s"
  "s_dispatcher (put_conn k c s) = s_dispatcher s"
  "s_connections (put_conn k c s) = upd_kv k (c\<lparr>c_closed_signals := 0\<rparr>) (s_connections s)"
  by (simp_all add: put_conn_def handle_connection_close_def)

lemma views_signals [simp]:
  "reads_of (c\<lparr>c_closed_signals := n\<rparr>) = reads_of c" "winv (c\<lparr>c_closed_signals := n\<rparr>) = winv c"
  by (simp_all add: reads_of_def winv_def wcore_def)

lemma viewed_signals: "viewed Q \<Longrightarrow> Q (c\<lparr>c_closed_signals := n\<rparr>) = Q c"
  unfolding viewed_def by (metis views_signals(1))

lemma put_at:
  assumes "sinv_at Q k s" "winv c" "viewed Q'" "Q' c"
  shows "sinv_at Q' k (put_conn k c s)"
  using assms viewed_signals [OF assms(3)]
  by (auto simp: sinv_at_def sorted_upd_kv)

lemma with_connE:
  assumes "with_conn k f s = ret s'"
  obtains c c' where "map_of (s_connections s) k = Some c" "f c = ret c'" "s' = put_conn k c' s"
  using assms by (auto simp: with_conn_def get_conn_def bindc_eq_ret split: option.splits)

lemma with_at:
  assumes "sinv_at Q k s" "with_conn k f s = ret s'" "viewed Q'"
    and "\<And>c c'. \<lbrakk>winv c; Q c; f c = ret c'\<rbrakk> \<Longrightarrow> winv c' \<and> Q' c'"
  shows "sinv_at Q' k s'" "s_db s' = s_db s"
proof -
  obtain c c' where c: "map_of (s_connections s) k = Some c" "f c = ret c'" "s' = put_conn k c' s"
    using assms(2) by (rule with_connE)
  moreover have "winv c" "Q c" using assms(1) c(1) by (auto simp: sinv_at_def)
  ultimately show "sinv_at Q' k s'" using put_at [OF assms(1) _ assms(3)] assms(4) by blast
  show "s_db s' = s_db s" using c(3) by simp
qed

section \<open>Write operations of any connection\<close>

definition wop :: "(tcp_connection \<Rightarrow> tcp_connection comp) \<Rightarrow> bool" where
  "wop f \<longleftrightarrow> (\<forall>c c'. winv c \<longrightarrow> f c = ret c' \<longrightarrow> winv c' \<and> reads_of c' = reads_of c)"

lemma wopI: "(\<And>c c'. winv c \<Longrightarrow> f c = ret c' \<Longrightarrow> winv c' \<and> reads_of c' = reads_of c) \<Longrightarrow> wop f"
  by (simp add: wop_def)

lemma wopD: "wop f \<Longrightarrow> winv c \<Longrightarrow> f c = ret c' \<Longrightarrow> winv c' \<and> reads_of c' = reads_of c"
  by (simp add: wop_def)

lemma sinv_atD:
  assumes "sinv_at Q k s" "map_of (s_connections s) k' = Some c"
  shows "winv c" "k' = k \<Longrightarrow> Q c" "k' \<noteq> k \<Longrightarrow> rinv c"
  using assms by (auto simp: sinv_at_def)

lemma wkeeps_wop: "wkeeps f \<Longrightarrow> wop (\<lambda>c. liftc (f c))"
proof (rule wopI)
  fix c c'
  assume f: "wkeeps f" "winv c" "liftc (f c) = ret c'"
  then obtain c1 where "f c = Inr c1" "winv c1" "read_view c1 = read_view c"
    using wkeepsE [OF f(1) winv_wcore [OF f(2)]] by metis
  with f show "winv c' \<and> reads_of c' = reads_of c" using reads_of_view [of c1 c] by auto
qed

lemma with_wop:
  assumes "sinv_at Q k s" "viewed Q" "with_conn k' f s = ret s'" "wop f"
  shows "sinv_at Q k s'" "s_db s' = s_db s"
proof -
  obtain c c' where c: "map_of (s_connections s) k' = Some c" "f c = ret c'" "s' = put_conn k' c' s"
    using assms(3) by (rule with_connE)
  have n: "winv c'" "reads_of c = reads_of c'"
    using wopD [OF assms(4) sinv_atD(1) [OF assms(1) c(1)] c(2)] by simp_all
  let ?c = "c'\<lparr>c_closed_signals := 0\<rparr>"
  have v: "reads_of c = reads_of ?c" using n(2) by simp
  have "winv ?c" "k' = k \<Longrightarrow> Q ?c" "k' \<noteq> k \<Longrightarrow> rinv ?c"
    using n(1) viewedD [OF assms(2) v] viewedD [OF viewed_rinv v] sinv_atD [OF assms(1) c(1)] by auto
  then show "sinv_at Q k s'" using assms(1) unfolding c(3)
    by (simp add: sinv_at_def sorted_upd_kv)
  show "s_db s' = s_db s" using c(3) by simp
qed

lemma apply_ids_wop:
  "sinv_at Q k s \<Longrightarrow> viewed Q \<Longrightarrow> apply_ids f ks s = ret s' \<Longrightarrow> wop f \<Longrightarrow> sinv_at Q k s'"
proof (induction f ks s rule: apply_ids.induct)
  case (2 f k' ks s)
  then obtain s1 where s1: "with_conn k' f s = ret s1" "apply_ids f ks s1 = ret s'" by (auto simp: bindc_eq_ret)
  then have "sinv_at Q k s1" using with_wop(1) [OF 2(2,3) _ 2(5)] by blast
  then show ?case using 2 s1(2) by blast
qed simp

lemma write_preamble_wkeeps: "wkeeps (write_preamble p h)"
  by (rule wkeepsI) (metis write_preamble_result winv_wcore)

text \<open>A preamble followed by raw bytes, as every response without a value is.\<close>

lemma message_wop:
  assumes "n \<le> length mem"
  shows "wop (\<lambda>c. liftc (bindr (write_preamble (p c) h c) (async_write_raw mem n h' t r)))"
proof (rule wopI)
  fix c c'
  assume c: "winv c" "liftc (bindr (write_preamble (p c) h c) (async_write_raw mem n h' t r)) = ret c'"
  have "wkeeps (\<lambda>x. bindr (write_preamble (p c) h x) (async_write_raw mem n h' t r))"
    by (intro wkeeps_bind write_preamble_wkeeps async_write_raw_wkeeps assms)
  from wopD [OF wkeeps_wop [OF this] c] show "winv c' \<and> reads_of c' = reads_of c" .
qed

lemma size_truncated: "(length key + 1) mod 2 ^ 32 \<le> length (zstr key)"
  using mod_less_eq_dividend [of "length key + 1" "2 ^ 32"] by simp

lemma send_key_not_found_eq:
  "send_key_not_found key =
     (\<lambda>c. let n = (length key + 1) mod 2 ^ 32
          in bindr (write_preamble ((make_key_deleted_preamble (c_junk c))\<lparr>out_size := n\<rparr>) Empty_handler c)
               (async_write_raw (take n (zstr key)) n Free_memory TIMEOUT True))"
  using size_truncated [of key]
  by (simp add: send_key_not_found_def fun_eq_iff memcpy_ok put_all get_timeout_def Let_def)

lemma send_key_not_found_wop: "wop (\<lambda>c. liftc (send_key_not_found key c))"
  unfolding send_key_not_found_eq Let_def
  by (rule message_wop) (use size_truncated [of key] in simp)

lemma async_write_error_wop: "wop (\<lambda>c. liftc (async_write_error m c))"
proof -
  have "async_write_error m = (\<lambda>c. bindr (write_preamble
      ((make_error_preamble (c_junk c))\<lparr>out_size := (length m + 1) mod 2 ^ 32\<rparr>) Empty_handler c)
      (async_write_raw (zstr m) ((length m + 1) mod 2 ^ 32) Empty_handler TIMEOUT True))"
    by (simp add: async_write_error_def fun_eq_iff Let_def)
  then show ?thesis using message_wop [OF size_truncated [of m]] by simp
qed

lemma send_value_object_wop: "wop (\<lambda>c. liftc (send_value_object ob c))"
proof (rule wopI)
  fix c c'
  assume c: "winv c" "liftc (send_value_object ob c) = ret c'"
  then obtain data where "write_preamble
      ((make_key_updated_preamble (c_junk c))\<lparr>out_size := length data mod 2 ^ 32\<rparr>) (Send_data data) c = Inr c'"
    by (auto simp: send_value_object_def bindr_eq_Inr)
  then show "winv c' \<and> reads_of c' = reads_of c"
    using wopD [OF wkeeps_wop [OF write_preamble_wkeeps] c(1)] by simp
qed

lemma send_value_wop: "wop (send_value d key)"
proof (rule wopI)
  fix c c'
  assume c: "winv c" "send_value d key c = ret c'"
  have "(\<exists>ob. send_value_object ob c = Inr c') \<or> send_key_not_found key c = Inr c'"
    using c(2) by (auto simp: send_value_def bindc_eq_ret split: option.splits)
  then show "winv c' \<and> reads_of c' = reads_of c"
    using wopD [OF send_key_not_found_wop c(1)] wopD [OF send_value_object_wop c(1)] by auto
qed

section \<open>The handlers\<close>

lemma sinv_at_db:
  "sinv_at Q k s \<Longrightarrow> db_entries d xs \<Longrightarrow> sinv_at Q k (s\<lparr>s_db := d\<rparr>)"
  by (auto simp: sinv_at_def)

lemma store_buffer_idle:
  assumes "sinv_at idle k s" "store_buffer k buf s = ret s'"
  shows "sinv_at idle k s'" "s_db s' = s_db s"
proof -
  have keep: "winv c' \<and> idle c'"
    if "winv c" "idle c" "ret (c\<lparr>c_storage := (c_storage c)\<lparr>dyn_data := buf\<rparr>\<rparr>) = ret c'" for c c'
    using that winv_view [of c' c] by (auto simp: write_view_def)
  note w = with_at [OF assms(1) assms(2) [unfolded store_buffer_def] viewed_idle keep]
  show "sinv_at idle k s'" "s_db s' = s_db s" using w by simp_all
qed

lemma set_value_keeps:
  assumes "db_entries d xs" "set_value d buf key dt src len = ret (d', buf')"
  shows "\<exists>ys. db_entries d' ys"
proof -
  obtain h ob b where v: "value_object buf key dt src len = Inr (h, ob, b)"
    using assms(2) by (auto simp: set_value_object split: sum.splits)
  then show ?thesis using set_value_entries [OF assms(1) v] assms(2) by auto
qed

lemma get_handler_inv:
  assumes "sinv_at idle k s" "get_handler k msg s = ret s'"
  shows "sinv_at idle k s'"
proof -
  obtain key s1 and msg' :: processed_message where s: "store_buffer k (pm_buffer msg') s = ret s1"
    "with_conn k (send_value (s_db s1) key) s1 = ret s'"
    using assms(2) by (auto simp: get_handler_def bindc_eq_ret intro: that)
  have "sinv_at idle k s1" by (rule store_buffer_idle(1) [OF assms(1) s(1)])
  then show ?thesis by (rule with_wop(1) [OF _ viewed_idle s(2) send_value_wop])
qed

lemma error_reply_inv:
  assumes "sinv_at idle k s" "with_conn k (\<lambda>c. liftc (async_write_error m c)) s = ret s'"
  shows "sinv_at idle k s'"
  by (rule with_wop(1) [OF assms(1) viewed_idle assms(2) async_write_error_wop])

lemma stored_error_inv:
  assumes "sinv_at idle k s"
    and "bindc (store_buffer k buf s) (with_conn k (\<lambda>c. liftc (async_write_error m c))) = ret s'"
  shows "sinv_at idle k s'"
proof -
  obtain s1 where "store_buffer k buf s = ret s1" "with_conn k (\<lambda>c. liftc (async_write_error m c)) s1 = ret s'"
    using assms(2) by (auto simp: bindc_eq_ret)
  then show ?thesis using error_reply_inv store_buffer_idle(1) [OF assms(1)] by blast
qed

lemma set_handler_inv:
  assumes "sinv_at idle k s" "set_handler k msg s = ret s'"
  shows "sinv_at idle k s'"
proof -
  let ?chBuf = "pm_buffer msg"
  obtain n where n: "cstr_scan ?chBuf 0 (pm_size msg) = Inr n"
    using assms(2) by (cases "cstr_scan ?chBuf 0 (pm_size msg)") (auto simp: set_handler_def)
  show ?thesis
  proof (cases "pm_size msg - n < 1 + 1")
    case True
    with n assms(2) have "with_conn k (\<lambda>c. liftc (async_write_error ''You have sent not enough data for DTYPE'' c)) s = ret s'"
      by (simp add: set_handler_def)
    then show ?thesis by (rule error_reply_inv [OF assms(1)])
  next
    case False
    obtain buf1 where w: "wr ?chBuf (int n) nul = Inr buf1"
      using assms(2) n False by (cases "wr ?chBuf (int n) nul") (auto simp: set_handler_def)
    obtain b where b: "rd buf1 (n + 1) = Inr b"
      using assms(2) n False w by (cases "rd buf1 (n + 1)") (auto simp: set_handler_def)
    let ?dt = "of_char b"
    let ?r = "set_value (s_db s) buf1 0 ?dt (n + 1 + 1) (pm_size msg - n - 1 - 1)"
    consider (untyped) "\<not> has_type ?dt" | (none) "has_type ?dt" "?r = None"
      | (error) e where "has_type ?dt" "?r = fail e"
      | (stored) d buf2 where "has_type ?dt" "?r = ret (d, buf2)"
      by (cases ?r) (auto, metis sumE surj_pair)
    then show ?thesis
    proof cases
      case untyped
      then show ?thesis using assms(2) n False w b
        by (intro stored_error_inv [OF assms(1), of buf1 "''Unknown type''"]) (simp add: set_handler_def Let_def)
    next
      case none
      then show ?thesis using assms(2) n False w b by (simp add: set_handler_def Let_def)
    next
      case (error e)
      then have "e = Unsufficient_Space" using assms(2) n False w b
        by (simp add: set_handler_def Let_def split: if_splits)
      then show ?thesis using error assms(2) n False w b
        by (intro stored_error_inv [OF assms(1), of buf1 "''Not enough space for VALUE''"])
          (simp add: set_handler_def Let_def)
    next
      case (stored d buf2)
      then obtain s1 key where s1: "store_buffer k buf2 (s\<lparr>s_db := d\<rparr>) = ret s1"
        "apply_all_connections (send_value d key) s1 = ret s'"
        using assms(2) n False w b by (auto simp: set_handler_def Let_def bindc_eq_ret)
      obtain xs0 where "db_entries (s_db s) xs0" using assms(1) by (auto simp: sinv_at_def)
      then obtain xs where "db_entries d xs" using set_value_keeps [OF _ stored(2)] by blast
      then have "sinv_at idle k (s\<lparr>s_db := d\<rparr>)" by (rule sinv_at_db [OF assms(1)])
      then have "sinv_at idle k s1" using store_buffer_idle(1) s1(1) by blast
      then show ?thesis using apply_ids_wop [OF _ viewed_idle _ send_value_wop] s1(2)
        unfolding apply_all_connections_def by blast
    qed
  qed
qed

lemma send_all_inv:
  "sinv_at idle k s \<Longrightarrow> send_all k obs s = ret s' \<Longrightarrow> sinv_at idle k s'"
proof (induction k obs s rule: send_all.induct)
  case (2 k h ob obs s)
  let ?f = "send_value (s_db s) (takeWhile (\<lambda>x. x \<noteq> nul) (obj_get_key ob))"
  obtain s1 where s1: "with_conn k ?f s = ret s1" "send_all k obs s1 = ret s'"
    using 2(3) by (auto simp: bindc_eq_ret)
  have "sinv_at idle k s1" by (rule with_wop(1) [OF 2(2) viewed_idle s1(1) send_value_wop])
  then show ?case using 2(1) s1 by blast
qed simp

lemma idle_rcore_at: "sinv_at idle k s \<Longrightarrow> sinv_at rcore k s"
  unfolding sinv_at_def using idle_rcore by metis

lemma process_message_inv:
  assumes "sinv_at idle k s" "process_message h m k s = ret s'" "h \<noteq> Delete_handler"
  shows "sinv_at rcore k s'"
proof (rule with_at(1) [OF assms(1) assms(2) [unfolded process_message_def] viewed_rcore])
  fix c c'
  assume c: "winv c" "idle c" "ret (async_read_raw (msg_size m) (Processed_data h m) (get_timeout c) True c) = ret c'"
  then have "c' = perform_read (Pending_read_raw (msg_size m) (Processed_data h m) True (get_timeout c)) c"
    by (simp add: perform_read_def)
  then show "winv c' \<and> rcore c'"
    using perform_read_inv [OF idle_rcore [OF c(2)], of "Pending_read_raw (msg_size m) (Processed_data h m) True (get_timeout c)"]
      assms(3) c(1) winv_view [of c' c]
    by (simp add: pending_read_ok_def rinv_def)
qed

lemma init_dispatcher_handlers:
  "init_dispatcher cmd = Some h \<Longrightarrow> h \<noteq> Process_message Delete_handler"
  by (auto simp: init_dispatcher_def register_handler_def split: if_splits)

lemma server_handle_message_inv:
  assumes "sinv_at idle k s" "server_handle_message k m s = ret s'"
  shows "sinv_at rcore k s'"
proof (cases "init_dispatcher (msg_id m)")
  case None
  then have "s' = s" using assms by (simp add: server_handle_message_def dispatcher_call_def sinv_at_def)
  then show ?thesis using assms(1) idle_rcore_at by simp
next
  case (Some h)
  then have r: "run_handler m k h s = ret s'"
    using assms by (auto simp: server_handle_message_def dispatcher_call_def sinv_at_def bindc_eq_ret)
  show ?thesis
  proof (cases h)
    case Ping_handler
    have "wop (\<lambda>c. liftc (write_preamble (make_pong_message (c_junk c)) Empty_handler c))"
    proof (rule wopI)
      fix c c'
      assume "winv c" "liftc (write_preamble (make_pong_message (c_junk c)) Empty_handler c) = ret c'"
      then show "winv c' \<and> reads_of c' = reads_of c"
        using wopD [OF wkeeps_wop [OF write_preamble_wkeeps]] by blast
    qed
    with r Ping_handler show ?thesis
      using with_wop(1) [OF assms(1) viewed_idle] idle_rcore_at by (simp add: run_handler_def ping_handler_def)
  next
    case Get_all_handler
    then show ?thesis using r send_all_inv [OF assms(1)] idle_rcore_at
      by (auto simp: run_handler_def get_all_handler_def bindc_eq_ret)
  next
    case (Process_message h')
    then show ?thesis using r process_message_inv [OF assms(1)] init_dispatcher_handlers [OF Some]
      by (simp add: run_handler_def)
  qed
qed

section \<open>Reads and events\<close>

lemma handle_message_inv:
  assumes "sinv_at (\<lambda>c. idle c \<and> next_ok Handle_message (c_storage c)) k s" "handle_message failed k s = ret s'"
  shows "sinv_at rcore k s'"
proof -
  obtain c c1 m where c: "map_of (s_connections s) k = Some c" "take_message failed c = Inr (c1, m)"
    and r: "(case m of None \<Rightarrow> ret (put_conn k c1 s)
       | Some msg \<Rightarrow> bindc (server_handle_message k msg (put_conn k c1 s))
           (with_conn k (\<lambda>c. ret (start_read_message c)))) = ret s'"
    using assms(2) by (auto simp: handle_message_def get_conn_def bindc_eq_ret Let_def split: option.splits)
  have q: "winv c" "idle c" "next_ok Handle_message (c_storage c)" using sinv_atD [OF assms(1) c(1)] by auto
  have c1: "idle c1" "write_view c1 = write_view c" using take_message_inv [OF q(2,3), of failed] c(2) by auto
  then have "winv c1" using winv_view q(1) by blast
  then have s1: "sinv_at idle k (put_conn k c1 s)" using put_at [OF assms(1) _ viewed_idle c1(1)] by blast
  show ?thesis
  proof (cases m)
    case None
    then show ?thesis using r s1 idle_rcore_at by simp
  next
    case (Some msg)
    then obtain s2 where s2: "server_handle_message k msg (put_conn k c1 s) = ret s2"
      "with_conn k (\<lambda>c. ret (start_read_message c)) s2 = ret s'"
      using r by (auto simp: bindc_eq_ret)
    have "sinv_at rcore k s2" by (rule server_handle_message_inv [OF s1 s2(1)])
    then show ?thesis
    proof (rule with_at(1) [OF _ s2(2) viewed_rcore])
      fix x x'
      assume "winv x" "rcore x" "ret (start_read_message x) = ret x'"
      then show "winv x' \<and> rcore x'"
        using start_read_message_inv [of x] winv_view [of x' x] by auto
    qed
  qed
qed

lemma run_read_next_inv:
  assumes "sinv_at (\<lambda>c. idle c \<and> next_ok h (c_storage c)) k s" "run_read_next h failed k s = ret s'"
  shows "sinv_at rcore k s'"
proof (cases h)
  case Received_hello
  then have w: "with_conn k (\<lambda>c. liftc (received_hello c)) s = ret s'" using assms(2) by (simp add: run_read_next_def)
  show ?thesis
  proof (rule with_at(1) [OF assms(1) w viewed_rcore])
    fix c c'
    assume c: "winv c" "idle c \<and> next_ok h (c_storage c)" "liftc (received_hello c) = ret c'"
    then obtain "rcore c'" "write_view c' = write_view c"
      using received_hello_inv [of c] Received_hello by auto
    then show "winv c' \<and> rcore c'" using winv_view c(1) by blast
  qed
next
  case Handle_message
  then show ?thesis using handle_message_inv assms by (simp add: run_read_next_def)
next
  case (Processed_data h' m)
  obtain c buf where c: "map_of (s_connections s) k = Some c"
    "run_inner h' k (processed_message_new m buf) s = ret s'"
    using assms(2) Processed_data
    by (auto simp: run_read_next_def handle_proccessed_data_def get_conn_def bindc_eq_ret split: option.splits)
  have "h' \<noteq> Delete_handler" using sinv_atD [OF assms(1) c(1)] Processed_data by (simp add: next_ok_def)
  moreover have i: "sinv_at idle k s" using assms(1) by (auto simp: sinv_at_def)
  ultimately have "sinv_at idle k s'"
    using c(2) get_handler_inv [OF i] set_handler_inv [OF i] by (cases h') (simp_all add: run_inner_def)
  then show ?thesis by (rule idle_rcore_at)
qed

lemma on_read_done_inv:
  assumes "sinv s" "on_read_done k failed xs s = ret s'"
  shows "sinv s'"
proof (cases "map_of (s_connections s) k")
  case None
  then show ?thesis using assms by (simp add: on_read_done_def)
next
  case (Some c)
  have inv: "winv c" "rinv c" using assms(1) Some by (auto simp: sinv_def)
  show ?thesis
  proof (cases "c_reads c")
    case Nil
    then show ?thesis using assms Some by (simp add: on_read_done_def)
  next
    case (Cons op ops)
    then have ops: "ops = []" "next_ok (ro_next op) (c_storage c)" "c_read_in_progress c"
      using inv by (auto simp: rinv_def rcore_def)
    let ?c = "(receive xs (c\<lparr>c_reads := []\<rparr>))\<lparr>c_closed_signals := 0\<rparr>"
    let ?s = "put_conn k (receive xs (c\<lparr>c_reads := []\<rparr>)) s"
    let ?c1 = "?c\<lparr>c_done := insert (ro_number op) (c_done ?c)\<rparr>"
    have "write_view ?c1 = write_view c" by (simp add: write_view_def receive_def)
    then have w1: "winv ?c1" using winv_view inv(1) by blast
    have r1: "c_reads ?c1 = []" "c_read_in_progress ?c1" "\<forall>p\<in>set (c_pending_reads ?c1). pending_read_ok p"
      using ops inv by (auto simp: receive_def rinv_def rcore_def)
    have n1: "next_ok (ro_next op) (c_storage ?c1)"
      using receive_next_ok [of "ro_next op" "c\<lparr>c_reads := []\<rparr>" xs] ops(2) by simp
    have wr: "winv (receive xs (c\<lparr>c_reads := []\<rparr>))" "rcore (receive xs (c\<lparr>c_reads := []\<rparr>))"
      using w1 r1 by (simp_all add: winv_def wcore_def rcore_def)
    then have s0: "sinv_at rcore k ?s"
      using put_at [of rinv k s] assms(1) by (simp add: sinv_at_rinv)
    have h: "handle_data failed op k ?s = ret s'"
      using assms(2) Some Cons ops(1) by (simp add: on_read_done_def)
    have g: "get_conn k ?s = ret ?c" by (simp add: get_conn_def)
    show ?thesis
    proof (cases "ro_required op \<and> failed")
      case True
      then have "s' = put_conn k (conn_close ?c1) ?s" using h g by (simp add: handle_data_def)
      moreover have "winv (conn_close ?c1)" "rinv (conn_close ?c1)"
        using w1 r1 by (simp_all add: winv_def wcore_def rinv_def rcore_def)
      ultimately show ?thesis using put_at [OF s0 _ viewed_rinv] by (simp add: sinv_at_rinv)
    next
      case False
      let ?i = "?c1\<lparr>c_read_in_progress := False\<rparr>"
      obtain s2 where s2: "run_read_next (ro_next op) failed k (put_conn k ?i ?s) = ret s2"
        "with_conn k (\<lambda>c. ret (next_read c)) s2 = ret s'"
        using h g False by (auto simp: handle_data_def Let_def bindc_eq_ret)
      have "winv ?i" "idle ?i \<and> next_ok (ro_next op) (c_storage ?i)"
        using w1 r1 n1 by (simp_all add: winv_def wcore_def idle_def rcore_def)
      then have "sinv_at (\<lambda>c. idle c \<and> next_ok (ro_next op) (c_storage c)) k (put_conn k ?i ?s)"
        using put_at [OF s0 _ viewed_next] by blast
      then have "sinv_at rcore k s2" using s2(1) by (rule run_read_next_inv)
      then have "sinv_at rinv k s'"
      proof (rule with_at(1) [OF _ s2(2) viewed_rinv])
        fix x x'
        assume "winv x" "rcore x" "ret (next_read x) = ret x'"
        then show "winv x' \<and> rinv x'" using next_read_inv [of x] winv_view [of x' x] by auto
      qed
      then show ?thesis by (simp add: sinv_at_rinv)
    qed
  qed
qed

lemma on_write_done_inv:
  assumes "sinv s" "on_write_done k failed n s = ret s'"
  shows "sinv s'"
proof (cases "map_of (s_connections s) k = None")
  case True
  then show ?thesis using assms by (simp add: on_write_done_def)
next
  case False
  then have w: "with_conn k (\<lambda>c. liftc (write_done failed n c)) s = ret s'"
    using assms(2) by (simp only: on_write_done_def if_False)
  have "wop (\<lambda>c. liftc (write_done failed n c))"
  proof (rule wopI)
    fix c c'
    assume "winv c" "liftc (write_done failed n c) = ret c'"
    then show "winv c' \<and> reads_of c' = reads_of c" using write_done_inv [of c failed n] by auto
  qed
  then have "sinv_at rinv k s'" using with_wop(1) [OF _ viewed_rinv w] assms(1) by (simp add: sinv_at_rinv)
  then show ?thesis by (simp add: sinv_at_rinv)
qed

lemma on_timer_done_inv:
  assumes "sinv s" "on_timer_done k n s = ret s'"
  shows "sinv s'"
proof (cases "map_of (s_connections s) k")
  case None
  then show ?thesis using assms by (simp add: on_timer_done_def)
next
  case (Some c)
  let ?c = "handle_timeout_expiration n (c\<lparr>c_waits := remove1 n (c_waits c)\<rparr>)"
  have "reads_of ?c = reads_of c" "write_view ?c = write_view c"
    by (simp_all add: handle_timeout_expiration_def reads_of_def write_view_def conn_close_def)
  then have "winv ?c" "rinv ?c"
    using assms(1) Some winv_view [of ?c c] rinv_view [of ?c c] by (auto simp: sinv_def)
  then have "sinv (put_conn k ?c s)"
    using put_at [of rinv k s ?c rinv] assms(1) by (simp add: sinv_at_rinv)
  then show ?thesis using assms Some by (auto simp: on_timer_done_def split: if_splits)
qed

lemma handle_accept_inv:
  assumes "sinv s" "handle_accept junk peer failed s = ret s'"
  shows "sinv s'"
proof -
  let ?c = "conn_init peer (tcp_connection_new junk)"
  have "\<not> failed" "s' = start_accept (put_conn (get_id ?c) (conn_start ?c) s)"
    using assms(2) by (auto simp: handle_accept_def Let_def split: if_splits)
  moreover have "sinv (put_conn (get_id ?c) (conn_start ?c) s)"
    using put_at [of rinv "get_id ?c" s "conn_start ?c" rinv] conn_start_inv [of peer junk] assms(1)
    by (simp add: sinv_at_rinv)
  ultimately show ?thesis by (simp add: start_accept_def sinv_def)
qed

lemma handle_connection_remove_inv:
  assumes "sinv s"
  shows "sinv (handle_connection_remove k (s\<lparr>s_posted := ks\<rparr>))"
proof -
  have "sorted_keys (s_connections s)" using assms by (simp add: sinv_def)
  note del = sorted_del_kv [OF this] map_of_del_kv [OF this]
  have "winv c \<and> rinv c" if "map_of (del_kv k (s_connections s)) k' = Some c" for k' c
  proof -
    have "map_of (s_connections s) k' = Some c" using that unfolding del(2) by (simp split: if_splits)
    then show ?thesis using assms unfolding sinv_def by blast
  qed
  then show ?thesis using assms del(1) unfolding sinv_def handle_connection_remove_def by simp
qed

lemma server_step_inv:
  assumes "sinv s" "server_step e s = ret s'"
  shows "sinv s'"
proof (cases e)
  case (Accepted junk peer failed)
  have "sinv (s\<lparr>s_accepts := s_accepts s - 1\<rparr>)" using assms(1) by (simp add: sinv_def)
  from handle_accept_inv [OF this] show ?thesis using assms Accepted
    by (auto simp: server_step_def split: if_splits)
next
  case (Read_done k failed xs)
  then show ?thesis using on_read_done_inv [OF assms(1)] assms(2) by (simp add: server_step_def)
next
  case (Write_done k failed n)
  then show ?thesis using on_write_done_inv [OF assms(1)] assms(2) by (simp add: server_step_def)
next
  case (Timer_done k n)
  then show ?thesis using on_timer_done_inv [OF assms(1)] assms(2) by (simp add: server_step_def)
next
  case Posted
  then show ?thesis using assms handle_connection_remove_inv [OF assms(1)]
    by (cases "s_posted s") (auto simp: server_step_def)
next
  case Stats_done
  have "sinv (s\<lparr>s_stats_waits := n\<rparr>)" for n using assms(1) by (simp add: sinv_def)
  then show ?thesis using assms Stats_done
    by (auto simp: server_step_def stats_printer_def start_stats_task_def split: if_splits)
next
  case Orphan_done
  then show ?thesis using assms by (simp add: server_step_def split: if_splits)
qed

lemma start_listening_inv:
  assumes "db_entries d xs"
  shows "sinv (start_listening (asio_server_new d))"
  using assms
  by (auto simp: start_listening_def asio_server_new_def start_accept_def start_stats_task_def sinv_def)

section \<open>Reachable states\<close>

inductive server_reach :: "db \<Rightarrow> asio_server \<Rightarrow> bool" for d where
  started: "server_reach d (start_listening (asio_server_new d))"
| event: "server_reach d s \<Longrightarrow> server_step e s = ret s' \<Longrightarrow> server_reach d s'"

lemma server_reach_inv: "server_reach d s \<Longrightarrow> db_entries d xs \<Longrightarrow> sinv s"
  by (induction rule: server_reach.induct) (auto intro: start_listening_inv server_step_inv)

lemma run_events_reach: "server_reach d s \<Longrightarrow> run_events es s = ret s' \<Longrightarrow> server_reach d s'"
proof (induction es s rule: run_events.induct)
  case (2 e es s)
  then obtain s1 where "server_step e s = ret s1" "run_events es s1 = ret s'" by (auto simp: bindc_eq_ret)
  with 2 show ?case using server_reach.event by blast
qed simp

end
