(* ===== verification/Net_Props.thy ===== *)
theory Net_Props
  imports Server_Inv Db_Props
begin

text \<open>
  The properties of the connections and of the server: what holds in every reachable state, the
  order in which responses reach the client, the handlers for \<open>SET\<close> and \<open>GET\<close> on every branch,
  and the requests that end the server.
\<close>

section \<open>Reachable states\<close>

text \<open>
  C4. In every state the server can reach, each connection has at most one read and one write
  operation with the socket, operations wait in its queues only while one is in progress, the
  read storage has the type and size the handler of the outstanding read will ask for, and the
  database is a well-formed B+ tree.
\<close>

theorem server_reachable_invariant:
  assumes "db_entries d xs" "server_reach d s"
  shows "(\<exists>ys. db_entries (s_db s) ys) \<and>
    (\<forall>k c. map_of (s_connections s) k = Some c \<longrightarrow>
       length (c_reads c) \<le> 1 \<and> length (c_writes c) \<le> 1 \<and>
       (c_reads c \<noteq> [] \<or> c_pending_reads c \<noteq> [] \<longrightarrow> c_read_in_progress c) \<and>
       (c_writes c \<noteq> [] \<or> c_pending_writes c \<noteq> [] \<longrightarrow> c_write_in_progress c) \<and>
       (\<forall>op\<in>set (c_reads c). next_ok (ro_next op) (c_storage c)))"
  using server_reach_inv [OF assms(2,1)]
  by (auto simp: sinv_def winv_def wcore_def rinv_def rcore_def)

text \<open>The server after its first client connected.\<close>

definition one_client :: asio_server where
  "one_client = put_conn ''a:1'' (conn_start (conn_init ''a:1'' (tcp_connection_new 0)))
     (start_listening (asio_server_new new_db))"

lemma one_client_reach: "server_reach new_db one_client"
proof -
  let ?s = "start_listening (asio_server_new new_db)"
  have "server_step (Accepted 0 ''a:1'' False) ?s = ret one_client"
    by (simp add: server_step_def start_listening_def asio_server_new_def start_accept_def start_stats_task_def
        handle_accept_def Let_def get_id_def conn_init_def one_client_def put_conn_def handle_connection_close_def)
  then show ?thesis by (rule server_reach.event [OF server_reach.started])
qed

theorem server_reachable_invariant_witness:
  "\<exists>c. map_of (s_connections one_client) ''a:1'' = Some c \<and>
     (\<forall>op\<in>set (c_reads c). next_ok (ro_next op) (c_storage c))"
proof -
  obtain c where "map_of (s_connections one_client) ''a:1'' = Some c"
    by (simp add: one_client_def)
  then show ?thesis using server_reachable_invariant [OF new_db_entries one_client_reach] by blast
qed

section \<open>The message of an object\<close>

lemma object_message_image:
  assumes "get_implementor (obj_dtype ob) = Some i" "valid_storage i (obj_ds ob)"
  shows "object_message ob = Inr (zstr (obj_key ob) @ [char_of (obj_dtype ob)] @ image (obj_ds ob))"
proof -
  let ?k = "obj_key ob" and ?m = "image (obj_ds ob)" and ?c = "char_of (obj_dtype ob)"
  have imp: "obj_implementor ob = Inr i" using assms(1) by (simp add: obj_implementor_def)
  have sz: "obj_get_size ob = Inr (length ?m)" using imp impl_size_image [OF assms(2)] by (simp add: obj_get_size_def)
  let ?d = "?k @ [nul, nul] @ replicate (length ?m) nul"
  have r: "replicate (1 + length ?m + (length ?k + 1)) nul = replicate (length ?k) nul @ [nul, nul] @ replicate (length ?m) nul"
    by (simp add: replicate_add [symmetric] add.commute flip: replicate_Suc)
  have d1: "put (replicate (1 + length ?m + (length ?k + 1)) nul) 0 ?k = ?d"
    unfolding r by (simp add: put_def)
  have d2: "?d[length ?k := nul] = ?d" by (simp add: list_update_append)
  have d3: "put ?d (length ?k + 1 + 1) ?m = ?k @ [nul, nul] @ ?m" by (simp add: put_def)
  have w: "obj_write_to ob ?d (length ?k + 1 + 1) (length ?m) = Inr (length ?m, ?k @ [nul, nul] @ ?m)"
    using imp impl_to_image [OF assms(2), of "length ?m" "length ?k + 1 + 1" ?d] d3
    by (simp add: obj_write_to_def)
  have u: "(?k @ [nul, nul] @ ?m)[length ?k + 1 := ?c] = zstr ?k @ [?c] @ ?m"
    by (simp add: list_update_append zstr_def)
  show ?thesis
    unfolding object_message_def Let_def obj_get_key_def sz bindr_simps d1 d2 w prod.case obj_get_type_def u ..
qed

section \<open>The order of responses\<close>

definition pw_bytes :: "pending_write_op \<Rightarrow> block" where
  "pw_bytes p = (case p of Pending_write T val h r t \<Rightarrow> val | Pending_write_raw memory n h r t \<Rightarrow> take n memory)"

definition pw_next :: "pending_write_op \<Rightarrow> write_next" where
  "pw_next p = (case p of Pending_write T val h r t \<Rightarrow> h | Pending_write_raw memory n h r t \<Rightarrow> h)"

definition plain_next :: "write_next \<Rightarrow> bool" where
  "plain_next h \<longleftrightarrow> h = Empty_handler \<or> h = Free_memory"

text \<open>The socket completes \<open>n\<close> writes, each as a whole.\<close>

fun complete_all :: "nat \<Rightarrow> tcp_connection \<Rightarrow> tcp_connection res" where
  "complete_all 0 c = Inr c"
| "complete_all (Suc n) c = bindr (write_done False (length (dyn_data (c_write_storage c))) c) (complete_all n)"

lemma perform_write_begin:
  assumes "wcore c" "\<not> c_write_in_progress c" "pending_write_ok p"
  shows "\<exists>c' op. perform_write p c = Inr c' \<and> c_writes c' = [op] \<and> wo_next op = pw_next p \<and>
     winv c' \<and> c_pending_writes c' = c_pending_writes c \<and>
     dyn_data (c_write_storage c') = pw_bytes p \<and> c_sent c' = c_sent c"
proof (cases p)
  case (Pending_write T val h r t)
  then obtain st where "dyn_copy_from T val (c_write_storage c) = Inr st" "dyn_data st = val"
    using assms(3) copy_from_ok [of val T "c_write_storage c"] by (auto simp: pending_write_ok_def)
  then show ?thesis using Pending_write assms wcore_idle [OF assms(1,2)] begin_write_inv [OF assms(1,2)]
    by (auto simp: perform_write_def async_write_message_def pw_next_def pw_bytes_def)
next
  case (Pending_write_raw memory n h r t)
  then obtain st where "allocate_binary_from n memory (c_write_storage c) = Inr st" "dyn_data st = take n memory"
    using assms(3) allocate_binary_from_ok [of n memory "c_write_storage c"] by (auto simp: pending_write_ok_def)
  then show ?thesis using Pending_write_raw assms wcore_idle [OF assms(1,2)] begin_write_inv [OF assms(1,2)]
    by (auto simp: perform_write_def async_write_raw_def pw_next_def pw_bytes_def pending_write_ok_def)
qed

lemma write_done_plain:
  assumes "winv c" "c_writes c = [op]" "plain_next (wo_next op)"
  shows "write_done False n c =
    (let c1 = c\<lparr>c_writes := [], c_sent := c_sent c @ take n (dyn_data (c_write_storage c)),
                c_done := insert (wo_number op) (c_done c), c_write_in_progress := False\<rparr>
     in case c_pending_writes c of [] \<Rightarrow> Inr c1 | p # ps \<Rightarrow> perform_write p (c1\<lparr>c_pending_writes := ps\<rparr>))"
  using assms
  by (auto simp: write_done_def handle_write_operation_def run_write_next_def plain_next_def Let_def
      split: list.splits)

lemma complete_plain:
  assumes "winv c" "c_writes c = [op]" "plain_next (wo_next op)"
    and "\<forall>p\<in>set (c_pending_writes c). plain_next (pw_next p)"
  shows "\<exists>c'. complete_all (1 + length (c_pending_writes c)) c = Inr c' \<and>
     c_sent c' = c_sent c @ dyn_data (c_write_storage c) @ concat (map pw_bytes (c_pending_writes c)) \<and>
     c_writes c' = [] \<and> c_pending_writes c' = [] \<and> \<not> c_write_in_progress c'"
  using assms
proof (induction "c_pending_writes c" arbitrary: c op)
  case Nil
  then show ?case by (simp add: write_done_plain)
next
  case (Cons p ps)
  let ?c = "c\<lparr>c_writes := [], c_sent := c_sent c @ dyn_data (c_write_storage c),
              c_done := insert (wo_number op) (c_done c), c_write_in_progress := False, c_pending_writes := ps\<rparr>"
  have ok: "wcore ?c" "\<not> c_write_in_progress ?c" "pending_write_ok p"
    using Cons.prems(1) Cons.hyps(2) [symmetric] by (auto simp: winv_def wcore_def)
  obtain c1 op1 where c1: "perform_write p ?c = Inr c1" "c_writes c1 = [op1]" "wo_next op1 = pw_next p" "winv c1"
    "c_pending_writes c1 = ps" "dyn_data (c_write_storage c1) = pw_bytes p"
    "c_sent c1 = c_sent c @ dyn_data (c_write_storage c)"
    using perform_write_begin [OF ok] by auto
  have w: "write_done False (length (dyn_data (c_write_storage c))) c = Inr c1"
    using write_done_plain [OF Cons.prems(1-3)] Cons.hyps(2) [symmetric] c1(1) by (simp add: Let_def)
  have "\<exists>c'. complete_all (1 + length (c_pending_writes c1)) c1 = Inr c' \<and>
     c_sent c' = c_sent c1 @ dyn_data (c_write_storage c1) @ concat (map pw_bytes (c_pending_writes c1)) \<and>
     c_writes c' = [] \<and> c_pending_writes c' = [] \<and> \<not> c_write_in_progress c'"
    by (rule Cons.hyps(1)) (use c1 Cons.prems(4) Cons.hyps(2) [symmetric] in auto)
  then show ?case using w c1 Cons.hyps(2) [symmetric] by auto
qed

text \<open>
  C11. Without the value messages of \<open>send_value\<close>, writing is first in, first out: once the socket
  has completed the outstanding write and every delayed one, the client has received their
  bytes in the order in which they were issued, and the connection is idle.
\<close>

theorem plain_writes_fifo:
  assumes "winv c" "c_writes c = [op]" "plain_next (wo_next op)"
    and "\<forall>p\<in>set (c_pending_writes c). plain_next (pw_next p)"
  shows "\<exists>c'. complete_all (1 + length (c_pending_writes c)) c = Inr c' \<and>
     c_sent c' = c_sent c @ dyn_data (c_write_storage c) @ concat (map pw_bytes (c_pending_writes c)) \<and>
     c_writes c' = [] \<and> c_pending_writes c' = [] \<and> \<not> c_write_in_progress c'"
  by (rule complete_plain [OF assms])

text \<open>A connection writing the bytes \<open>ab\<close>, with \<open>cd\<close> waiting.\<close>

definition busy_conn :: tcp_connection where
  "busy_conn = (tcp_connection_new 0)\<lparr>c_write_in_progress := True,
     c_write_storage := \<lparr>dyn_data = ''ab'', dyn_size = 2, dyn_type = STORAGE_BINARY\<rparr>,
     c_writes := [\<lparr>wo_number = 0, wo_required = True, wo_next = Empty_handler\<rparr>], c_numbers := 1,
     c_pending_writes := [Pending_write_raw ''cd'' 2 Free_memory True 6000]\<rparr>"

theorem plain_writes_fifo_witness:
  "\<exists>c'. complete_all 2 busy_conn = Inr c' \<and> c_sent c' = ''abcd''"
  using plain_writes_fifo [of busy_conn "\<lparr>wo_number = 0, wo_required = True, wo_next = Empty_handler\<rparr>"]
  by (auto simp: busy_conn_def tcp_connection_new_def winv_def wcore_def pending_write_ok_def plain_next_def
      pw_next_def pw_bytes_def numeral_2_eq_2)

text \<open>
  C35. The value message of \<open>send_value\<close> breaks that order: its handler starts a new write before
  the delayed operations are looked at, so the first of them goes back to the end of the queue.
  A client that asks for an existing key and then for a missing one, before the first response
  is out, receives the first preamble, the value, then the missing key, and only then the
  preamble that announces it.
\<close>

theorem pipelined_responses_reordered:
  assumes "wcore c" "\<not> c_write_in_progress c" "c_pending_writes c = []"
    and "object_message ob = Inr data" "data \<noteq> []" "length key + 1 < 2 ^ 32"
    and "found = (make_key_updated_preamble (c_junk c))\<lparr>out_size := length data mod 2 ^ 32\<rparr>"
    and "missing = (make_key_deleted_preamble (c_junk c))\<lparr>out_size := length key + 1\<rparr>"
  shows "\<exists>c1 c2 c3. send_value_object ob c = Inr c1 \<and> send_key_not_found key c1 = Inr c2 \<and>
     complete_all 4 c2 = Inr c3 \<and>
     c_sent c3 = c_sent c @ out_preamble_bytes found @ data @ zstr key @ out_preamble_bytes missing"
proof -
  obtain st1 where st1: "dyn_copy_from out_type (out_preamble_bytes found) (c_write_storage c) = Inr st1"
    "dyn_data st1 = out_preamble_bytes found"
    using copy_from_ok [of "out_preamble_bytes found" out_type "c_write_storage c"] by (auto simp: out_type_def)
  let ?c1 = "begin_write st1 (Send_data data) TIMEOUT True c"
  have s1: "send_value_object ob c = Inr ?c1"
    using assms(2,4,7) st1(1) by (simp add: send_value_object_def write_preamble_def async_write_message_def)
  let ?pm = "Pending_write out_type (out_preamble_bytes missing) Empty_handler True (c_junk c)"
  let ?pk = "Pending_write_raw (zstr key) (length key + 1) Free_memory True TIMEOUT"
  let ?c2 = "?c1\<lparr>c_pending_writes := [?pm, ?pk]\<rparr>"
  have s2: "send_key_not_found key ?c1 = Inr ?c2"
    using assms(3,6,8)
    by (simp add: send_key_not_found_eq Let_def write_preamble_def async_write_message_def async_write_raw_def)
  obtain st2 where st2: "allocate_binary_from (length data) data st1 = Inr st2" "dyn_data st2 = data"
    using allocate_binary_from_ok [of "length data" data st1] by auto
  have w0: "c_writes c = []" by (rule wcore_idle [OF assms(1,2)])
  let ?d = "?c2\<lparr>c_writes := [], c_sent := c_sent c @ out_preamble_bytes found,
      c_done := insert (c_numbers c) (c_done ?c1), c_write_in_progress := False\<rparr>"
  let ?c3 = "(begin_write st2 Free_memory TIMEOUT True ?d)\<lparr>c_pending_writes := [?pk, ?pm]\<rparr>"
  have "write_done False (length (dyn_data (c_write_storage ?c2))) ?c2 = Inr ?c3"
    using w0 st1(2) st2(1) assms(5)
    by (simp add: write_done_def handle_write_operation_def run_write_next_def async_write_raw_def
        perform_write_def async_write_message_def Let_def)
  moreover have "\<exists>c'. complete_all (1 + length (c_pending_writes ?c3)) ?c3 = Inr c' \<and>
     c_sent c' = c_sent ?c3 @ dyn_data (c_write_storage ?c3) @ concat (map pw_bytes (c_pending_writes ?c3)) \<and>
     c_writes c' = [] \<and> c_pending_writes c' = [] \<and> \<not> c_write_in_progress c'"
    by (rule complete_plain [of _ "\<lparr>wo_number = c_numbers ?d, wo_required = True, wo_next = Free_memory\<rparr>"])
      (simp_all add: winv_def wcore_def pending_write_ok_def plain_next_def pw_next_def out_type_def)
  ultimately show ?thesis using s1 s2 st2(2)
    by (auto simp: pw_bytes_def numeral_eq_Suc)
qed

theorem pipelined_responses_reordered_witness:
  "\<exists>c1 c2 c3. send_value_object \<lparr>obj_ds = Mem (zstr ''hi''), obj_dtype = 2, obj_key = ''k''\<rparr> (tcp_connection_new 0) = Inr c1 \<and>
     send_key_not_found ''no'' c1 = Inr c2 \<and> complete_all 4 c2 = Inr c3 \<and>
     c_sent c3 = c_sent (tcp_connection_new 0) @
       out_preamble_bytes ((make_key_updated_preamble 0)\<lparr>out_size := 6 mod 2 ^ 32\<rparr>) @
       (zstr ''k'' @ [char_of (2 :: nat)] @ zstr ''hi'') @ zstr ''no'' @
       out_preamble_bytes ((make_key_deleted_preamble 0)\<lparr>out_size := 3\<rparr>)"
proof (rule pipelined_responses_reordered)
  show "object_message \<lparr>obj_ds = Mem (zstr ''hi''), obj_dtype = 2, obj_key = ''k''\<rparr> =
      Inr (zstr ''k'' @ [char_of (2 :: nat)] @ zstr ''hi'')"
    using object_message_image [of "\<lparr>obj_ds = Mem (zstr ''hi''), obj_dtype = 2, obj_key = ''k''\<rparr>" String_implementor]
      greeting_object(1,2) by simp
qed (simp_all add: tcp_connection_new_def wcore_def)

end
