(* ===== verification/Server_Props.thy ===== *)
theory Server_Props
  imports Net_Props
begin

text \<open>
  The properties of the handlers: \<open>SET\<close> on every branch, the message it sends, and the requests
  and failures that end the server.
\<close>

section \<open>Sending to all connections\<close>

lemma write_preamble_signals:
  "write_preamble p h c = Inr c' \<Longrightarrow> c_closed_signals c' = c_closed_signals c"
  by (auto simp: write_preamble_def async_write_message_def bindr_eq_Inr split: if_splits)

lemma with_conn_ret:
  "map_of (s_connections s) k = Some c \<Longrightarrow> f c = ret c' \<Longrightarrow> with_conn k f s = ret (put_conn k c' s)"
  by (simp add: with_conn_def get_conn_def)

lemma apply_ids_map:
  assumes "distinct ks" "\<forall>k\<in>set ks. \<exists>c. map_of (s_connections s) k = Some c \<and> f c = ret (g c)"
  shows "\<exists>s'. apply_ids f ks s = ret s' \<and> s_db s' = s_db s \<and>
     (\<forall>k. map_of (s_connections s') k =
        (if k \<in> set ks then map_option (\<lambda>c. (g c)\<lparr>c_closed_signals := 0\<rparr>) (map_of (s_connections s) k)
         else map_of (s_connections s) k))"
  using assms
proof (induction ks arbitrary: s)
  case (Cons k ks)
  obtain c where c: "map_of (s_connections s) k = Some c" "f c = ret (g c)" using Cons.prems(2) by auto
  let ?s = "put_conn k (g c) s"
  have w: "with_conn k f s = ret ?s" by (rule with_conn_ret [of s k c f "g c", OF c])
  have "\<forall>k'\<in>set ks. \<exists>c. map_of (s_connections ?s) k' = Some c \<and> f c = ret (g c)"
    using Cons.prems by auto
  then obtain s' where s': "apply_ids f ks ?s = ret s'" "s_db s' = s_db ?s"
    "\<forall>k'. map_of (s_connections s') k' =
        (if k' \<in> set ks then map_option (\<lambda>c. (g c)\<lparr>c_closed_signals := 0\<rparr>) (map_of (s_connections ?s) k')
         else map_of (s_connections ?s) k')"
    using Cons.IH [of ?s] Cons.prems(1) by auto
  then show ?case using w c Cons.prems(1) by auto
qed simp

text \<open>A server in good standing between two events.\<close>

definition quiet :: "asio_server \<Rightarrow> bool" where
  "quiet s \<longleftrightarrow> sinv s \<and> (\<forall>k c. map_of (s_connections s) k = Some c \<longrightarrow> c_closed_signals c = 0)"

text \<open>What \<open>send_value\<close> hands to a connection for an object that is there.\<close>

definition update_sent :: "block \<Rightarrow> tcp_connection \<Rightarrow> tcp_connection \<Rightarrow> bool" where
  "update_sent body c c' \<longleftrightarrow>
     write_preamble ((make_key_updated_preamble (c_junk c))\<lparr>out_size := length body mod 2 ^ 32\<rparr>) (Send_data body) c = Inr c'"

lemma send_value_found:
  assumes "get_object d (string_hash key) = ret (Some ob)" "plain key" "object_message ob = Inr body" "winv c"
  shows "\<exists>c'. send_value d key c = ret c' \<and> update_sent body c c'"
  using assms write_preamble_result [OF winv_wcore [OF assms(4)]]
  by (fastforce simp: send_value_def make_hash_def send_value_object_def update_sent_def)

lemma broadcast_update:
  assumes "sorted_keys (s_connections s)"
    and conns: "\<And>k c. map_of (s_connections s) k = Some c \<Longrightarrow> winv c \<and> c_closed_signals c = 0"
    and "get_object d (string_hash key) = ret (Some ob)" "plain key" "object_message ob = Inr body"
  shows "\<exists>s'. apply_all_connections (send_value d key) s = ret s' \<and> s_db s' = s_db s \<and>
     (\<forall>k c. map_of (s_connections s) k = Some c \<longrightarrow>
        (\<exists>c'. map_of (s_connections s') k = Some c' \<and> update_sent body c c'))"
proof -
  let ?ks = "map fst (s_connections s)"
  obtain g where g: "\<And>c. winv c \<Longrightarrow> send_value d key c = ret (g c) \<and> update_sent body c (g c)"
    using send_value_found [OF assms(3-5)] by metis
  have "\<exists>c. map_of (s_connections s) k = Some c \<and> send_value d key c = ret (g c)" if k: "k \<in> set ?ks" for k
  proof -
    obtain c where c: "map_of (s_connections s) k = Some c"
      using k map_of_eq_None_iff [of "s_connections s" k] by auto
    then show ?thesis using g conns [OF c] by blast
  qed
  then obtain s' where s': "apply_ids (send_value d key) ?ks s = ret s'" "s_db s' = s_db s"
    "\<forall>k. map_of (s_connections s') k =
        (if k \<in> set ?ks then map_option (\<lambda>c. (g c)\<lparr>c_closed_signals := 0\<rparr>) (map_of (s_connections s) k)
         else map_of (s_connections s) k)"
    using apply_ids_map [OF sorted_distinct_keys [OF assms(1)], of s "send_value d key" g] by blast
  have "\<exists>c'. map_of (s_connections s') k = Some c' \<and> update_sent body c c'"
    if c: "map_of (s_connections s) k = Some c" for k c
  proof -
    have u: "update_sent body c (g c)" using g conns [OF c] by blast
    then have "c_closed_signals (g c) = 0"
      using write_preamble_signals conns [OF c] unfolding update_sent_def by fastforce
    then have "(g c)\<lparr>c_closed_signals := 0\<rparr> = g c" by simp
    moreover have "k \<in> set ?ks" using c map_of_eq_None_iff [of "s_connections s" k] by auto
    ultimately show ?thesis using s'(3) c u by auto
  qed
  then show ?thesis using s' unfolding apply_all_connections_def by blast
qed

section \<open>\<open>SET\<close>\<close>

lemma key_scan:
  assumes "plain key" "n = length (zstr key @ rest)"
  shows "cstr_scan (zstr key @ rest) 0 n = Inr (length key)"
    and "wr (zstr key @ rest) (int (length key)) nul = Inr (zstr key @ rest)"
    and "cstr_at (zstr key @ rest) 0 = Inr key"
proof -
  have "takeWhile (\<lambda>c. c \<noteq> nul) (zstr key @ rest) = key"
    using takeWhile_plain [OF assms(1), of rest] by (simp add: zstr_def)
  then show "cstr_scan (zstr key @ rest) 0 n = Inr (length key)"
    using cstr_scan_result [of 0 n "zstr key @ rest"] assms(2) by simp
  show "wr (zstr key @ rest) (int (length key)) nul = Inr (zstr key @ rest)"
    by (simp add: wr_def zstr_def list_update_append)
  show "cstr_at (zstr key @ rest) 0 = Inr key"
    by (rule cstr_at_zstr [OF assms(1), of 0 _ rest]) simp
qed

text \<open>
  C3. \<open>SET\<close> of a well-formed value: the database then maps the hash of the key to an object with
  this key, type and value and answers every other hash as before, and every connection, the
  sender's included, is handed the update message with the key, its zero, the type and the
  value.
\<close>

theorem set_handler_stores_and_broadcasts:
  assumes "quiet s" "map_of (s_connections s) k = Some ck"
    and "pm_buffer msg = zstr key @ char_of dt # image ds @ rest" "pm_size msg = length (pm_buffer msg)"
    and "dyn_data (c_storage ck) = pm_buffer msg"
    and "plain key" "get_implementor dt = Some i" "valid_storage i ds"
  shows "\<exists>s'. set_handler k msg s = ret s' \<and>
     get_object (s_db s') (string_hash key) = ret (Some \<lparr>obj_ds = ds, obj_dtype = dt, obj_key = key\<rparr>) \<and>
     (\<forall>h. h \<noteq> string_hash key \<longrightarrow> get_object (s_db s') h = get_object (s_db s) h) \<and>
     (\<forall>k' c. map_of (s_connections s) k' = Some c \<longrightarrow>
        (\<exists>c'. map_of (s_connections s') k' = Some c' \<and>
           update_sent (zstr key @ char_of dt # image ds) c c'))"
proof -
  let ?buf = "pm_buffer msg" and ?ob = "\<lparr>obj_ds = ds, obj_dtype = dt, obj_key = key\<rparr>"
  let ?body = "zstr key @ char_of dt # image ds"
  let ?src = "length key + 1 + 1" and ?len = "length (image ds @ rest)"
  have dt: "dt < 256"
    using assms(7) by (auto simp: get_implementor_def implementors_def dtype_ids split: if_splits)
  note scan = key_scan [OF assms(6), of "pm_size msg" "char_of dt # image ds @ rest"]
  have b: "rd ?buf (length key + 1) = Inr (char_of dt)"
    using assms(3) by (simp add: rd_def nth_append)
  have t: "has_type (of_char (char_of dt :: char))" "(of_char (char_of dt :: char) :: nat) = dt"
    using assms(7) dt by (simp_all add: has_type_def get_implementor_def)
  obtain xs where xs: "db_entries (s_db s) xs" using assms(1) by (auto simp: quiet_def sinv_def)
  have v: "value_object ?buf 0 dt ?src ?len = Inr (string_hash key, ?ob, ?buf)"
    by (rule value_object_ok [OF _ assms(7,8)]) (use assms(3,4) scan(3) in simp_all)
  obtain d where d: "set_value (s_db s) ?buf 0 dt ?src ?len = ret (d, ?buf)" "db_entries d (upd_kv (string_hash key) ?ob xs)"
    using set_value_entries [OF xs v] by blast
  have g: "get_object d (string_hash key) = ret (Some ?ob)"
    "\<forall>h. h \<noteq> string_hash key \<longrightarrow> get_object d h = get_object (s_db s) h"
    using get_object_entries [OF d(2)] get_object_entries [OF xs] by simp_all
  have body: "object_message ?ob = Inr ?body"
    using object_message_image [of ?ob i] assms(7,8) by simp
  let ?ck = "ck\<lparr>c_storage := (c_storage ck)\<lparr>dyn_data := ?buf\<rparr>\<rparr>"
  let ?s1 = "put_conn k ?ck (s\<lparr>s_db := d\<rparr>)"
  have ck: "?ck = ck" using assms(5) by simp
  have sig: "c_closed_signals c = 0" "winv c" if "map_of (s_connections s) k' = Some c" for k' c
    using assms(1) that by (auto simp: quiet_def sinv_def)
  have st: "store_buffer k ?buf (s\<lparr>s_db := d\<rparr>) = ret ?s1"
    unfolding store_buffer_def by (rule with_conn_ret) (use assms(2) in simp_all)
  have m1: "map_of (s_connections ?s1) = map_of (s_connections s)"
    using assms(2) sig(1) [OF assms(2)] unfolding ck by (auto simp: fun_eq_iff)
  have "sorted_keys (s_connections ?s1)" using assms(1) by (simp add: quiet_def sinv_def sorted_upd_kv)
  then obtain s' where s': "apply_all_connections (send_value d key) ?s1 = ret s'" "s_db s' = s_db ?s1"
    "\<forall>k c. map_of (s_connections ?s1) k = Some c \<longrightarrow>
       (\<exists>c'. map_of (s_connections s') k = Some c' \<and> update_sent ?body c c')"
    using broadcast_update [OF _ _ g(1) assms(6) body, of ?s1] sig unfolding m1 by blast
  have "set_handler k msg s = ret s'"
    using scan assms(3,4) b t d(1) st s'(1) by (simp add: set_handler_def Let_def)
  then show ?thesis using s'(2,3) g unfolding m1 by auto
qed

text \<open>A server whose one client has sent a message.\<close>

definition client_sent :: "block \<Rightarrow> tcp_connection" where
  "client_sent buf = (tcp_connection_new 0)\<lparr>c_address := ''a:1'',
     c_storage := \<lparr>dyn_data = buf, dyn_size = length buf, dyn_type = STORAGE_BINARY\<rparr>\<rparr>"

definition serving :: "block \<Rightarrow> asio_server" where
  "serving buf = (start_listening (asio_server_new new_db))\<lparr>s_connections := [(''a:1'', client_sent buf)]\<rparr>"

lemma serving_quiet: "quiet (serving buf)"
  using start_listening_inv [OF new_db_entries]
  by (auto simp: quiet_def sinv_def serving_def client_sent_def tcp_connection_new_def winv_def wcore_def
      rinv_def rcore_def split: if_splits)

lemma serving_client: "map_of (s_connections (serving buf)) ''a:1'' = Some (client_sent buf)"
  by (simp add: serving_def)

definition body_of :: "block \<Rightarrow> processed_message" where
  "body_of buf = \<lparr>pm_id = 4, pm_size = length buf, pm_flags = [0], pm_buffer = buf\<rparr>"

theorem set_handler_stores_and_broadcasts_witness:
  "\<exists>s'. set_handler ''a:1'' (body_of hi_message) (serving hi_message) = ret s' \<and>
     get_object (s_db s') (string_hash ''k'') =
       ret (Some \<lparr>obj_ds = Mem (zstr ''hi''), obj_dtype = 2, obj_key = ''k''\<rparr>) \<and>
     (\<exists>c'. map_of (s_connections s') ''a:1'' = Some c' \<and> update_sent hi_message (client_sent hi_message) c')"
proof -
  have "(of_char (char_of (2 :: nat) :: char) :: nat) = of_char (CHR 0x02)" by simp
  then have c: "char_of (2 :: nat) = CHR 0x02" by (rule of_char_eqI)
  have b: "pm_buffer (body_of hi_message) = zstr ''k'' @ char_of (2 :: nat) # image (Mem (zstr ''hi'')) @ []"
    "zstr ''k'' @ char_of (2 :: nat) # image (Mem (zstr ''hi'')) = hi_message"
    by (simp_all add: body_of_def hi_message_def c)
  show ?thesis
    using set_handler_stores_and_broadcasts [OF serving_quiet serving_client b(1) _ _ _ greeting_object(1,2)]
      serving_client [of hi_message] b(2)
    by (auto simp: body_of_def client_sent_def plain_def)
qed

lemma async_write_raw_signals:
  "async_write_raw m n h t r c = Inr c' \<Longrightarrow> c_closed_signals c' = c_closed_signals c"
  by (auto simp: async_write_raw_def bindr_eq_Inr split: if_splits)

lemma async_write_error_result:
  assumes "winv c" "c_closed_signals c = 0"
  shows "\<exists>c'. async_write_error m c = Inr c' \<and> c'\<lparr>c_closed_signals := 0\<rparr> = c'"
proof -
  let ?n = "(length m + 1) mod 2 ^ 32"
  obtain c1 where c1: "write_preamble ((make_error_preamble (c_junk c))\<lparr>out_size := ?n\<rparr>) Empty_handler c = Inr c1" "winv c1"
    using write_preamble_result [OF winv_wcore [OF assms(1)]] by blast
  obtain c2 where c2: "async_write_raw (zstr m) ?n Empty_handler TIMEOUT True c1 = Inr c2"
    using wkeepsE [OF async_write_raw_wkeeps [OF size_truncated [of m]] winv_wcore [OF c1(2)]] by blast
  have "c_closed_signals c2 = 0"
    using write_preamble_signals [OF c1(1)] async_write_raw_signals [OF c2] assms(2) by simp
  then show ?thesis using c1(1) c2 by (simp add: async_write_error_def Let_def)
qed

lemma error_reply:
  assumes "quiet s" "map_of (s_connections s) k = Some ck"
  shows "\<exists>s' c'. with_conn k (\<lambda>c. liftc (async_write_error m c)) s = ret s' \<and> async_write_error m ck = Inr c' \<and>
     s_db s' = s_db s \<and> map_of (s_connections s') = (map_of (s_connections s))(k \<mapsto> c')"
proof -
  have "winv ck" "c_closed_signals ck = 0" using assms by (auto simp: quiet_def sinv_def)
  then obtain c' where c': "async_write_error m ck = Inr c'" "c'\<lparr>c_closed_signals := 0\<rparr> = c'"
    using async_write_error_result by blast
  then show ?thesis using with_conn_ret [OF assms(2), of "\<lambda>c. liftc (async_write_error m c)" c'] by simp
qed

lemma stored_error_reply:
  assumes "quiet s" "map_of (s_connections s) k = Some ck" "dyn_data (c_storage ck) = buf"
  shows "\<exists>s' c'. bindc (store_buffer k buf s) (with_conn k (\<lambda>c. liftc (async_write_error m c))) = ret s' \<and>
     async_write_error m ck = Inr c' \<and> s_db s' = s_db s \<and>
     map_of (s_connections s') = (map_of (s_connections s))(k \<mapsto> c')"
proof -
  have ck: "ck\<lparr>c_storage := (c_storage ck)\<lparr>dyn_data := buf\<rparr>\<rparr> = ck" using assms(3) by simp
  have sig: "c_closed_signals ck = 0" using assms by (auto simp: quiet_def)
  have st: "store_buffer k buf s = ret (put_conn k ck s)"
    unfolding store_buffer_def by (rule with_conn_ret [OF assms(2)]) (simp only: ck)
  have m: "map_of (s_connections (put_conn k ck s)) = map_of (s_connections s)"
    using assms(2) sig by (auto simp: fun_eq_iff)
  have "quiet (put_conn k ck s)"
    using assms(1) m by (simp add: quiet_def sinv_def sorted_upd_kv)
  from error_reply [OF this, of k ck m] show ?thesis using st assms(2) m by (simp del: put_conn_fields(4))
qed

text \<open>
  C30. A \<open>SET\<close> that is refused, because the message ends before the type, names a type that does
  not exist, or has too few bytes for the value: the sender, and no one else, is sent the error
  text, and the database stays as it was.
\<close>

theorem set_handler_refuses:
  assumes "quiet s" "map_of (s_connections s) k = Some ck"
    and "pm_size msg = length (pm_buffer msg)" "dyn_data (c_storage ck) = pm_buffer msg"
    and "n = length (takeWhile (\<lambda>x. x \<noteq> nul) (pm_buffer msg))" "dt = of_char (pm_buffer msg ! (n + 1))"
    and "m = ''You have sent not enough data for DTYPE'' \<and> pm_size msg < n + 2 \<or>
         m = ''Unknown type'' \<and> n + 2 \<le> pm_size msg \<and> \<not> has_type dt \<or>
         m = ''Not enough space for VALUE'' \<and> n + 2 \<le> pm_size msg \<and> has_type dt \<and>
           value_object (pm_buffer msg) 0 dt (n + 2) (pm_size msg - n - 2) = Inl Unsufficient_Space"
  shows "\<exists>s' c'. set_handler k msg s = ret s' \<and> s_db s' = s_db s \<and>
     async_write_error m ck = Inr c' \<and> map_of (s_connections s') = (map_of (s_connections s))(k \<mapsto> c')"
proof -
  let ?buf = "pm_buffer msg"
  have scan: "cstr_scan ?buf 0 (pm_size msg) = Inr n"
    using cstr_scan_result [of 0 "pm_size msg" ?buf] assms(3,5) by simp
  show ?thesis
  proof (cases "pm_size msg < n + 2")
    case True
    then have short: "pm_size msg - n < 1 + 1" by simp
    have "m = ''You have sent not enough data for DTYPE''" using assms(7) True by auto
    then have "set_handler k msg s = with_conn k (\<lambda>c. liftc (async_write_error m c)) s"
      unfolding set_handler_def Let_def scan using short by simp
    then show ?thesis using error_reply [OF assms(1,2), of m] by auto
  next
    case False
    then have long: "\<not> pm_size msg - n < Suc (Suc 0)" by simp
    from False have n: "n + 1 < length ?buf" using assms(3) by simp
    then have "?buf ! n = nul" using nth_length_takeWhile [of "\<lambda>x. x \<noteq> nul" ?buf] assms(5) by simp
    then have w: "wr ?buf (int n) nul = Inr ?buf"
      using n list_update_id [of ?buf n] by (simp add: wr_def)
    have b: "rd ?buf (n + 1) = Inr (?buf ! (n + 1))" using n by (simp add: rd_def)
    have "set_handler k msg s =
        bindc (store_buffer k ?buf s) (with_conn k (\<lambda>c. liftc (async_write_error m c)))"
    proof (cases "has_type dt")
      case True
      then have "value_object ?buf 0 dt (n + 2) (pm_size msg - n - 2) = Inl Unsufficient_Space"
        "m = ''Not enough space for VALUE''" using assms(7) False by auto
      moreover have "set_value (s_db s) ?buf 0 dt (n + 2) (pm_size msg - n - 2) = fail Unsufficient_Space"
        by (rule set_value_error) (rule calculation)
      ultimately show ?thesis using scan w b long True assms(6)
        by (simp add: set_handler_def Let_def)
    next
      case False
      then have "m = ''Unknown type''" using assms(7) \<open>\<not> pm_size msg < n + 2\<close> by auto
      then show ?thesis using scan w b False long assms(6)
        by (simp add: set_handler_def Let_def)
    qed
    then show ?thesis using stored_error_reply [OF assms(1,2,4), of m] by auto
  qed
qed

theorem set_handler_refuses_witness:
  "\<exists>s' c'. set_handler ''a:1'' (body_of ''key'') (serving ''key'') = ret s' \<and> s_db s' = s_db (serving ''key'') \<and>
     async_write_error ''You have sent not enough data for DTYPE'' (client_sent ''key'') = Inr c' \<and>
     map_of (s_connections s') = (map_of (s_connections (serving ''key'')))(''a:1'' \<mapsto> c')"
  by (rule set_handler_refuses [OF serving_quiet serving_client, where n = 3])
    (simp_all add: body_of_def client_sent_def)

section \<open>\<open>GET\<close>\<close>

lemma send_key_not_found_result:
  assumes "winv c" "c_closed_signals c = 0"
  shows "\<exists>c'. send_key_not_found key c = Inr c' \<and> c_closed_signals c' = 0"
proof -
  let ?n = "(length key + 1) mod 2 ^ 32"
  obtain c1 where c1: "write_preamble ((make_key_deleted_preamble (c_junk c))\<lparr>out_size := ?n\<rparr>) Empty_handler c = Inr c1" "winv c1"
    using write_preamble_result [OF winv_wcore [OF assms(1)]] by blast
  have "?n \<le> length (take ?n (zstr key))" using size_truncated [of key] by simp
  then obtain c2 where c2: "async_write_raw (take ?n (zstr key)) ?n Free_memory TIMEOUT True c1 = Inr c2"
    using wkeepsE [OF async_write_raw_wkeeps winv_wcore [OF c1(2)]] by blast
  have "c_closed_signals c2 = 0"
    using write_preamble_signals [OF c1(1)] async_write_raw_signals [OF c2] assms(2) by simp
  then show ?thesis using c1(1) c2 by (simp add: send_key_not_found_eq Let_def)
qed

text \<open>
  C34. \<open>GET\<close>: the last byte of the body is taken for the terminating zero, whatever it is, and the
  bytes before it are the key. When the database has an object under the hash of that key, the
  client that asked is handed the update message of this object; when it has none, the message
  that the key is deleted. No other connection is written to, and the database stays as it was.
\<close>

theorem get_handler_answers:
  assumes "quiet s" "map_of (s_connections s) k = Some ck"
    and "pm_buffer msg = key @ [x]" "pm_size msg = length (pm_buffer msg)" "pm_size msg < 2 ^ 32" "plain key"
    and "get_object (s_db s) (string_hash key) = ret obj" "\<forall>ob. obj = Some ob \<longrightarrow> object_message ob = Inr body"
    and "c = ck\<lparr>c_storage := (c_storage ck)\<lparr>dyn_data := zstr key\<rparr>\<rparr>"
  shows "\<exists>s' c'. get_handler k msg s = ret s' \<and> s_db s' = s_db s \<and>
     map_of (s_connections s') = (map_of (s_connections s))(k \<mapsto> c') \<and>
     (case obj of Some ob \<Rightarrow> update_sent body c c' | None \<Rightarrow> send_key_not_found key c = Inr c')"
proof -
  have ck: "winv ck" "c_closed_signals ck = 0" using assms(1,2) by (auto simp: quiet_def sinv_def)
  have c: "winv c" "c_closed_signals c = 0" "c\<lparr>c_closed_signals := 0\<rparr> = c"
    using ck winv_view [of c ck] assms(9) by (simp_all add: write_view_def)
  have "takeWhile (\<lambda>c. c \<noteq> nul) key = key" using takeWhile_plain [OF assms(6), of "[]"] assms(6)
    by (auto simp: plain_def takeWhile_eq_all_conv)
  then have cstr: "as_cstr msg = Inr (key, msg\<lparr>pm_buffer := zstr key\<rparr>)"
    using as_cstr_ok [of msg] assms(3-5) by (simp add: zstr_def)
  let ?s1 = "put_conn k c s"
  have st: "store_buffer k (zstr key) s = ret ?s1"
    unfolding store_buffer_def by (rule with_conn_ret [OF assms(2)]) (simp add: assms(9))
  have s1: "map_of (s_connections ?s1) k = Some c" "s_db ?s1 = s_db s" using assms(2) c(3) by simp_all
  obtain c' where c': "send_value (s_db s) key c = ret c'" "c_closed_signals c' = 0"
    "case obj of Some ob \<Rightarrow> update_sent body c c' | None \<Rightarrow> send_key_not_found key c = Inr c'"
  proof (cases obj)
    case None
    then show ?thesis using that send_key_not_found_result [OF c(1,2), of key] assms(6,7)
      by (auto simp: send_value_def make_hash_def)
  next
    case (Some ob)
    then obtain c' where "send_value (s_db s) key c = ret c'" "update_sent body c c'"
      using send_value_found [of "s_db s" key ob body c] assms(6,7,8) c(1) by auto
    then show ?thesis using that Some write_preamble_signals c(2) by (fastforce simp: update_sent_def)
  qed
  have "get_handler k msg s = ret (put_conn k c' ?s1)"
    using cstr st with_conn_ret [OF s1(1), of "send_value (s_db s) key" c'] c'(1) s1(2) by (simp add: get_handler_def)
  moreover have "map_of (s_connections (put_conn k c' ?s1)) = (map_of (s_connections s))(k \<mapsto> c')"
    using c'(2) s1(1) assms(2) by (auto simp: fun_eq_iff)
  ultimately show ?thesis using c'(3) s1(2) by (intro exI [of _ "put_conn k c' ?s1"] exI [of _ c']) simp
qed

theorem get_handler_answers_witness:
  "\<exists>s' c'. get_handler ''a:1'' (body_of (zstr ''no'')) (serving (zstr ''no'')) = ret s' \<and>
     send_key_not_found ''no'' (client_sent (zstr ''no'')) = Inr c' \<and> map_of (s_connections s') ''a:1'' = Some c'"
proof -
  have "get_object (s_db (serving (zstr ''no''))) (string_hash ''no'') = ret None"
    using get_object_entries [OF new_db_entries]
    by (simp add: serving_def start_listening_def asio_server_new_def start_accept_def start_stats_task_def)
  from get_handler_answers [OF serving_quiet serving_client _ _ _ _ this _ refl, of "body_of (zstr ''no'')" nul]
  show ?thesis by (fastforce simp: body_of_def zstr_def plain_def client_sent_def)
qed

section \<open>Requests that end the server\<close>

lemma empty_string_value:
  assumes "plain key"
  shows "value_object (zstr key @ [CHR 0x02]) 0 2 (length key + 2) 0 =
     Inr (string_hash key, \<lparr>obj_ds = Mem [], obj_dtype = 2, obj_key = key\<rparr>, zstr key @ [nul])"
proof -
  let ?buf = "zstr key @ [CHR 0x02]"
  have "?buf[length key + 2 - 1 := nul] = zstr key @ [nul]" by (simp add: zstr_def list_update_append)
  then have "string_load_from ?buf (length key + 2) 0 ds = Inr (0, zstr key @ [nul], Mem [])" for ds
    using string_load_nothing [of "length key + 2" ?buf ds] by simp
  then show ?thesis
    using key_scan(3) [OF assms refl] greeting_object(1)
    by (simp add: value_object_def greeting_object(4) obj_load_from_def obj_implementor_def impl_load_from_def
        make_hash_def)
qed

text \<open>
  C31. Two requests end the server. A \<open>GET\<close> or \<open>SET\<close> whose preamble announces a body of zero bytes
  fails the assertion of \<open>get_binary\<close>, since an empty storage counts as one without a value. A
  \<open>SET\<close> of a string with no bytes after the type stores a block without a terminating zero, and
  measuring it for the broadcast reads beyond it.
\<close>

theorem empty_requests_end_server:
  assumes "quiet s" "map_of (s_connections s) k = Some c"
  shows "(\<forall>op h m xs. c_reads c = [op] \<and> ro_next op = Processed_data h m \<and> msg_size m = 0 \<longrightarrow>
            on_read_done k False xs s = fail Assert_Failed) \<and>
         (\<forall>key msg. plain key \<and> pm_buffer msg = zstr key @ [CHR 0x02] \<and> pm_size msg = length (pm_buffer msg) \<longrightarrow>
            set_handler k msg s = fail Out_Of_Bounds)"
proof (intro conjI allI impI; elim conjE)
  fix op h m xs
  assume op: "c_reads c = [op]" "ro_next op = Processed_data h m" "msg_size m = 0"
  have "rinv c" using assms unfolding quiet_def sinv_def by blast
  then have "next_ok (ro_next op) (c_storage c)" using op(1) by (simp add: rinv_def rcore_def)
  then have "dyn_data (c_storage c) = []" "dyn_size (c_storage c) = 0" using op(3) by (auto simp: next_ok_def dyn_ok_def op(2))
  then have "dyn_data (c_storage (receive xs (c\<lparr>c_reads := []\<rparr>))) = []" by (simp add: receive_def put_def)
  then show "on_read_done k False xs s = fail Assert_Failed"
    using op assms(2)
    by (simp add: on_read_done_def handle_data_def run_read_next_def handle_proccessed_data_def get_conn_def
        get_read_buffer_def get_binary_def assert_binary_def assert_has_value_def has_value_def Let_def)
next
  fix key and msg :: processed_message
  assume msg: "plain key" "pm_buffer msg = zstr key @ [CHR 0x02]" "pm_size msg = length (pm_buffer msg)"
  let ?ob = "\<lparr>obj_ds = Mem [], obj_dtype = 2, obj_key = key\<rparr>"
  note scan = key_scan [OF msg(1), of "pm_size msg" "[CHR 0x02]"]
  obtain xs where "db_entries (s_db s) xs" using assms(1) by (auto simp: quiet_def sinv_def)
  then obtain d where d: "set_value (s_db s) (zstr key @ [CHR 0x02]) 0 2 (length key + 2) 0 = ret (d, zstr key @ [nul])"
    "get_object d (string_hash key) = ret (Some ?ob)"
    using set_value_entries [OF _ empty_string_value [OF msg(1)]] get_object_entries by fastforce
  have "cstr_at [] 0 = Inl Out_Of_Bounds" by (simp add: cstr_at_def)
  then have v: "send_value d key c' = fail Out_Of_Bounds" for c'
    using d(2) msg(1) greeting_object(1)
    by (simp add: send_value_def make_hash_def send_value_object_def object_message_def obj_get_size_def
        obj_implementor_def impl_get_size_def string_impl_size_def as_block_def Let_def)
  let ?s1 = "put_conn k (c\<lparr>c_storage := (c_storage c)\<lparr>dyn_data := zstr key @ [nul]\<rparr>\<rparr>) (s\<lparr>s_db := d\<rparr>)"
  have st: "store_buffer k (zstr key @ [nul]) (s\<lparr>s_db := d\<rparr>) = ret ?s1"
    unfolding store_buffer_def by (rule with_conn_ret) (use assms(2) in simp_all)
  obtain k0 c0 ks where "s_connections ?s1 = (k0, c0) # ks" by (cases "s_connections ?s1") auto
  then have a: "apply_all_connections (send_value d key) ?s1 = fail Out_Of_Bounds"
    using v unfolding apply_all_connections_def by (simp add: with_conn_def get_conn_def)
  have "rd (zstr key @ [CHR 0x02]) (length key + 1) = Inr (CHR 0x02)" by (simp add: rd_def nth_append)
  moreover have "has_type 2" using greeting_object(1) by (simp add: has_type_def get_implementor_def)
  ultimately show "set_handler k msg s = fail Out_Of_Bounds"
    using scan msg d(1) st a key_scan(3) [OF msg(1) refl, of "[nul]"]
    by (simp add: set_handler_def Let_def numeral_2_eq_2)
qed

theorem empty_requests_end_server_witness:
  "set_handler ''a:1'' (body_of (zstr ''k'' @ [CHR 0x02])) (serving []) = fail Out_Of_Bounds"
proof -
  let ?m = "body_of (zstr ''k'' @ [CHR 0x02])"
  have "plain ''k'' \<and> pm_buffer ?m = zstr ''k'' @ [CHR 0x02] \<and> pm_size ?m = length (pm_buffer ?m)"
    by (simp add: body_of_def plain_def)
  then show ?thesis
    using empty_requests_end_server [OF serving_quiet serving_client, THEN conjunct2] by blast
qed



end
