(* ===== verification/Option_List.thy ===== *)
theory Option_List
  imports Bytes
begin

text \<open>
  The class \<open>Option\<close> of the command line parser in \<open>DBTestTerminal/optionparser.h\<close>: an option
  found on the command line, linked with the other occurrences of the same option in a circular
  doubly linked list whose two ends are marked in the lowest bit of the pointers. A \<open>const char*\<close>
  is the number of the array it points into with the characters from there to the terminating
  zero, so that two pointers are equal when they point to the same place. A \<open>const Descriptor*\<close>
  is the position of the descriptor in the array \<open>usage\<close>.
\<close>

unbundle bit_operations_syntax

type_synonym cptr = "nat \<times> string"

type_synonym optr = "64 word"

datatype ArgStatus = ARG_NONE | ARG_OK | ARG_IGNORE | ARG_ILLEGAL

record opt =
  o_next :: optr
  o_prev :: optr
  o_desc :: "nat option"
  o_name :: "cptr option"
  o_arg :: "cptr option"
  o_namelen :: nat

type_synonym opt_heap = "optr \<Rightarrow> opt option"

record descriptor =
  d_index :: nat
  d_type :: int
  d_shortopt :: "string option"
  d_longopt :: "string option"
  d_check_arg :: "opt \<Rightarrow> bool \<Rightarrow> ArgStatus"
  d_help :: "string option"

section \<open>Tagged pointers\<close>

definition tag :: "optr \<Rightarrow> optr" where
  "tag p = p OR 1"

definition untag :: "optr \<Rightarrow> optr" where
  "untag p = p AND NOT 1"

definition isTagged :: "optr \<Rightarrow> bool" where
  "isTagged p = (p AND 1 \<noteq> 0)"

section \<open>Construction\<close>

text \<open>The length of the option's name: one character, or up to the end or the equals sign.\<close>

definition name_length :: "cptr option \<Rightarrow> nat" where
  "name_length n =
     (case n of
        None \<Rightarrow> 0
      | Some (_, s) \<Rightarrow>
          if s = [] \<or> hd s \<noteq> CHR ''-'' then 1
          else 1 + length (takeWhile (\<lambda>c. c \<noteq> CHR ''='') (tl s)))"

definition opt_init :: "optr \<Rightarrow> nat option \<Rightarrow> cptr option \<Rightarrow> cptr option \<Rightarrow> opt" where
  "opt_init this desc name arg =
     \<lparr>o_next = tag this, o_prev = tag this, o_desc = desc, o_name = name, o_arg = arg,
      o_namelen = name_length name\<rparr>"

definition opt_new :: "optr \<Rightarrow> opt" where
  "opt_new this = opt_init this None None None"

text \<open>\<open>operator=\<close> and the copy constructor take the contents but not the links.\<close>

definition opt_assign :: "optr \<Rightarrow> opt \<Rightarrow> opt_heap \<Rightarrow> opt_heap" where
  "opt_assign this orig h = h(this \<mapsto> opt_init this (o_desc orig) (o_name orig) (o_arg orig))"

section \<open>Observers\<close>

definition opt_desc :: "descriptor list \<Rightarrow> nat \<Rightarrow> descriptor comp" where
  "opt_desc usage d = (if d < length usage then ret (usage ! d) else fail Out_Of_Bounds)"

definition opt_type :: "descriptor list \<Rightarrow> opt \<Rightarrow> int comp" where
  "opt_type usage ob =
     (case o_desc ob of None \<Rightarrow> ret 0 | Some d \<Rightarrow> bindc (opt_desc usage d) (\<lambda>x. ret (d_type x)))"

definition opt_index :: "descriptor list \<Rightarrow> opt \<Rightarrow> int comp" where
  "opt_index usage ob =
     (case o_desc ob of None \<Rightarrow> ret (- 1)
      | Some d \<Rightarrow> bindc (opt_desc usage d) (\<lambda>x. ret (i32 (int (d_index x)))))"

definition isFirst :: "opt \<Rightarrow> bool" where
  "isFirst ob = isTagged (o_prev ob)"

definition isLast :: "opt \<Rightarrow> bool" where
  "isLast ob = isTagged (o_next ob)"

definition prevwrap :: "opt \<Rightarrow> optr" where
  "prevwrap ob = untag (o_prev ob)"

definition nextwrap :: "opt \<Rightarrow> optr" where
  "nextwrap ob = untag (o_next ob)"

definition opt_prev :: "opt \<Rightarrow> optr option" where
  "opt_prev ob = (if isFirst ob then None else Some (o_prev ob))"

definition opt_next :: "opt \<Rightarrow> optr option" where
  "opt_next ob = (if isLast ob then None else Some (o_next ob))"

text \<open>\<open>operator Option*\<close>: the object itself, or null when it has no descriptor.\<close>

definition opt_ptr :: "optr \<Rightarrow> opt \<Rightarrow> optr option" where
  "opt_ptr this ob = (if o_desc ob = None then None else Some this)"

section \<open>Walking and appending\<close>

partial_function (option) opt_first :: "opt_heap \<Rightarrow> optr \<Rightarrow> optr comp" where
  "opt_first h p =
     bindc (deref h p) (\<lambda>ob. if isFirst ob then ret p else opt_first h (o_prev ob))"

definition opt_last :: "opt_heap \<Rightarrow> optr \<Rightarrow> optr comp" where
  "opt_last h p =
     bindc (opt_first h p) (\<lambda>f. bindc (deref h f) (\<lambda>ob. ret (prevwrap ob)))"

partial_function (option) count_loop :: "opt_heap \<Rightarrow> optr \<Rightarrow> int \<Rightarrow> int comp" where
  "count_loop h p c =
     bindc (deref h p) (\<lambda>ob. if isLast ob then ret c else count_loop h (o_next ob) (c + 1))"

definition opt_count :: "opt_heap \<Rightarrow> optr \<Rightarrow> int comp" where
  "opt_count h p =
     bindc (deref h p) (\<lambda>ob.
     bindc (opt_first h p) (\<lambda>f. count_loop h f (if o_desc ob = None then 0 else 1)))"

definition set_next :: "optr \<Rightarrow> optr \<Rightarrow> opt_heap \<Rightarrow> opt_heap comp" where
  "set_next p v h = bindc (deref h p) (\<lambda>ob. ret (h(p \<mapsto> ob\<lparr>o_next := v\<rparr>)))"

definition set_prev :: "optr \<Rightarrow> optr \<Rightarrow> opt_heap \<Rightarrow> opt_heap comp" where
  "set_prev p v h = bindc (deref h p) (\<lambda>ob. ret (h(p \<mapsto> ob\<lparr>o_prev := v\<rparr>)))"

definition opt_append :: "optr \<Rightarrow> optr \<Rightarrow> opt_heap \<Rightarrow> opt_heap comp" where
  "opt_append this new_last h =
     bindc (opt_last h this) (\<lambda>p.
     bindc (opt_first h this) (\<lambda>f.
     bindc (set_next p new_last h) (\<lambda>h.
     bindc (set_prev new_last p h) (\<lambda>h.
     bindc (set_next new_last (tag f) h) (\<lambda>h.
     set_prev f (tag new_last) h)))))"

text \<open>The loop \<open>for (opt = options[i]; opt; opt = opt->next())\<close> of a client.\<close>

partial_function (option) opt_walk :: "opt_heap \<Rightarrow> optr \<Rightarrow> opt list comp" where
  "opt_walk h p =
     bindc (deref h p) (\<lambda>ob.
     case opt_next ob of None \<Rightarrow> ret [ob] | Some q \<Rightarrow> bindc (opt_walk h q) (\<lambda>obs. ret (ob # obs)))"

definition opt_occurrences :: "opt_heap \<Rightarrow> optr \<Rightarrow> opt list comp" where
  "opt_occurrences h p =
     bindc (deref h p) (\<lambda>ob. case opt_ptr p ob of None \<Rightarrow> ret [] | Some q \<Rightarrow> opt_walk h q)"

section \<open>The list an option belongs to\<close>

text \<open>
  \<open>olist h ps\<close>: the objects at \<open>ps\<close> are linked in this order, and the two ends refer to each
  other by tagged pointers.
\<close>

fun oseg :: "opt_heap \<Rightarrow> optr \<Rightarrow> optr list \<Rightarrow> optr \<Rightarrow> bool" where
  "oseg h pr [] nx = False"
| "oseg h pr [p] nx = (\<exists>ob. h p = Some ob \<and> o_prev ob = pr \<and> o_next ob = nx)"
| "oseg h pr (p # q # ps) nx = (\<exists>ob. h p = Some ob \<and> o_prev ob = pr \<and> o_next ob = q \<and> oseg h p (q # ps) nx)"

definition olist :: "opt_heap \<Rightarrow> optr list \<Rightarrow> bool" where
  "olist h ps \<longleftrightarrow>
     ps \<noteq> [] \<and> distinct ps \<and> (\<forall>p\<in>set ps. \<not> isTagged p) \<and> oseg h (tag (last ps)) ps (tag (hd ps))"


section \<open>Lemmas\<close>

lemma isTagged_tag [simp]: "isTagged (tag p)"
proof -
  have "bit ((p OR 1) AND 1 :: optr) 0" by (simp add: bit_simps)
  then show ?thesis unfolding isTagged_def tag_def by auto
qed

lemma untag_tag [simp]: "\<not> isTagged p \<Longrightarrow> untag (tag p) = p"
proof -
  assume "\<not> isTagged p"
  then have "\<not> bit p 0" by (simp add: isTagged_def and_one_eq odd_iff_mod_2_eq_one bit_0)
  then show "untag (tag p) = p"
    unfolding untag_def tag_def by (intro bit_word_eqI) (auto simp: bit_simps bit_1_iff intro: gr0I)
qed

lemma oseg_Cons:
  "oseg h pr (p # ps) nx =
     (\<exists>ob. h p = Some ob \<and> o_prev ob = pr \<and>
        (if ps = [] then o_next ob = nx else o_next ob = hd ps \<and> oseg h p ps nx))"
  by (cases ps) auto

lemma oseg_append:
  assumes "ps \<noteq> []" "qs \<noteq> []"
  shows "oseg h pr (ps @ qs) nx \<longleftrightarrow> oseg h pr ps (hd qs) \<and> oseg h (last ps) qs nx"
  using assms(1)
proof (induction ps arbitrary: pr)
  case (Cons p ps)
  then show ?case using assms(2) by (cases "ps = []") (auto simp: oseg_Cons)
qed simp

lemma oseg_dom: "oseg h pr ps nx \<Longrightarrow> p \<in> set ps \<Longrightarrow> \<exists>ob. h p = Some ob"
  by (induction h pr ps nx rule: oseg.induct) auto

lemma oseg_frame: "oseg h pr ps nx \<Longrightarrow> (\<And>p. p \<in> set ps \<Longrightarrow> h' p = h p) \<Longrightarrow> oseg h' pr ps nx"
  by (induction h pr ps nx rule: oseg.induct) auto

lemma oseg_upd: "oseg h pr ps nx \<Longrightarrow> p \<notin> set ps \<Longrightarrow> oseg (h(p := x)) pr ps nx"
  by (erule oseg_frame) auto

lemma oseg_set_first:
  assumes "oseg h pr ps nx" "distinct ps" "h (hd ps) = Some ob"
  shows "oseg (h(hd ps \<mapsto> ob\<lparr>o_prev := pr'\<rparr>)) pr' ps nx"
proof (cases ps)
  case (Cons p qs)
  then show ?thesis using assms by (auto simp: oseg_Cons intro: oseg_upd)
qed (use assms in simp)

lemma oseg_set_last:
  assumes "oseg h pr ps nx" "distinct ps" "h (last ps) = Some ob"
  shows "oseg (h(last ps \<mapsto> ob\<lparr>o_next := nx'\<rparr>)) pr ps nx'"
proof (cases ps rule: rev_cases)
  case (snoc qs p)
  show ?thesis
  proof (cases "qs = []")
    case False
    then have "oseg h pr qs p" "oseg h (last qs) [p] nx" "p \<notin> set qs"
      using assms snoc oseg_append [of qs "[p]"] by auto
    then have "oseg (h(p \<mapsto> ob\<lparr>o_next := nx'\<rparr>)) pr qs p" "o_prev ob = last qs"
      using assms(3) snoc by (auto intro: oseg_upd)
    then show ?thesis using snoc False oseg_append [of qs "[p]"] by simp
  qed (use assms snoc in auto)
qed (use assms in simp)

lemma olist_split:
  assumes "olist h (xs @ p # ys)"
  shows "\<exists>ob. h p = Some ob \<and> isFirst ob = (xs = []) \<and> isLast ob = (ys = []) \<and>
     (if xs = [] then o_prev ob = tag (last (p # ys)) else o_prev ob = last xs) \<and>
     (if ys = [] then o_next ob = tag (hd (xs @ [p])) else o_next ob = hd ys)"
proof -
  have t: "\<forall>q\<in>set (xs @ p # ys). \<not> isTagged q" using assms by (simp add: olist_def)
  have s: "oseg h (if xs = [] then tag (last (p # ys)) else last xs) (p # ys) (tag (hd (xs @ [p])))"
    using assms oseg_append [of xs "p # ys"] by (cases xs) (auto simp: olist_def)
  then obtain ob where ob: "h p = Some ob"
      "o_prev ob = (if xs = [] then tag (last (p # ys)) else last xs)"
      "if ys = [] then o_next ob = tag (hd (xs @ [p])) else o_next ob = hd ys"
    unfolding oseg_Cons by (auto split: if_splits)
  then show ?thesis using t by (cases "xs = []"; cases "ys = []") (auto simp: isFirst_def isLast_def)
qed

lemma opt_first_olist:
  assumes "olist h ps" "p \<in> set ps"
  shows "opt_first h p = ret (hd ps)"
proof -
  have "opt_first h p = ret (hd (xs @ p # ys))" if "olist h (xs @ p # ys)" for xs ys p
    using that
  proof (induction xs arbitrary: p ys rule: rev_induct)
    case Nil
    then show ?case using olist_split [of h "[]" p ys] by (auto simp: opt_first.simps [of h p])
  next
    case (snoc x xs)
    then show ?case
      using olist_split [of h "xs @ [x]" p ys] snoc.IH [of x "p # ys"]
      by (auto simp: opt_first.simps [of h p] hd_append)
  qed
  then show ?thesis using assms split_list [OF assms(2)] by auto
qed

lemma opt_last_olist:
  assumes "olist h ps" "p \<in> set ps"
  shows "opt_last h p = ret (last ps)"
proof -
  obtain q qs where ps: "ps = q # qs" using assms(2) by (cases ps) auto
  have "\<not> isTagged (last ps)" using assms(1) ps by (simp add: olist_def)
  then show ?thesis
    using olist_split [of h "[]" q qs] assms ps opt_first_olist [OF assms]
    by (auto simp: opt_last_def prevwrap_def)
qed

lemma opt_walk_olist:
  "olist h (xs @ p # ys) \<Longrightarrow> opt_walk h p = ret (map (\<lambda>q. the (h q)) (p # ys))"
proof (induction ys arbitrary: xs p)
  case Nil
  then show ?case using olist_split [of h xs p "[]"] by (auto simp: opt_walk.simps [of h p] opt_next_def)
next
  case (Cons y ys)
  then show ?case using olist_split [of h xs p "y # ys"] Cons.IH [of "xs @ [p]" y]
    by (auto simp: opt_walk.simps [of h p] opt_next_def)
qed

lemma count_loop_olist:
  "olist h (xs @ p # ys) \<Longrightarrow> count_loop h p c = ret (c + int (length ys))"
proof (induction ys arbitrary: xs p c)
  case Nil
  then show ?case using olist_split [of h xs p "[]"] by (auto simp: count_loop.simps [of h p])
next
  case (Cons y ys)
  then show ?case using olist_split [of h xs p "y # ys"] Cons.IH [of "xs @ [p]" y]
    by (auto simp: count_loop.simps [of h p])
qed


text \<open>What an option says, apart from its links.\<close>

definition odata :: "opt \<Rightarrow> nat option \<times> cptr option \<times> cptr option" where
  "odata ob = (o_desc ob, o_name ob, o_arg ob)"

lemma odata_links [simp]:
  "odata (ob\<lparr>o_next := p\<rparr>) = odata ob" "odata (ob\<lparr>o_prev := p\<rparr>) = odata ob"
  "odata (opt_init q d n a) = (d, n, a)"
  by (simp_all add: odata_def opt_init_def)

text \<open>The heap after the four assignments of \<open>append\<close>.\<close>

lemma opt_append_heap:
  assumes "olist h ps" "p \<in> set ps" "n \<notin> set ps" "h n = Some ob" "\<not> isTagged n"
  shows "\<exists>h'. opt_append p n h = ret h' \<and> olist h' (ps @ [n]) \<and>
    (\<forall>q. q \<notin> set ps \<longrightarrow> q \<noteq> n \<longrightarrow> h' q = h q) \<and> (\<forall>q. map_option odata (h' q) = map_option odata (h q))"
proof -
  let ?f = "hd ps" and ?l = "last ps"
  have ps: "ps \<noteq> []" "distinct ps" and seg: "oseg h (tag ?l) ps (tag ?f)"
    using assms(1) by (auto simp: olist_def)
  have nfl: "?f \<noteq> n" "?l \<noteq> n" using ps assms(3) by auto
  obtain lo where lo: "h ?l = Some lo" using oseg_dom [OF seg, of ?l] ps by auto
  let ?h1 = "h(?l \<mapsto> lo\<lparr>o_next := n\<rparr>)"
  let ?nn = "ob\<lparr>o_prev := ?l, o_next := tag ?f\<rparr>"
  let ?h3 = "?h1(n \<mapsto> ?nn)"
  have s1: "oseg ?h1 (tag ?l) ps n" by (rule oseg_set_last [OF seg ps(2) lo])
  have s3: "oseg ?h3 (tag ?l) ps n" using oseg_upd [OF s1 assms(3)] by blast
  obtain fo where fo: "?h3 ?f = Some fo" using oseg_dom [OF s3, of ?f] ps by auto
  let ?h4 = "?h3(?f \<mapsto> fo\<lparr>o_prev := tag n\<rparr>)"
  have s4: "oseg ?h4 (tag n) ps n" by (rule oseg_set_first [OF s3 ps(2) fo])
  have "oseg ?h4 ?l [n] (tag ?f)" using nfl by simp
  then have "oseg ?h4 (tag n) (ps @ [n]) (tag ?f)" using s4 oseg_append [of ps "[n]"] ps by simp
  then have ol: "olist ?h4 (ps @ [n])" using assms ps by (auto simp: olist_def)
  have "opt_append p n h = ret ?h4"
    using opt_first_olist [OF assms(1,2)] opt_last_olist [OF assms(1,2)] lo fo assms(4) nfl
    by (simp add: opt_append_def set_next_def set_prev_def)
  moreover have "\<forall>q. q \<notin> set ps \<longrightarrow> q \<noteq> n \<longrightarrow> ?h4 q = h q" using ps by auto
  moreover have "map_option odata (?h4 q) = map_option odata (h q)" for q
    using lo fo nfl assms(4) by (auto split: if_splits)
  ultimately show ?thesis using ol by blast
qed

end
