(* ===== verification/Option_Parser.thy ===== *)
theory Option_Parser
  imports Option_List
begin

text \<open>
  The parser of \<open>DBTestTerminal/optionparser.h\<close>: the search in the array of descriptors, the loop
  over the arguments (\<open>workhorse\<close>) with the reordering of the GNU mode, and the two actions it is
  run with, counting (\<open>Stats\<close>) and storing (\<open>Parser\<close>). An action is the state it keeps and the
  function \<open>perform\<close>; the argument vector is a list in which \<open>None\<close> is the null pointer.
\<close>

section \<open>Argument checks\<close>

definition Arg_None :: "opt \<Rightarrow> bool \<Rightarrow> ArgStatus" where
  "Arg_None ob msg = ARG_NONE"

definition Arg_Optional :: "opt \<Rightarrow> bool \<Rightarrow> ArgStatus" where
  "Arg_Optional ob msg =
     (case (o_arg ob, o_name ob) of
        (Some _, Some (_, s)) \<Rightarrow> if o_namelen ob < length s then ARG_OK else ARG_IGNORE
      | _ \<Rightarrow> ARG_IGNORE)"

section \<open>Comparing names\<close>

fun streq :: "string \<Rightarrow> string \<Rightarrow> bool" where
  "streq [] t = (t = [] \<or> hd t = CHR ''='')"
| "streq (c # s) [] = False"
| "streq (c # s) (d # t) = (c = d \<and> streq s t)"

fun common_prefix :: "string \<Rightarrow> string \<Rightarrow> nat \<Rightarrow> string \<times> string \<times> nat" where
  "common_prefix (c # s) (d # t) n = (if c = d then common_prefix s t (n + 1) else (c # s, d # t, n))"
| "common_prefix s t n = (s, t, n)"

definition streqabbr :: "string \<Rightarrow> string \<Rightarrow> int \<Rightarrow> bool" where
  "streqabbr st1 st2 min_len =
     (let (s, t, n) = common_prefix st1 st2 0
      in (s = [] \<or> min_len > 0 \<and> int n \<ge> min_len) \<and> (t = [] \<or> hd t = CHR ''=''))"

fun instr :: "char \<Rightarrow> string \<Rightarrow> bool" where
  "instr c [] = (c = nul)"
| "instr c (d # s) = (d = c \<or> instr c s)"

section \<open>Searching the descriptors\<close>

text \<open>The loops \<open>while (!stop(usage[i])) ++i\<close>; without a stopping entry they leave the array.\<close>

function usage_scan :: "(descriptor \<Rightarrow> bool res) \<Rightarrow> descriptor list \<Rightarrow> nat \<Rightarrow> nat res" where
  "usage_scan stop usage i =
     (if i < length usage
      then bindr (stop (usage ! i)) (\<lambda>b. if b then Inr i else usage_scan stop usage (i + 1))
      else Inl Out_Of_Bounds)"
  by auto
termination by (relation "measure (\<lambda>(_, usage, i). length usage - i)") auto

declare usage_scan.simps [simp del]

definition find_long :: "descriptor list \<Rightarrow> int \<Rightarrow> string \<Rightarrow> nat res" where
  "find_long usage min_abbr_len longopt_name =
     (let exact = (\<lambda>d. Inr (case d_longopt d of None \<Rightarrow> True | Some l \<Rightarrow> streq l longopt_name));
          abbr = (\<lambda>d. Inr (case d_longopt d of None \<Rightarrow> True | Some l \<Rightarrow> streqabbr l longopt_name min_abbr_len))
      in bindr (usage_scan exact usage 0) (\<lambda>idx.
         if d_longopt (usage ! idx) = None \<and> min_abbr_len > 0 then
           bindr (usage_scan abbr usage 0) (\<lambda>i1.
           if d_longopt (usage ! i1) \<noteq> None then
             bindr (usage_scan abbr usage (i1 + 1)) (\<lambda>i2.
             Inr (if d_longopt (usage ! i2) = None then i1 else idx))
           else Inr idx)
         else Inr idx))"

definition find_short :: "descriptor list \<Rightarrow> char \<Rightarrow> nat res" where
  "find_short usage c =
     usage_scan (\<lambda>d. Inr (case d_shortopt d of None \<Rightarrow> True | Some s \<Rightarrow> instr c s)) usage 0"

text \<open>The descriptor of the option, the dummy entry for an unknown one, or null.\<close>

definition find_descriptor :: "descriptor list \<Rightarrow> nat \<Rightarrow> nat option res" where
  "find_descriptor usage idx =
     (if d_shortopt (usage ! idx) = None then
        bindr (usage_scan (\<lambda>d.
            case d_shortopt d of
              None \<Rightarrow> Inr True
            | Some s \<Rightarrow>
                if s \<noteq> [] then Inr False
                else (case d_longopt d of None \<Rightarrow> Inl Null_Deref | Some l \<Rightarrow> Inr (l = []))) usage 0)
          (\<lambda>i. Inr (if d_shortopt (usage ! i) = None then None else Some i))
      else Inr (Some idx))"

section \<open>The argument vector\<close>

definition arg_at :: "cptr option list \<Rightarrow> nat \<Rightarrow> cptr option res" where
  "arg_at args k = (if k < length args then Inr (args ! k) else Inl Out_Of_Bounds)"

text \<open>\<open>shift\<close> moves the argument at \<open>pos\<close> before the \<open>count\<close> arguments that precede it.\<close>

fun shift :: "nat \<Rightarrow> nat \<Rightarrow> 'b list \<Rightarrow> 'b list res" where
  "shift pos 0 xs = Inr xs"
| "shift pos (Suc n) xs =
     (if 0 < pos \<and> pos < length xs
      then shift (pos - 1) n (xs[pos := xs ! (pos - 1), pos - 1 := xs ! pos])
      else Inl Out_Of_Bounds)"

record 'a wh =
  w_args :: "cptr option list"
  w_pos :: nat
  w_numargs :: int
  w_nonops :: nat
  w_act :: 'a

definition dec_numargs :: "int \<Rightarrow> int" where
  "dec_numargs n = (if n > 0 then n - 1 else n)"

text \<open>\<open>shift(args, nonops); ++args; if (numargs > 0) --numargs;\<close>\<close>

definition advance :: "'a wh \<Rightarrow> 'a wh comp" where
  "advance w =
     bindc (liftc (shift (w_pos w) (w_nonops w) (w_args w))) (\<lambda>xs.
     ret (w\<lparr>w_args := xs, w_pos := w_pos w + 1, w_numargs := dec_numargs (w_numargs w)\<rparr>))"

definition attached_arg :: "cptr \<Rightarrow> cptr option" where
  "attached_arg p =
     (case dropWhile (\<lambda>c. c \<noteq> CHR ''='') (snd p) of [] \<Rightarrow> None | _ # r \<Rightarrow> Some (fst p, r))"

definition detached_arg :: "bool \<Rightarrow> 'a wh \<Rightarrow> cptr option res" where
  "detached_arg have_more_args w = (if have_more_args then arg_at (w_args w) (w_pos w + 1) else Inr None)"

section \<open>One option\<close>

type_synonym 'a perform = "'a \<Rightarrow> opt \<Rightarrow> ('a \<times> bool) comp"

text \<open>The address of the local variable \<open>option\<close>, which nothing depends on.\<close>

definition local_option :: optr where
  "local_option = 0"

definition skip_arg :: "bool \<Rightarrow> cptr option \<Rightarrow> 'a wh \<Rightarrow> 'a wh comp" where
  "skip_arg have_more_args optarg w =
     (if optarg \<noteq> None \<and> have_more_args
      then bindc (liftc (arg_at (w_args w) (w_pos w + 1))) (\<lambda>a. if optarg = a then advance w else ret w)
      else ret w)"

text \<open>The result holds the state, \<open>handle_short_options\<close>, and whether \<open>workhorse\<close> goes on.\<close>

definition run_action :: "'a perform \<Rightarrow> opt \<Rightarrow> bool \<Rightarrow> 'a wh \<Rightarrow> ('a wh \<times> bool \<times> bool) comp" where
  "run_action perform ob handle w =
     bindc (perform (w_act w) ob) (\<lambda>(a, ok). ret (w\<lparr>w_act := a\<rparr>, handle, ok))"

definition take_option ::
  "descriptor list \<Rightarrow> bool \<Rightarrow> 'a perform \<Rightarrow> bool \<Rightarrow> cptr \<Rightarrow> cptr option \<Rightarrow> nat \<Rightarrow> bool \<Rightarrow> 'a wh \<Rightarrow>
     ('a wh \<times> bool \<times> bool) comp" where
  "take_option usage print_errors perform have_more_args param optarg idx handle w =
     bindc (liftc (find_descriptor usage idx)) (\<lambda>d.
     case d of
       None \<Rightarrow> ret (w, handle, True)
     | Some i \<Rightarrow>
         let ob = opt_init local_option (Some i) (Some param) optarg in
         (case d_check_arg (usage ! i) ob print_errors of
            ARG_ILLEGAL \<Rightarrow> ret (w, handle, False)
          | ARG_OK \<Rightarrow> bindc (skip_arg have_more_args optarg w) (run_action perform ob False)
          | ARG_IGNORE \<Rightarrow> run_action perform (ob\<lparr>o_arg := None\<rparr>) handle w
          | ARG_NONE \<Rightarrow> run_action perform (ob\<lparr>o_arg := None\<rparr>) handle w))"

text \<open>The part of the loop body for long options: index, argument and \<open>handle_short_options\<close>.\<close>

definition long_part ::
  "descriptor list \<Rightarrow> int \<Rightarrow> bool \<Rightarrow> cptr \<Rightarrow> bool \<Rightarrow> 'a wh \<Rightarrow> (nat \<times> cptr option \<times> bool) res" where
  "long_part usage min_abbr_len have_more_args longopt_name handle w =
     bindr (find_long usage min_abbr_len (snd longopt_name)) (\<lambda>idx.
     bindr (case attached_arg longopt_name of
              Some a \<Rightarrow> Inr (Some a) | None \<Rightarrow> detached_arg have_more_args w) (\<lambda>optarg.
     Inr (idx, optarg, handle \<and> d_longopt (usage ! idx) = None)))"

section \<open>The loops\<close>

text \<open>The \<open>do\<close> loop over the options of one argument.\<close>

function opts_loop ::
  "descriptor list \<Rightarrow> int \<Rightarrow> bool \<Rightarrow> 'a perform \<Rightarrow> bool \<Rightarrow> cptr \<Rightarrow> bool \<Rightarrow> bool \<Rightarrow> cptr \<Rightarrow> 'a wh \<Rightarrow>
     ('a wh \<times> bool) comp" where
  "opts_loop usage min_abbr_len print_errors perform have_more_args longopt_name try_long handle param w =
     bindc (if \<not> handle \<or> try_long
            then liftc (long_part usage min_abbr_len have_more_args longopt_name handle w)
            else ret (0, None, handle)) (\<lambda>(idx, optarg, handle).
     if handle then
       (case snd param of
          [] \<Rightarrow> fail Out_Of_Bounds
        | [_] \<Rightarrow> ret (w, True)
        | _ # c # r \<Rightarrow>
            bindc (liftc (find_short usage c)) (\<lambda>idx.
            bindc (if r = [] then liftc (detached_arg have_more_args w) else ret (Some (fst param, r))) (\<lambda>optarg.
            bindc (take_option usage print_errors perform have_more_args (fst param, c # r) optarg idx True w)
              (\<lambda>(w, handle, ok).
                 if \<not> ok then ret (w, False)
                 else if handle
                 then opts_loop usage min_abbr_len print_errors perform have_more_args longopt_name False True
                        (fst param, c # r) w
                 else ret (w, True)))))
     else
       bindc (take_option usage print_errors perform have_more_args param optarg idx False w)
         (\<lambda>(w, handle, ok). ret (w, ok)))"
  by pat_completeness auto
termination
  by (relation "measure (\<lambda>(_, _, _, _, _, _, _, _, param, _). length (snd param))") auto

declare opts_loop.simps [simp del]


text \<open>An argument is never read twice: the position only grows, the vector keeps its length.\<close>

definition ahead :: "'a wh \<Rightarrow> 'a wh \<Rightarrow> bool" where
  "ahead w w' \<longleftrightarrow> length (w_args w') = length (w_args w) \<and> w_pos w \<le> w_pos w'"

lemma length_shift: "shift pos n xs = Inr ys \<Longrightarrow> length ys = length xs"
  by (induction pos n xs rule: shift.induct) (auto split: if_splits)

lemma advance_ahead: "advance w = ret w' \<Longrightarrow> ahead w w' \<and> w_pos w' = w_pos w + 1"
  by (auto simp: advance_def ahead_def bindc_eq_ret length_shift)

lemma skip_arg_cases:
  "skip_arg hm oa w = ret w' \<Longrightarrow> w' = w \<or> advance w = ret w' \<and> w_pos w + 1 < length (w_args w)"
  unfolding skip_arg_def by (auto simp: bindc_eq_ret arg_at_def split: if_splits)

lemma run_action_cases:
  "run_action pf ob handle w = ret (w', h', ok) \<Longrightarrow>
     h' = handle \<and> (\<exists>a. pf (w_act w) ob = ret (a, ok) \<and> w' = w\<lparr>w_act := a\<rparr>)"
  unfolding run_action_def by (auto simp: bindc_eq_ret)

lemma take_option_cases:
  assumes "take_option usage pe pf hm param oa idx handle w = ret (w', h', ok)"
  obtains "w' = w"
  | w1 ob a where "w1 = w \<or> advance w = ret w1 \<and> w_pos w + 1 < length (w_args w)" "pf (w_act w1) ob = ret (a, ok)" "w' = w1\<lparr>w_act := a\<rparr>"
proof -
  obtain d where d: "find_descriptor usage idx = Inr d"
    using assms by (auto simp: take_option_def bindc_eq_ret)
  show thesis
  proof (cases d)
    case None
    then show thesis using assms d that(1) by (simp add: take_option_def)
  next
    case (Some i)
    let ?ob = "opt_init local_option (Some i) (Some param) oa"
    show thesis
    proof (cases "d_check_arg (usage ! i) ?ob pe")
      case ARG_OK
      then obtain w1 where "skip_arg hm oa w = ret w1" "run_action pf ?ob False w1 = ret (w', h', ok)"
        using assms d Some by (auto simp: take_option_def Let_def bindc_eq_ret)
      then show thesis using skip_arg_cases run_action_cases that(2) by metis
    next
      case ARG_ILLEGAL
      then show thesis using assms d Some that(1) by (simp add: take_option_def Let_def)
    next
      case ARG_IGNORE
      then show thesis using assms d Some that(2) run_action_cases
        by (fastforce simp: take_option_def Let_def)
    next
      case ARG_NONE
      then show thesis using assms d Some that(2) run_action_cases
        by (fastforce simp: take_option_def Let_def)
    qed
  qed
qed

lemma take_option_ahead:
  "take_option usage pe pf hm param oa idx handle w = ret (w', h', ok) \<Longrightarrow> ahead w w'"
  by (erule take_option_cases) (auto simp: ahead_def dest: advance_ahead [unfolded ahead_def])

lemma ahead_trans: "ahead w w' \<Longrightarrow> ahead w' w'' \<Longrightarrow> ahead w w''"
  by (auto simp: ahead_def)

lemma ahead_refl [simp]: "ahead w w"
  by (simp add: ahead_def)

text \<open>The way through one argument: options one after the other, each by \<open>take_option\<close>.\<close>

inductive taken :: "(bool \<Rightarrow> cptr \<Rightarrow> cptr option \<Rightarrow> nat \<Rightarrow> bool \<Rightarrow> 'a wh \<Rightarrow> ('a wh \<times> bool \<times> bool) comp) \<Rightarrow>
    'a wh \<Rightarrow> 'a wh \<Rightarrow> bool \<Rightarrow> bool" for T where
  taken_end: "taken T w w True"
| taken_last: "T hm p oa i handle w = ret (w', h', ok) \<Longrightarrow> taken T w w' ok"
| taken_step: "T hm p oa i True w = ret (w1, True, True) \<Longrightarrow> taken T w1 w' ok \<Longrightarrow> taken T w w' ok"

lemma opts_loop_taken:
  "opts_loop usage mn pe pf hm ln try_long handle param w = ret (w', ok) \<Longrightarrow>
     taken (take_option usage pe pf) w w' ok"
proof (induction "length (snd param)" arbitrary: param try_long handle w rule: less_induct)
  case less
  let ?T = "take_option usage pe pf"
  obtain idx oa h where l: "(if \<not> handle \<or> try_long then liftc (long_part usage mn hm ln handle w)
      else ret (0, None, handle)) = ret (idx, oa, h)"
    using less.prems by (subst (asm) opts_loop.simps) (auto simp only: bindc_eq_ret)
  show ?case
  proof (cases h)
    case False
    then have "\<exists>h'. ?T hm param oa idx False w = ret (w', h', ok)"
      using less.prems l by (subst (asm) opts_loop.simps) (auto simp: bindc_eq_ret)
    then show ?thesis by (blast intro: taken_last)
  next
    case True
    show ?thesis
    proof (cases "length (snd param) < 2")
      case short: True
      then have "w' = w \<and> ok" using less.prems l True
        by (subst (asm) opts_loop.simps) (auto simp: length_Suc_conv less_2_cases_iff split: list.splits)
      then show ?thesis by (simp add: taken_end)
    next
      case False
      then obtain b c r where p: "snd param = b # c # r"
        by (cases "snd param"; cases "tl (snd param)") auto
      obtain i oa' w1 h1 ok1 where t: "?T hm (fst param, c # r) oa' i True w = ret (w1, h1, ok1)"
        and rest: "(if \<not> ok1 then ret (w1, False) else if h1
          then opts_loop usage mn pe pf hm ln False True (fst param, c # r) w1 else ret (w1, True)) = ret (w', ok)"
        using less.prems l True p by (subst (asm) opts_loop.simps) (auto simp only: bindc_eq_ret bindc_simps list.case if_True prod.case)
      show ?thesis
      proof (cases "ok1 \<and> h1")
        case True
        then show ?thesis using t rest less.hyps [of "(fst param, c # r)" False True w1] p
          by (auto intro: taken_step)
      next
        case False
        then show ?thesis using t rest by (auto split: if_splits intro: taken_last)
      qed
    qed
  qed
qed

lemma opts_loop_ahead:
  assumes "opts_loop usage mn pe pf hm ln try_long handle param w = ret (w', ok)"
  shows "ahead w w'"
  using opts_loop_taken [OF assms]
  by (induction rule: taken.induct) (auto intro: take_option_ahead ahead_trans)


lemma bindc_cong [fundef_cong]:
  assumes "m = m'" "\<And>x. m' = ret x \<Longrightarrow> f x = f' x"
  shows "bindc m f = bindc m' f'"
  using assms by (cases m') (auto simp: bindc_def split: sum.splits)

text \<open>A non-option argument; a lone minus is one.\<close>

definition non_option :: "string \<Rightarrow> bool" where
  "non_option s \<longleftrightarrow> s = [] \<or> hd s \<noteq> CHR ''-'' \<or> tl s = []"

text \<open>The \<open>while\<close> loop over the arguments.\<close>

function args_loop ::
  "bool \<Rightarrow> descriptor list \<Rightarrow> bool \<Rightarrow> bool \<Rightarrow> int \<Rightarrow> 'a perform \<Rightarrow> 'a wh \<Rightarrow> ('a wh \<times> bool) comp" where
  "args_loop gnu usage single_minus_longopt print_errors min_abbr_len perform w =
     (if w_numargs w = 0 then ret (w, True)
      else bindc (liftc (arg_at (w_args w) (w_pos w))) (\<lambda>a.
        case a of
          None \<Rightarrow> ret (w, True)
        | Some param \<Rightarrow>
            if non_option (snd param) then
              if gnu
              then args_loop gnu usage single_minus_longopt print_errors min_abbr_len perform
                     (w\<lparr>w_nonops := w_nonops w + 1, w_pos := w_pos w + 1,
                        w_numargs := dec_numargs (w_numargs w)\<rparr>)
              else ret (w, True)
            else if tl (snd param) = ''-'' then bindc (advance w) (\<lambda>w. ret (w, True))
            else
              let long = (hd (tl (snd param)) = CHR ''-'');
                  longopt_name = (fst param, if long then tl (tl (snd param)) else tl (snd param));
                  have_more_args = (w_numargs w > 1 \<or> w_numargs w < 0)
              in bindc (opts_loop usage min_abbr_len print_errors perform have_more_args longopt_name
                          single_minus_longopt (\<not> long) param w) (\<lambda>(w, ok).
                 if \<not> ok then ret (w, False)
                 else bindc (advance w)
                   (args_loop gnu usage single_minus_longopt print_errors min_abbr_len perform))))"
  by pat_completeness auto
termination
  by (relation "measure (\<lambda>(_, _, _, _, _, _, w). length (w_args w) - w_pos w)")
    (auto simp: arg_at_def ahead_def split: if_splits dest!: opts_loop_ahead advance_ahead)

declare args_loop.simps [simp del]

text \<open>The number of arguments up to the null pointer.\<close>

function count_args :: "cptr option list \<Rightarrow> nat \<Rightarrow> nat res" where
  "count_args args k =
     (if k < length args
      then if args ! k = None then Inr 0 else bindr (count_args args (k + 1)) (\<lambda>n. Inr (n + 1))
      else Inl Out_Of_Bounds)"
  by auto
termination by (relation "measure (\<lambda>(args, k). length args - k)") auto

declare count_args.simps [simp del]

definition remaining_args :: "'a wh \<Rightarrow> nat res" where
  "remaining_args w =
     (if w_numargs w > 0 then
        bindr (arg_at (w_args w) (w_pos w)) (\<lambda>a. Inr (if a = None then 0 else nat (w_numargs w)))
      else if w_numargs w < 0 then count_args (w_args w) (w_pos w)
      else Inr 0)"

text \<open>
  \<open>workhorse\<close> returns the permuted vector, the state of the action, and its result; \<open>finished\<close>
  receives the number of non-options and the position of the first.
\<close>

definition workhorse ::
  "bool \<Rightarrow> descriptor list \<Rightarrow> int \<Rightarrow> cptr option list option \<Rightarrow> 'a perform \<Rightarrow> ('a \<Rightarrow> nat \<Rightarrow> nat \<Rightarrow> 'a) \<Rightarrow> 'a \<Rightarrow>
     bool \<Rightarrow> bool \<Rightarrow> int \<Rightarrow> (cptr option list \<times> 'a \<times> bool) comp" where
  "workhorse gnu usage numargs args perform finished act single_minus_longopt print_errors min_abbr_len =
     bindc (args_loop gnu usage single_minus_longopt print_errors min_abbr_len perform
              \<lparr>w_args = (case args of None \<Rightarrow> [] | Some xs \<Rightarrow> xs), w_pos = 0,
               w_numargs = (if args = None then 0 else numargs), w_nonops = 0, w_act = act\<rparr>) (\<lambda>(w, ok).
     if \<not> ok then ret (w_args w, w_act w, False)
     else bindc (liftc (remaining_args w)) (\<lambda>n.
          ret (w_args w, finished (w_act w) (n + w_nonops w) (w_pos w - w_nonops w), True)))"

section \<open>Counting\<close>

record stats =
  buffer_max :: nat
  options_max :: nat

definition stats_new :: stats where
  "stats_new = \<lparr>buffer_max = 1, options_max = 1\<rparr>"

definition count_perform :: "nat perform" where
  "count_perform n ob = (if n = 0x7fffffff then ret (n, False) else ret (n + 1, True))"

text \<open>\<open>Action::finished\<close> of the base class.\<close>

definition count_finished :: "nat \<Rightarrow> nat \<Rightarrow> nat \<Rightarrow> nat" where
  "count_finished n numargs first = n"

fun max_index :: "descriptor list \<Rightarrow> nat \<Rightarrow> nat res" where
  "max_index [] m = Inl Out_Of_Bounds"
| "max_index (d # ds) m =
     (if d_shortopt d = None then Inr m
      else max_index ds (if (d_index d + 1) mod 2 ^ 32 \<ge> m then (d_index d + 2) mod 2 ^ 32 else m))"

definition stats_add ::
  "bool \<Rightarrow> descriptor list \<Rightarrow> int \<Rightarrow> cptr option list option \<Rightarrow> int \<Rightarrow> bool \<Rightarrow> stats \<Rightarrow>
     (cptr option list \<times> stats) comp" where
  "stats_add gnu usage argc argv min_abbr_len single_minus_longopt s =
     bindc (liftc (max_index usage (options_max s))) (\<lambda>m.
     bindc (workhorse gnu usage argc argv count_perform count_finished (buffer_max s)
              single_minus_longopt False min_abbr_len) (\<lambda>(args, n, ok).
     ret (args, \<lparr>buffer_max = n, options_max = m\<rparr>)))"

definition stats_of ::
  "bool \<Rightarrow> descriptor list \<Rightarrow> int \<Rightarrow> cptr option list option \<Rightarrow> int \<Rightarrow> bool \<Rightarrow> (cptr option list \<times> stats) comp" where
  "stats_of gnu usage argc argv min_abbr_len single_minus_longopt =
     stats_add gnu usage argc argv min_abbr_len single_minus_longopt stats_new"

section \<open>Storing\<close>

record parser =
  op_count :: nat
  nonop_count :: nat
  nonop_args :: "nat option"
  p_err :: bool

definition parser_new :: parser where
  "parser_new = \<lparr>op_count = 0, nonop_count = 0, nonop_args = None, p_err = False\<rparr>"

text \<open>\<open>sizeof(Option)\<close> is 48: four pointers beside the two links, and a padded integer.\<close>

definition elem_at :: "optr \<Rightarrow> int \<Rightarrow> optr" where
  "elem_at base i = base + of_int (48 * i)"

text \<open>The first slot of \<open>buffer\<close> that holds no option.\<close>

partial_function (option) first_empty :: "optr \<Rightarrow> int \<Rightarrow> opt_heap \<Rightarrow> nat \<Rightarrow> nat comp" where
  "first_empty buffer bufmax h bufidx =
     (if bufmax < 0 \<or> int bufidx < bufmax
      then bindc (deref h (elem_at buffer (int bufidx))) (\<lambda>ob.
           if o_desc ob \<noteq> None then first_empty buffer bufmax h (bufidx + 1) else ret bufidx)
      else ret bufidx)"

text \<open>An option enters its list as the copy that starts it, or is appended to it.\<close>

definition link_option :: "optr \<Rightarrow> optr \<Rightarrow> opt \<Rightarrow> opt_heap \<Rightarrow> opt_heap comp" where
  "link_option slot b x h =
     (if o_desc x \<noteq> None then opt_append slot b h
      else bindc (deref h b) (\<lambda>y. ret (opt_assign slot y h)))"

definition store_perform ::
  "descriptor list \<Rightarrow> optr \<Rightarrow> optr \<Rightarrow> int \<Rightarrow> (parser \<times> opt_heap) perform" where
  "store_perform usage options buffer bufmax = (\<lambda>(p, h) ob.
     if bufmax < 0 \<or> int (op_count p) < bufmax then
       if op_count p = 0x7fffffff then ret ((p, h), False)
       else
         let b = elem_at buffer (int (op_count p)) in
         bindc (deref h b) (\<lambda>_.
         let h = opt_assign b ob h in
         bindc (case o_desc ob of None \<Rightarrow> fail Null_Deref | Some d \<Rightarrow> opt_desc usage d) (\<lambda>d.
         let slot = elem_at options (i32 (int (d_index d))) in
         bindc (deref h slot) (\<lambda>x.
         bindc (link_option slot b x h) (\<lambda>h.
         ret ((p\<lparr>op_count := op_count p + 1\<rparr>, h), True)))))
     else ret ((p, h), True))"

definition store_finished :: "parser \<times> opt_heap \<Rightarrow> nat \<Rightarrow> nat \<Rightarrow> parser \<times> opt_heap" where
  "store_finished = (\<lambda>(p, h) numargs first.
     (if numargs > 0 then p\<lparr>nonop_count := numargs, nonop_args := Some first\<rparr> else p, h))"

definition parse ::
  "bool \<Rightarrow> descriptor list \<Rightarrow> int \<Rightarrow> cptr option list option \<Rightarrow> optr \<Rightarrow> optr \<Rightarrow> int \<Rightarrow> bool \<Rightarrow> int \<Rightarrow>
     parser \<times> opt_heap \<Rightarrow> (cptr option list \<times> parser \<times> opt_heap) comp" where
  "parse gnu usage argc argv options buffer min_abbr_len single_minus_longopt bufmax = (\<lambda>(p, h).
     bindc (first_empty buffer bufmax h 0) (\<lambda>bufidx.
     bindc (workhorse gnu usage argc argv (store_perform usage options buffer bufmax) store_finished
              (p\<lparr>op_count := bufidx\<rparr>, h) single_minus_longopt True min_abbr_len) (\<lambda>(args, (p, h), ok).
     ret (args, p\<lparr>p_err := \<not> ok\<rparr>, h))))"

definition optionsCount :: "parser \<Rightarrow> nat" where
  "optionsCount p = op_count p"

definition nonOptionsCount :: "parser \<Rightarrow> nat" where
  "nonOptionsCount p = nonop_count p"

definition nonOption :: "cptr option list \<Rightarrow> parser \<Rightarrow> nat \<Rightarrow> cptr option comp" where
  "nonOption args p i =
     (case nonop_args p of None \<Rightarrow> fail Null_Deref | Some k \<Rightarrow> liftc (arg_at args (k + i)))"

end
