(* ===== verification/Option_Store.thy ===== *)
theory Option_Store
  imports Option_Parser
begin

text \<open>
  The arrays \<open>options\<close> and \<open>buffer\<close> of a \<open>Parser\<close>: what they hold after a sequence of options has
  been stored. Option \<open>i\<close> is in slot \<open>i\<close> of \<open>buffer\<close>; slot \<open>j\<close> of \<open>options\<close> is a copy of the first
  option with index \<open>j\<close>, linked with the later ones in \<open>buffer\<close>.
\<close>

section \<open>Addresses\<close>

text \<open>Two aligned arrays of \<open>m\<close> and \<open>n\<close> options that do not overlap.\<close>

definition layout :: "optr \<Rightarrow> nat \<Rightarrow> optr \<Rightarrow> nat \<Rightarrow> bool" where
  "layout options m buffer n \<longleftrightarrow>
     even (unat options) \<and> even (unat buffer) \<and>
     unat options + 48 * m < 2 ^ 64 \<and> unat buffer + 48 * n < 2 ^ 64 \<and>
     (unat options + 48 * m \<le> unat buffer \<or> unat buffer + 48 * n \<le> unat options)"

lemma unat_elem:
  assumes "unat base + 48 * m < 2 ^ 64" "i < m"
  shows "unat (elem_at base (int i)) = unat base + 48 * i"
proof -
  have w: "(of_int (48 * int i) :: optr) = of_nat (48 * i)" by simp
  have "48 * i < 2 ^ 64" using assms by linarith
  then have u: "unat (of_nat (48 * i) :: optr) = 48 * i" unfolding unat_of_nat by simp
  then have "unat base + unat (of_nat (48 * i) :: optr) < 2 ^ LENGTH(64)" using assms by simp
  then have "unat (base + of_nat (48 * i)) = unat base + unat (of_nat (48 * i) :: optr)"
    by (simp add: unat_add_lem [symmetric])
  then show ?thesis unfolding elem_at_def w u .
qed

lemma isTagged_odd: "isTagged p = odd (unat p)"
proof -
  have "isTagged p = bit p 0" by (simp add: isTagged_def and_one_eq odd_iff_mod_2_eq_one bit_0)
  also have "\<dots> = bit (unat p) 0" by (simp add: bit_unsigned_iff)
  finally show ?thesis by (simp add: bit_0)
qed

lemma layout_elems:
  assumes "layout options m buffer n"
  shows "j < m \<Longrightarrow> \<not> isTagged (elem_at options (int j))"
    and "i < n \<Longrightarrow> \<not> isTagged (elem_at buffer (int i))"
    and "j < m \<Longrightarrow> j' < m \<Longrightarrow> elem_at options (int j) = elem_at options (int j') \<longleftrightarrow> j = j'"
    and "i < n \<Longrightarrow> i' < n \<Longrightarrow> elem_at buffer (int i) = elem_at buffer (int i') \<longleftrightarrow> i = i'"
    and "j < m \<Longrightarrow> i < n \<Longrightarrow> elem_at options (int j) \<noteq> elem_at buffer (int i)"
proof -
  have e: "even (unat options)" "even (unat buffer)"
    and apart: "unat options + 48 * m \<le> unat buffer \<or> unat buffer + 48 * n \<le> unat options"
    and fit: "unat options + 48 * m < 2 ^ 64" "unat buffer + 48 * n < 2 ^ 64"
    using assms unfolding layout_def by blast+
  note o = unat_elem [OF fit(1)] and b = unat_elem [OF fit(2)]
  show "\<not> isTagged (elem_at options (int j))" if "j < m" using o [OF that] e by (simp add: isTagged_odd)
  show "\<not> isTagged (elem_at buffer (int i))" if "i < n" using b [OF that] e by (simp add: isTagged_odd)
  show "elem_at options (int j) = elem_at options (int j') \<longleftrightarrow> j = j'" if "j < m" "j' < m"
    using o [OF that(1)] o [OF that(2)] by (metis add_left_cancel mult_left_cancel zero_neq_numeral)
  show "elem_at buffer (int i) = elem_at buffer (int i') \<longleftrightarrow> i = i'" if "i < n" "i' < n"
    using b [OF that(1)] b [OF that(2)] by (metis add_left_cancel mult_left_cancel zero_neq_numeral)
  show "elem_at options (int j) \<noteq> elem_at buffer (int i)" if ji: "j < m" "i < n"
  proof
    assume "elem_at options (int j) = elem_at buffer (int i)"
    then have "unat options + 48 * j = unat buffer + 48 * i" using o [OF ji(1)] b [OF ji(2)] by metis
    then show False using apart ji by linarith
  qed
qed

section \<open>What the arrays hold\<close>

definition opt_valid :: "descriptor list \<Rightarrow> opt \<Rightarrow> bool" where
  "opt_valid usage ob \<longleftrightarrow> (\<exists>d. o_desc ob = Some d \<and> d < length usage \<and> d_shortopt (usage ! d) \<noteq> None)"

definition index_of :: "descriptor list \<Rightarrow> opt \<Rightarrow> nat" where
  "index_of usage ob = d_index (usage ! the (o_desc ob))"

text \<open>The positions of the options with index \<open>j\<close>.\<close>

definition occ :: "descriptor list \<Rightarrow> nat \<Rightarrow> opt list \<Rightarrow> nat list" where
  "occ usage j xs = filter (\<lambda>i. index_of usage (xs ! i) = j) [0..<length xs]"

lemma occ_snoc:
  "occ usage j (xs @ [x]) = occ usage j xs @ (if index_of usage x = j then [length xs] else [])"
proof -
  have "filter (\<lambda>i. index_of usage ((xs @ [x]) ! i) = j) [0..<length xs] = occ usage j xs"
    unfolding occ_def by (rule filter_cong) (auto simp: nth_append)
  then show ?thesis by (simp add: occ_def)
qed

lemma occ_set: "i \<in> set (occ usage j xs) \<longleftrightarrow> i < length xs \<and> index_of usage (xs ! i) = j"
  by (auto simp: occ_def)

lemma occ_distinct: "distinct (occ usage j xs)"
  by (simp add: occ_def)

lemma occ_values: "map (\<lambda>i. xs ! i) (occ usage j xs) = filter (\<lambda>x. index_of usage x = j) xs"
proof (induction xs rule: rev_induct)
  case (snoc x xs)
  have "map (\<lambda>i. (xs @ [x]) ! i) (occ usage j xs) = map (\<lambda>i. xs ! i) (occ usage j xs)"
    by (rule map_cong) (auto simp: occ_set nth_append)
  then show ?case using snoc by (simp add: occ_snoc)
qed (simp add: occ_def)

text \<open>The addresses linked in slot \<open>j\<close> of \<open>options\<close>.\<close>

definition chain :: "descriptor list \<Rightarrow> optr \<Rightarrow> optr \<Rightarrow> nat \<Rightarrow> opt list \<Rightarrow> optr list" where
  "chain usage options buffer j xs =
     elem_at options (int j) # map (\<lambda>i. elem_at buffer (int i)) (tl (occ usage j xs))"

definition slot_ok :: "descriptor list \<Rightarrow> optr \<Rightarrow> optr \<Rightarrow> nat \<Rightarrow> opt list \<Rightarrow> opt_heap \<Rightarrow> bool" where
  "slot_ok usage options buffer j xs h \<longleftrightarrow>
     (\<exists>ob. h (elem_at options (int j)) = Some ob \<and>
        (case occ usage j xs of
           [] \<Rightarrow> o_desc ob = None
         | i # is \<Rightarrow> odata ob = odata (xs ! i) \<and> olist h (chain usage options buffer j xs)))"

definition stored ::
  "descriptor list \<Rightarrow> optr \<Rightarrow> nat \<Rightarrow> optr \<Rightarrow> nat \<Rightarrow> parser \<times> opt_heap \<Rightarrow> opt list \<Rightarrow> bool" where
  "stored usage options m buffer n = (\<lambda>(p, h) xs.
     op_count p = length xs \<and> length xs \<le> n \<and>
     (\<forall>i<n. h (elem_at buffer (int i)) \<noteq> None) \<and>
     (\<forall>i<length xs. map_option odata (h (elem_at buffer (int i))) = Some (odata (xs ! i))) \<and>
     (\<forall>x\<in>set xs. opt_valid usage x \<and> index_of usage x < m) \<and>
     (\<forall>j<m. slot_ok usage options buffer j xs h))"


section \<open>Storing one more option\<close>

lemma in_chain:
  assumes "q \<in> set (chain usage options buffer j xs)"
  shows "q = elem_at options (int j) \<or>
    (\<exists>i<length xs. index_of usage (xs ! i) = j \<and> q = elem_at buffer (int i))"
  using assms list.set_sel(2) [of "occ usage j xs"] occ_set [of _ usage j xs]
  by (cases "occ usage j xs") (auto simp: chain_def)

lemma olist_frame:
  "olist h ps \<Longrightarrow> (\<And>q. q \<in> set ps \<Longrightarrow> h' q = h q) \<Longrightarrow> olist h' ps"
  unfolding olist_def by (blast intro: oseg_frame)

lemma chain_snoc_other: "index_of usage x \<noteq> j \<Longrightarrow>
   chain usage options buffer j (xs @ [x]) = chain usage options buffer j xs"
  by (simp add: chain_def occ_snoc)

lemma slot_ok_keep:
  assumes "slot_ok usage options buffer j xs h" "index_of usage x \<noteq> j"
    and "\<And>q. q \<in> set (chain usage options buffer j xs) \<Longrightarrow> h' q = h q"
  shows "slot_ok usage options buffer j (xs @ [x]) h'"
proof -
  have c: "chain usage options buffer j (xs @ [x]) = chain usage options buffer j xs"
    using assms(2) by (rule chain_snoc_other)
  have s: "h' (elem_at options (int j)) = h (elem_at options (int j))"
    by (rule assms(3)) (simp add: chain_def)
  have "i < length xs" if "occ usage j xs = i # is" for i "is" using that occ_set [of i usage j xs] by simp
  then show ?thesis
    using assms(1,2) olist_frame [of h _ h', OF _ assms(3)]
    unfolding slot_ok_def c s by (auto simp: occ_snoc nth_append split: list.splits)
qed

lemma olist_single: "\<not> isTagged q \<Longrightarrow> h q = Some (opt_init q d n a) \<Longrightarrow> olist h [q]"
  by (simp add: olist_def opt_init_def)

lemma slot_first:
  assumes "occ usage j xs = []" "index_of usage x = j" "\<not> isTagged (elem_at options (int j))"
    and "h (elem_at options (int j)) = Some (opt_init (elem_at options (int j)) (o_desc x) (o_name x) (o_arg x))"
  shows "slot_ok usage options buffer j (xs @ [x]) h"
  using assms olist_single [of _ h, OF assms(3,4)]
  by (simp add: slot_ok_def occ_snoc chain_def odata_def opt_init_def)

lemma slot_next:
  assumes "slot_ok usage options buffer j xs h" "occ usage j xs = i # is" "index_of usage x = j"
    and "olist h' (chain usage options buffer j xs @ [elem_at buffer (int (length xs))])"
    and "map_option odata (h' (elem_at options (int j))) = map_option odata (h (elem_at options (int j)))"
  shows "slot_ok usage options buffer j (xs @ [x]) h'"
proof -
  have "i < length xs" using assms(2) occ_set [of i usage j xs] by simp
  moreover have "chain usage options buffer j (xs @ [x]) =
      chain usage options buffer j xs @ [elem_at buffer (int (length xs))]"
    using assms(2,3) by (simp add: chain_def occ_snoc)
  ultimately show ?thesis using assms by (auto simp: slot_ok_def occ_snoc nth_append)
qed

lemma chain_new:
  assumes "layout options m buffer n" "j < m" "length xs < n"
  shows "elem_at buffer (int (length xs)) \<notin> set (chain usage options buffer j xs)"
proof -
  note l = layout_elems [OF assms(1)]
  have "elem_at buffer (int (length xs)) \<noteq> elem_at buffer (int i)" if "i < length xs" for i
    using l(4) [of "length xs" i] that assms(3) by simp
  then show ?thesis using in_chain l(5) [OF assms(2,3)] by metis
qed

lemma chain_apart:
  assumes "layout options m buffer n" "j < m" "j' < m" "j \<noteq> j'" "length xs < n"
    and q: "q \<in> set (chain usage options buffer j' xs)"
  shows "q \<notin> set (chain usage options buffer j xs)"
proof
  note l = layout_elems [OF assms(1)]
  have slots: "elem_at options (int j) \<noteq> elem_at options (int j')" using l(3) [OF assms(2,3)] assms(4) by simp
  have opt_buf: "elem_at options (int k) \<noteq> elem_at buffer (int i)" if "k < m" "i < length xs" for k i
    using l(5) [of k i] that assms(5) by simp
  have bufs: "i = i'" if "elem_at buffer (int i) = elem_at buffer (int i')" "i < length xs" "i' < length xs" for i i'
    using l(4) [of i i'] that assms(5) by simp
  assume "q \<in> set (chain usage options buffer j xs)"
  from in_chain [OF this] in_chain [OF q] show False
    using slots opt_buf [OF assms(2)] opt_buf [OF assms(3)] bufs assms(4)
    by (elim disjE exE conjE) metis+
qed

lemma link_option_slots:
  assumes lay: "layout options m buffer n" and len: "length xs < n"
    and j: "index_of usage ob = j" "j < m"
    and h: "h (elem_at buffer (int (length xs))) =
      Some (opt_init (elem_at buffer (int (length xs))) (o_desc ob) (o_name ob) (o_arg ob))"
    and slots: "\<And>j. j < m \<Longrightarrow> slot_ok usage options buffer j xs h"
    and valid: "\<forall>x\<in>set xs. opt_valid usage x"
    and x: "h (elem_at options (int j)) = Some x"
  shows "\<exists>h'. link_option (elem_at options (int j)) (elem_at buffer (int (length xs))) x h = ret h' \<and>
    (\<forall>j<m. slot_ok usage options buffer j (xs @ [ob]) h') \<and>
    (\<forall>q. q \<noteq> elem_at options (int j) \<longrightarrow> map_option odata (h' q) = map_option odata (h q))"
proof -
  let ?b = "elem_at buffer (int (length xs))" and ?s = "elem_at options (int j)"
  note l = layout_elems [OF lay]
  have fresh: "?b \<notin> set (chain usage options buffer j' xs)" if "j' < m" for j'
    by (rule chain_new [OF lay that len])
  have others: "q \<notin> set (chain usage options buffer j xs)"
    if "q \<in> set (chain usage options buffer j' xs)" "j' < m" "j' \<noteq> j" for q j'
    using chain_apart [OF lay j(2) that(2) _ len that(1)] that(3) by auto
  have s: "?s \<in> set (chain usage options buffer j xs)" by (simp add: chain_def)
  show ?thesis
  proof (cases "occ usage j xs")
    case Nil
    then have "o_desc x = None" using slots [OF j(2)] x by (simp add: slot_ok_def)
    let ?h' = "h(?s \<mapsto> opt_init ?s (o_desc ob) (o_name ob) (o_arg ob))"
    have "link_option ?s ?b x h = ret ?h'"
      using \<open>o_desc x = None\<close> h by (simp add: link_option_def opt_assign_def opt_init_def)
    moreover have "slot_ok usage options buffer j' (xs @ [ob]) ?h'" if "j' < m" for j'
    proof (cases "j' = j")
      case True
      then show ?thesis using slot_first [OF Nil j(1) l(1) [OF j(2)], of ?h'] by simp
    next
      case False
      have "?h' q = h q" if "q \<in> set (chain usage options buffer j' xs)" for q
        using others [OF that \<open>j' < m\<close> False] s by auto
      then show ?thesis using slot_ok_keep [OF slots [OF that], of ob ?h'] False j(1) by simp
    qed
    ultimately show ?thesis by (intro exI [of _ ?h']) simp
  next
    case (Cons i "is")
    then have "odata x = odata (xs ! i)" and ol: "olist h (chain usage options buffer j xs)"
      using slots [OF j(2)] x by (auto simp: slot_ok_def)
    moreover have "i < length xs" using Cons occ_set [of i usage j xs] by simp
    ultimately have "o_desc x \<noteq> None" using valid by (fastforce simp: odata_def opt_valid_def)
    then have lo: "link_option ?s ?b x h = opt_append ?s ?b h" by (simp add: link_option_def)
    obtain h' where h': "opt_append ?s ?b h = ret h'" "olist h' (chain usage options buffer j xs @ [?b])"
        "\<forall>q. q \<notin> set (chain usage options buffer j xs) \<longrightarrow> q \<noteq> ?b \<longrightarrow> h' q = h q"
        "\<forall>q. map_option odata (h' q) = map_option odata (h q)"
      using opt_append_heap [OF ol s fresh [OF j(2)] h l(2) [OF len]] by blast
    have "slot_ok usage options buffer j' (xs @ [ob]) h'" if "j' < m" for j'
    proof (cases "j' = j")
      case True
      then show ?thesis using slot_next [OF slots [OF j(2)] Cons j(1) h'(2)] h'(4) by simp
    next
      case False
      have "h' q = h q" if "q \<in> set (chain usage options buffer j' xs)" for q
        using h'(3) others [OF that \<open>j' < m\<close> False] fresh [OF \<open>j' < m\<close>] that by auto
      then show ?thesis using slot_ok_keep [OF slots [OF that], of ob h'] False j(1) by simp
    qed
    then show ?thesis using h' lo by auto
  qed
qed


lemma stored_assign:
  assumes "layout options m buffer n" "stored usage options m buffer n (p, h) xs" "length xs < n"
    and b: "b = elem_at buffer (int (length xs))"
  shows "j < m \<Longrightarrow> slot_ok usage options buffer j xs (opt_assign b ob h)"
    and "\<exists>y. h b = Some y"
    and "j < m \<Longrightarrow> opt_assign b ob h (elem_at options (int j)) = h (elem_at options (int j))"
proof -
  show "\<exists>y. h b = Some y" using assms(2,3) b by (auto simp: stored_def)
  show "opt_assign b ob h (elem_at options (int j)) = h (elem_at options (int j))" if "j < m"
    using layout_elems(5) [OF assms(1) that assms(3)] b by (auto simp: opt_assign_def)
  show "slot_ok usage options buffer j xs (opt_assign b ob h)" if "j < m"
  proof -
    have ok: "slot_ok usage options buffer j xs h" using assms(2) that by (simp add: stored_def)
    have fr: "opt_assign b ob h q = h q" if "q \<in> set (chain usage options buffer j xs)" for q
      using chain_new [OF assms(1) \<open>j < m\<close> assms(3)] that b by (auto simp: opt_assign_def)
    then have "opt_assign b ob h (elem_at options (int j)) = h (elem_at options (int j))"
      by (simp add: chain_def)
    then show ?thesis using ok olist_frame [of h _ "opt_assign b ob h", OF _ fr]
      unfolding slot_ok_def by (auto split: list.splits)
  qed
qed

lemma store_perform_step:
  assumes lay: "layout options m buffer n" and "m \<le> 2 ^ 31" "n \<le> 0x7fffffff" "bufmax < 0 \<or> int n \<le> bufmax"
    and st: "stored usage options m buffer n (p, h) xs"
    and ob: "opt_valid usage ob" "index_of usage ob < m" and len: "length xs < n"
  shows "\<exists>h'. store_perform usage options buffer bufmax (p, h) ob = ret ((p\<lparr>op_count := op_count p + 1\<rparr>, h'), True) \<and>
     stored usage options m buffer n (p\<lparr>op_count := op_count p + 1\<rparr>, h') (xs @ [ob])"
proof -
  let ?b = "elem_at buffer (int (length xs))" and ?j = "index_of usage ob"
  let ?s = "elem_at options (int ?j)"
  let ?h1 = "opt_assign ?b ob h"
  note l = layout_elems [OF lay]
  note a = stored_assign(1,3) [OF lay st len refl, where ob = ob] and b = stored_assign(2) [OF lay st len refl]
  have cnt: "op_count p = length xs" and old: "\<forall>i<n. h (elem_at buffer (int i)) \<noteq> None"
      "\<forall>i<length xs. map_option odata (h (elem_at buffer (int i))) = Some (odata (xs ! i))"
      "\<forall>x\<in>set xs. opt_valid usage x \<and> index_of usage x < m" "slot_ok usage options buffer ?j xs h"
    using st ob(2) by (auto simp: stored_def)
  obtain d where d: "o_desc ob = Some d" "opt_desc usage d = ret (usage ! d)" "d_index (usage ! d) = ?j"
    using ob(1) by (auto simp: opt_valid_def opt_desc_def index_of_def)
  have i: "i32 (int ?j) = int ?j" using ob(2) assms(2) by (intro i32_nonneg) auto
  obtain y where y: "h ?b = Some y" using b by blast
  obtain x where "h ?s = Some x" using old(4) by (auto simp: slot_ok_def)
  then have x: "?h1 ?s = Some x" using a(2) [OF ob(2)] by simp
  have b1: "?h1 ?b = Some (opt_init ?b (o_desc ob) (o_name ob) (o_arg ob))" by (simp add: opt_assign_def)
  obtain h' where h': "link_option ?s ?b x ?h1 = ret h'" "\<forall>j<m. slot_ok usage options buffer j (xs @ [ob]) h'"
      "\<forall>q. q \<noteq> ?s \<longrightarrow> map_option odata (h' q) = map_option odata (?h1 q)"
    using link_option_slots [OF lay len refl ob(2) b1 a(1) _ x] old(3) by blast
  have buf: "map_option odata (h' (elem_at buffer (int k))) =
      (if k = length xs then Some (odata ob) else map_option odata (h (elem_at buffer (int k))))" if "k < n" for k
    using h'(3) l(5) [OF ob(2) that] l(4) [OF that len] b1 by (auto simp: opt_assign_def odata_def opt_init_def)
  have "h' (elem_at buffer (int k)) \<noteq> None" if "k < n" for k
    using buf [OF that] old(1) that by (cases "h' (elem_at buffer (int k))") (auto split: if_splits)
  moreover have "map_option odata (h' (elem_at buffer (int k))) = Some (odata ((xs @ [ob]) ! k))"
    if "k < length (xs @ [ob])" for k
    using buf [of k] old(2) that len by (auto simp: nth_append)
  ultimately have st': "stored usage options m buffer n (p\<lparr>op_count := op_count p + 1\<rparr>, h') (xs @ [ob])"
    using cnt len h'(2) old(3) ob by (auto simp: stored_def)
  have guard: "(bufmax < 0 \<or> int (length xs) < bufmax) = True" "length xs \<noteq> 0x7fffffff" using assms(3,4) len by auto
  then have "store_perform usage options buffer bufmax (p, h) ob = ret ((p\<lparr>op_count := op_count p + 1\<rparr>, h'), True)"
    using cnt y d i x h'(1) unfolding store_perform_def Let_def prod.case cnt guard(1) if_True by simp
  then show ?thesis using st' by blast
qed


section \<open>Reading the arrays back\<close>

lemma stored_occurrences:
  assumes "layout options m buffer n" "stored usage options m buffer n (p, h) xs" "j < m"
  shows "\<exists>obs. opt_occurrences h (elem_at options (int j)) = ret obs \<and>
    map odata obs = map odata (filter (\<lambda>x. index_of usage x = j) xs)"
proof -
  let ?s = "elem_at options (int j)"
  obtain ob where ob: "h ?s = Some ob" "case occ usage j xs of [] \<Rightarrow> o_desc ob = None
      | i # is \<Rightarrow> odata ob = odata (xs ! i) \<and> olist h (chain usage options buffer j xs)"
    using assms(2,3) by (auto simp: stored_def slot_ok_def)
  have vals: "map odata (filter (\<lambda>x. index_of usage x = j) xs) = map (\<lambda>i. odata (xs ! i)) (occ usage j xs)"
    unfolding occ_values [symmetric] by simp
  show ?thesis
  proof (cases "occ usage j xs")
    case Nil
    then show ?thesis using ob vals by (simp add: opt_occurrences_def opt_ptr_def)
  next
    case (Cons i "is")
    then have o: "odata ob = odata (xs ! i)" "olist h (chain usage options buffer j xs)" using ob by auto
    have lt: "k < length xs" if "k \<in> set (i # is)" for k using that Cons occ_set [of k usage j xs] by simp
    then have "opt_valid usage (xs ! i)" using assms(2) by (auto simp: stored_def)
    then have "o_desc ob \<noteq> None" using o(1) by (auto simp: odata_def opt_valid_def)
    have w: "opt_walk h ?s = ret (map (\<lambda>q. the (h q)) (chain usage options buffer j xs))"
      using opt_walk_olist [of h "[]" ?s "map (\<lambda>i. elem_at buffer (int i)) (tl (occ usage j xs))"] o(2)
      by (simp add: chain_def)
    have "odata (the (h (elem_at buffer (int k)))) = odata (xs ! k)" if "k \<in> set is" for k
    proof -
      have "map_option odata (h (elem_at buffer (int k))) = Some (odata (xs ! k))"
        using assms(2) lt [of k] that by (simp add: stored_def)
      then show ?thesis by auto
    qed
    then have "map odata (map (\<lambda>q. the (h q)) (chain usage options buffer j xs)) =
        map (\<lambda>i. odata (xs ! i)) (occ usage j xs)"
      using Cons ob(1) o(1) by (simp add: chain_def)
    then show ?thesis using w vals ob(1) \<open>o_desc ob \<noteq> None\<close>
      by (auto simp: opt_occurrences_def opt_ptr_def)
  qed
qed

text \<open>Arrays of freshly constructed options.\<close>

definition fresh_arrays :: "optr \<Rightarrow> nat \<Rightarrow> optr \<Rightarrow> nat \<Rightarrow> opt_heap \<Rightarrow> bool" where
  "fresh_arrays options m buffer n h \<longleftrightarrow>
     (\<forall>j<m. h (elem_at options (int j)) = Some (opt_new (elem_at options (int j)))) \<and>
     (\<forall>i<n. h (elem_at buffer (int i)) = Some (opt_new (elem_at buffer (int i))))"

lemma fresh_stored:
  assumes "fresh_arrays options m buffer n h" "op_count p = 0"
  shows "stored usage options m buffer n (p, h) []"
  using assms by (auto simp: fresh_arrays_def stored_def slot_ok_def occ_def opt_new_def opt_init_def)

lemma fresh_first_empty:
  assumes "fresh_arrays options m buffer n h" "0 < n"
  shows "first_empty buffer bufmax h 0 = ret 0"
  using assms by (subst first_empty.simps) (auto simp: fresh_arrays_def opt_new_def opt_init_def)

end
