(* ===== verification/Option_Run.thy ===== *)
theory Option_Run
  imports Option_Store
begin

text \<open>
  What the parser's loop does, independently of the action it is run with. \<open>trace_perform\<close> records
  the options; the locale \<open>parse_action\<close> is the contract of an action that accepts every option as
  long as it has room, and its lemmas show that a run with such an action visits the recorded
  options and leaves the action in a state its invariant relates to them. Counting and storing
  are the two instances.
\<close>

definition trace_perform :: "opt list perform" where
  "trace_perform xs ob = ret (xs @ [ob], True)"

definition same_place :: "'a wh \<Rightarrow> 'b wh \<Rightarrow> bool" where
  "same_place w v \<longleftrightarrow> w_args w = w_args v \<and> w_pos w = w_pos v \<and> w_numargs w = w_numargs v \<and> w_nonops w = w_nonops v"

text \<open>The checks of the arguments do not depend on whether errors are to be printed.\<close>

definition quiet_checks :: "descriptor list \<Rightarrow> bool" where
  "quiet_checks usage \<longleftrightarrow> (\<forall>d\<in>set usage. \<forall>ob. d_check_arg d ob True = d_check_arg d ob False)"

section \<open>The search stays in the array\<close>

lemma usage_scan_found:
  "usage_scan stop usage i = Inr j \<Longrightarrow> i \<le> j \<and> j < length usage \<and> stop (usage ! j) = Inr True"
proof (induction stop usage i rule: usage_scan.induct)
  case (1 stop usage i)
  from "1.prems" obtain b where i: "i < length usage" "stop (usage ! i) = Inr b"
      "(if b then Inr i else usage_scan stop usage (i + 1)) = Inr j"
    unfolding usage_scan.simps [of stop usage i] by (auto simp: bindr_eq_Inr split: if_splits)
  show ?case
  proof (cases b)
    case True
    then show ?thesis using i by simp
  next
    case False
    then show ?thesis using i(3) "1.IH" [OF i(1) False] by simp
  qed
qed

lemma find_long_bound: "find_long usage mn s = Inr idx \<Longrightarrow> idx < length usage"
  by (auto simp: find_long_def Let_def bindr_eq_Inr dest!: usage_scan_found split: if_splits)

lemma find_short_bound: "find_short usage c = Inr idx \<Longrightarrow> idx < length usage"
  by (auto simp: find_short_def dest!: usage_scan_found)

lemma find_descriptor_valid:
  "find_descriptor usage idx = Inr (Some i) \<Longrightarrow> idx < length usage \<Longrightarrow>
     i < length usage \<and> d_shortopt (usage ! i) \<noteq> None"
  by (auto simp: find_descriptor_def bindr_eq_Inr dest!: usage_scan_found split: if_splits)

lemma long_part_bound:
  "long_part usage mn hm ln handle w = Inr (idx, oa, h) \<Longrightarrow> idx < length usage"
  by (auto simp: long_part_def bindr_eq_Inr dest: find_long_bound)

section \<open>Runs from the same place\<close>

lemma same_place_simps:
  assumes "same_place w v"
  shows "detached_arg hm w = detached_arg hm v" "long_part usage mn hm ln handle w = long_part usage mn hm ln handle v"
    "remaining_args w = remaining_args v"
proof -
  have eqs: "w_args w = w_args v" "w_pos w = w_pos v" "w_numargs w = w_numargs v"
    using assms by (simp_all add: same_place_def)
  show "detached_arg hm w = detached_arg hm v" "remaining_args w = remaining_args v"
    "long_part usage mn hm ln handle w = long_part usage mn hm ln handle v"
    unfolding long_part_def detached_arg_def remaining_args_def eqs by (rule refl)+
qed

lemma same_place_advance:
  assumes "same_place w v" "advance v = ret v'"
  shows "\<exists>w'. advance w = ret w' \<and> same_place w' v' \<and> w_act w' = w_act w \<and> w_act v' = w_act v"
  using assms by (auto simp: same_place_def advance_def bindc_eq_ret)

lemma same_place_skip:
  assumes "same_place w v" "skip_arg hm oa v = ret v'"
  shows "\<exists>w'. skip_arg hm oa w = ret w' \<and> same_place w' v' \<and> w_act w' = w_act w \<and> w_act v' = w_act v"
proof (cases "oa \<noteq> None \<and> hm")
  case True
  then obtain a where a: "arg_at (w_args v) (w_pos v + 1) = Inr a" "(if oa = a then advance v else ret v) = ret v'"
    using assms(2) unfolding skip_arg_def by (auto simp: bindc_eq_ret)
  then show ?thesis using assms(1) True same_place_advance [OF assms(1)]
    by (cases "oa = a") (auto simp: skip_arg_def same_place_def)
qed (use assms in \<open>auto simp: skip_arg_def same_place_def\<close>)

lemma run_trace:
  "run_action trace_perform ob h v = ret (v\<lparr>w_act := w_act v @ [ob]\<rparr>, h, True)"
  by (simp add: run_action_def trace_perform_def)

lemma advance_act: "advance v = ret v' \<Longrightarrow> w_act v' = w_act v"
  by (auto simp: advance_def bindc_eq_ret)

lemma trace_take_grows:
  assumes "take_option usage pe trace_perform hm p oa idx h v = ret (v', h', ok)"
  shows "length (w_act v) \<le> length (w_act v')"
  using assms by (rule take_option_cases) (auto simp: trace_perform_def dest: advance_act)

lemma trace_opts_grows:
  assumes "opts_loop usage mn pe trace_perform hm ln try_long h p v = ret (v', ok)"
  shows "length (w_act v) \<le> length (w_act v')"
  using opts_loop_taken [OF assms]
  by (induction rule: taken.induct) (auto dest!: trace_take_grows)


lemma opts_loop_short:
  assumes "(if \<not> handle \<or> try_long then liftc (long_part usage mn hm ln handle w) else ret (0, None, handle)) =
      ret (idx, oa, True)"
    and "snd param = b # c # r" "find_short usage c = Inr i"
    and "(if r = [] then liftc (detached_arg hm w) else ret (Some (fst param, r))) = ret oa'"
    and "take_option usage pe pf hm (fst param, c # r) oa' i True w = ret (w1, h1, ok1)"
  shows "opts_loop usage mn pe pf hm ln try_long handle param w =
    (if \<not> ok1 then ret (w1, False)
     else if h1 then opts_loop usage mn pe pf hm ln False True (fst param, c # r) w1 else ret (w1, True))"
  by (subst opts_loop.simps) (simp only: assms bindc_simps list.case prod.case if_True)

section \<open>The loop over the arguments as a relation\<close>

definition over_non_option :: "'a wh \<Rightarrow> 'a wh" where
  "over_non_option w =
     w\<lparr>w_nonops := w_nonops w + 1, w_pos := w_pos w + 1, w_numargs := dec_numargs (w_numargs w)\<rparr>"

inductive args_run :: "bool \<Rightarrow> descriptor list \<Rightarrow> bool \<Rightarrow> 'a perform \<Rightarrow> 'a wh \<Rightarrow> 'a wh \<Rightarrow> bool \<Rightarrow> bool"
  for gnu usage pe pf where
  run_end: "args_run gnu usage pe pf w w True"
| run_non_option: "gnu \<Longrightarrow> arg_at (w_args w) (w_pos w) = Inr (Some param) \<Longrightarrow> non_option (snd param) \<Longrightarrow>
    args_run gnu usage pe pf (over_non_option w) w' ok \<Longrightarrow> args_run gnu usage pe pf w w' ok"
| run_dashes: "w_pos w < length (w_args w) \<Longrightarrow> advance w = ret w' \<Longrightarrow> args_run gnu usage pe pf w w' True"
| run_refused: "taken (take_option usage pe pf) w w' False \<Longrightarrow> args_run gnu usage pe pf w w' False"
| run_option: "w_pos w < length (w_args w) \<Longrightarrow> taken (take_option usage pe pf) w w1 True \<Longrightarrow> advance w1 = ret w2 \<Longrightarrow>
    args_run gnu usage pe pf w2 w' ok \<Longrightarrow> args_run gnu usage pe pf w w' ok"

text \<open>One turn of the loop on an argument that holds options.\<close>

definition long_name :: "cptr \<Rightarrow> cptr" where
  "long_name param =
     (fst param, if hd (tl (snd param)) = CHR ''-'' then tl (tl (snd param)) else tl (snd param))"

lemma args_loop_option:
  assumes "w_numargs w \<noteq> 0" "arg_at (w_args w) (w_pos w) = Inr (Some param)"
    and "\<not> non_option (snd param)" "tl (snd param) \<noteq> ''-''"
  shows "args_loop gnu usage sml pe mn pf w =
    bindc (opts_loop usage mn pe pf (w_numargs w > 1 \<or> w_numargs w < 0) (long_name param) sml
             (hd (tl (snd param)) \<noteq> CHR ''-'') param w) (\<lambda>(w, ok).
      if \<not> ok then ret (w, False) else bindc (advance w) (args_loop gnu usage sml pe mn pf))"
  using assms by (subst args_loop.simps) (simp add: long_name_def)

lemma args_loop_run:
  "args_loop gnu usage sml pe mn pf w = ret (w', ok) \<Longrightarrow> args_run gnu usage pe pf w w' ok"
proof (induction gnu usage sml pe mn pf w arbitrary: w' ok rule: args_loop.induct)
  case (1 gnu usage sml pe mn pf w)
  note eq = args_loop.simps [of gnu usage sml pe mn pf w]
  show ?case
  proof (cases "w_numargs w = 0")
    case True
    then show ?thesis using "1.prems" eq by (simp add: run_end)
  next
    case numargs: False
    then obtain a where a: "arg_at (w_args w) (w_pos w) = Inr a" using "1.prems" eq by (auto simp: bindc_eq_ret)
    then have lt: "w_pos w < length (w_args w)" by (simp add: arg_at_def split: if_splits)
    show ?thesis
    proof (cases a)
      case None
      then show ?thesis using "1.prems" eq numargs a by (simp add: run_end)
    next
      case (Some param)
      show ?thesis
      proof (cases "non_option (snd param)")
        case True
        then show ?thesis using "1.prems" eq numargs a Some "1.IH"(1) [OF numargs _ Some True]
            run_non_option [of gnu w param] run_end
          by (cases gnu) (auto simp: over_non_option_def)
      next
        case option: False
        show ?thesis
        proof (cases "tl (snd param) = ''-''")
          case True
          then show ?thesis using "1.prems" eq numargs a Some option
            by (auto simp: bindc_eq_ret intro: run_dashes lt)
        next
          case False
          define long where "long = (hd (tl (snd param)) = CHR ''-'')"
          define name where "name = (fst param, if long then tl (tl (snd param)) else tl (snd param))"
          define hm where "hm = (w_numargs w > 1 \<or> w_numargs w < 0)"
          obtain w1 ok1 where o: "opts_loop usage mn pe pf hm name sml (\<not> long) param w = ret (w1, ok1)"
            and r: "(if \<not> ok1 then ret (w1, False) else bindc (advance w1) (args_loop gnu usage sml pe mn pf)) = ret (w', ok)"
            using "1.prems" numargs a Some option False unfolding eq long_def name_def hm_def
            by (auto simp: bindc_eq_ret Let_def)
          show ?thesis
          proof (cases ok1)
            case True
            then obtain w2 where w2: "advance w1 = ret w2" "args_loop gnu usage sml pe mn pf w2 = ret (w', ok)"
              using r by (auto simp: bindc_eq_ret)
            have "args_run gnu usage pe pf w2 w' ok"
              by (rule "1.IH"(2) [OF numargs _ Some option False long_def name_def hm_def _ refl _ w2(1)])
                (use a o True w2(2) in auto)
            then show ?thesis using opts_loop_taken [OF o] True w2(1) lt by (auto intro: run_option)
          next
            case False
            then show ?thesis using opts_loop_taken [OF o] r by (auto intro: run_refused)
          qed
        qed
      qed
    qed
  qed
qed

lemma trace_taken_grows:
  "taken (take_option usage pe trace_perform) v v' ok \<Longrightarrow> length (w_act v) \<le> length (w_act v')"
  by (induction rule: taken.induct) (auto dest!: trace_take_grows)

lemma trace_args_grows:
  assumes "args_loop gnu usage sml pe mn trace_perform v = ret (v', ok)"
  shows "length (w_act v) \<le> length (w_act v')"
  using args_loop_run [OF assms]
proof (induction rule: args_run.induct)
  case (run_option w w1 w2 w' ok)
  then show ?case using trace_taken_grows [OF run_option.hyps(2)] advance_act [OF run_option.hyps(3)] by simp
qed (auto simp: over_non_option_def dest: advance_act trace_taken_grows)

text \<open>Without the GNU mode no argument moves.\<close>

lemma advance_posix: "advance w = ret w' \<Longrightarrow> w_nonops w = 0 \<Longrightarrow> w_args w' = w_args w \<and> w_nonops w' = 0"
  by (auto simp: advance_def bindc_eq_ret)

lemma taken_posix:
  "taken (take_option usage pe pf) w w' ok \<Longrightarrow> w_nonops w = 0 \<Longrightarrow> w_args w' = w_args w \<and> w_nonops w' = 0"
proof (induction rule: taken.induct)
  case (taken_last hm p oa i handle w w' h' ok)
  then show ?case by (elim take_option_cases) (auto dest: advance_posix)
next
  case (taken_step hm p oa i w w1 w' ok)
  from taken_step.hyps(1) taken_step.prems have "w_args w1 = w_args w \<and> w_nonops w1 = 0"
    by (elim take_option_cases) (auto dest: advance_posix)
  then show ?case using taken_step.IH by simp
qed simp

lemma args_run_posix:
  "args_run False usage pe pf w w' ok \<Longrightarrow> w_nonops w = 0 \<Longrightarrow> w_args w' = w_args w \<and> w_nonops w' = 0"
proof (induction rule: args_run.induct)
  case (run_option w w1 w2 w' ok)
  then show ?case using taken_posix [OF run_option.hyps(2)] advance_posix [OF run_option.hyps(3)] by simp
qed (auto dest: advance_posix taken_posix)

section \<open>Actions\<close>

locale parse_action =
  fixes usage :: "descriptor list"
    and pf :: "'a perform"
    and inv :: "'a \<Rightarrow> opt list \<Rightarrow> bool"
    and room :: nat
  assumes accepts:
    "inv a xs \<Longrightarrow> opt_valid usage ob \<Longrightarrow> length xs < room \<Longrightarrow>
       \<exists>a'. pf a ob = ret (a', True) \<and> inv a' (xs @ [ob])"
begin

lemma run_action_accepts:
  assumes "same_place w v" "inv (w_act w) (w_act v)" "opt_valid usage ob"
    and "run_action trace_perform ob h v = ret (v', h', ok)" "length (w_act v') \<le> room"
  shows "\<exists>w'. run_action pf ob h w = ret (w', h', ok) \<and> same_place w' v' \<and> inv (w_act w') (w_act v')"
proof -
  have v': "v' = v\<lparr>w_act := w_act v @ [ob]\<rparr>" "h' = h" "ok" using assms(4) by (simp_all add: run_trace)
  then obtain a where "pf (w_act w) ob = ret (a, True)" "inv a (w_act v @ [ob])"
    using accepts [OF assms(2,3)] assms(5) by auto
  then show ?thesis using v' assms(1)
    by (intro exI [of _ "w\<lparr>w_act := a\<rparr>"]) (simp add: run_action_def same_place_def)
qed

lemma take_option_accepts:
  assumes "quiet_checks usage" "idx < length usage" "same_place w v" "inv (w_act w) (w_act v)"
    and t: "take_option usage pe trace_perform hm p oa idx h v = ret (v', h', ok)" "length (w_act v') \<le> room"
  shows "\<exists>w'. take_option usage pe' pf hm p oa idx h w = ret (w', h', ok) \<and> same_place w' v' \<and>
    inv (w_act w') (w_act v')"
proof -
  obtain d where d: "find_descriptor usage idx = Inr d"
    using t(1) by (auto simp: take_option_def bindc_eq_ret)
  show ?thesis
  proof (cases d)
    case None
    then show ?thesis using t d assms(3,4) by (simp add: take_option_def)
  next
    case (Some i)
    let ?ob = "opt_init local_option (Some i) (Some p) oa"
    have i: "i < length usage" "d_shortopt (usage ! i) \<noteq> None"
      using find_descriptor_valid [of usage idx i] d Some assms(2) by auto
    then have valid: "opt_valid usage ?ob" "opt_valid usage (?ob\<lparr>o_arg := None\<rparr>)"
      by (auto simp: opt_valid_def opt_init_def)
    have check: "d_check_arg (usage ! i) ?ob pe' = d_check_arg (usage ! i) ?ob pe"
      using assms(1) i(1) unfolding quiet_checks_def by (metis (full_types) nth_mem)
    show ?thesis
    proof (cases "d_check_arg (usage ! i) ?ob pe")
      case ARG_OK
      then obtain v1 where v1: "skip_arg hm oa v = ret v1"
          "run_action trace_perform ?ob False v1 = ret (v', h', ok)"
        using t d Some by (auto simp: take_option_def Let_def bindc_eq_ret)
      then obtain w1 where w1: "skip_arg hm oa w = ret w1" "same_place w1 v1" "inv (w_act w1) (w_act v1)"
        using same_place_skip [OF assms(3) v1(1)] assms(4) by auto
      show ?thesis
        using run_action_accepts [OF w1(2,3) valid(1) v1(2) t(2)] w1(1) d Some ARG_OK check
        by (auto simp: take_option_def Let_def)
    next
      case ARG_ILLEGAL
      then show ?thesis using t d Some check assms(3,4) by (simp add: take_option_def Let_def)
    next
      case ARG_IGNORE
      then show ?thesis using t d Some check run_action_accepts [OF assms(3,4) valid(2) _ t(2)]
        by (simp add: take_option_def Let_def)
    next
      case ARG_NONE
      then show ?thesis using t d Some check run_action_accepts [OF assms(3,4) valid(2) _ t(2)]
        by (simp add: take_option_def Let_def)
    qed
  qed
qed

lemma opts_loop_accepts:
  assumes "quiet_checks usage"
  shows "opts_loop usage mn pe trace_perform hm ln try_long handle param v = ret (v', ok) \<Longrightarrow>
    same_place w v \<Longrightarrow> inv (w_act w) (w_act v) \<Longrightarrow> length (w_act v') \<le> room \<Longrightarrow>
    \<exists>w'. opts_loop usage mn pe' pf hm ln try_long handle param w = ret (w', ok) \<and> same_place w' v' \<and>
      inv (w_act w') (w_act v')"
proof (induction "length (snd param)" arbitrary: param try_long handle v w rule: less_induct)
  case less
  note ta = take_option_accepts [OF assms, where pe = pe and pe' = pe']
  note same = same_place_simps [OF less.prems(2)]
  obtain idx oa h where l: "(if \<not> handle \<or> try_long then liftc (long_part usage mn hm ln handle v)
      else ret (0, None, handle)) = ret (idx, oa, h)"
    using less.prems(1) by (subst (asm) opts_loop.simps) (auto simp only: bindc_eq_ret)
  show ?case
  proof (cases h)
    case False
    then have idx: "idx < length usage" using l by (auto split: if_splits dest: long_part_bound)
    obtain h' where "take_option usage pe trace_perform hm param oa idx False v = ret (v', h', ok)"
      using less.prems(1) l False by (subst (asm) opts_loop.simps) (auto simp: bindc_eq_ret)
    from ta [OF idx less.prems(2,3) this less.prems(4)] show ?thesis
      using l False by (subst opts_loop.simps) (auto simp: same)
  next
    case True
    show ?thesis
    proof (cases "length (snd param) < 2")
      case short: True
      then show ?thesis using less.prems l True
        by (subst opts_loop.simps, subst (asm) opts_loop.simps)
          (auto simp: same length_Suc_conv less_2_cases_iff split: list.splits)
    next
      case False
      then obtain b c r where p: "snd param = b # c # r"
        by (cases "snd param"; cases "tl (snd param)") auto
      let ?p = "(fst param, c # r)"
      obtain i oa' v1 h1 ok1 where i: "find_short usage c = Inr i"
        and oa': "(if r = [] then liftc (detached_arg hm v) else ret (Some (fst param, r))) = ret oa'"
        and t: "take_option usage pe trace_perform hm ?p oa' i True v = ret (v1, h1, ok1)"
        and rest: "(if \<not> ok1 then ret (v1, False) else if h1
          then opts_loop usage mn pe trace_perform hm ln False True ?p v1 else ret (v1, True)) = ret (v', ok)"
        using less.prems(1) l True p
        by (subst (asm) opts_loop.simps) (auto simp only: bindc_eq_ret bindc_simps list.case if_True prod.case)
      have "length (w_act v1) \<le> length (w_act v')"
        using rest trace_opts_grows by (cases ok1; cases h1) auto
      then obtain w1 where w1: "take_option usage pe' pf hm ?p oa' i True w = ret (w1, h1, ok1)" "same_place w1 v1"
          "inv (w_act w1) (w_act v1)"
        using ta [OF find_short_bound [OF i] less.prems(2,3) t] less.prems(4) by auto
      have "opts_loop usage mn pe' pf hm ln try_long handle param w = (if \<not> ok1 then ret (w1, False)
          else if h1 then opts_loop usage mn pe' pf hm ln False True ?p w1 else ret (w1, True))"
        using l oa' \<open>h\<close> w1(1) by (intro opts_loop_short [OF _ p i]) (simp_all only: same)
      moreover have "\<exists>w'. opts_loop usage mn pe' pf hm ln False True ?p w1 = ret (w', ok) \<and> same_place w' v' \<and>
          inv (w_act w') (w_act v')" if "ok1" "h1"
        using that rest less.hyps [of ?p False True v1 w1] p w1(2,3) less.prems(4) by simp
      ultimately show ?thesis using rest w1 by (cases ok1; cases h1) auto
    qed
  qed
qed

lemma args_loop_accepts:
  assumes "quiet_checks usage"
  shows "args_loop gnu usage sml pe mn trace_perform v = ret (v', ok) \<Longrightarrow>
    same_place w v \<Longrightarrow> inv (w_act w) (w_act v) \<Longrightarrow> length (w_act v') \<le> room \<Longrightarrow>
    \<exists>w'. args_loop gnu usage sml pe' mn pf w = ret (w', ok) \<and> same_place w' v' \<and> inv (w_act w') (w_act v')"
proof (induction "length (w_args v) - w_pos v" arbitrary: v w rule: less_induct)
  case less
  note eq = args_loop.simps [of gnu usage sml pe mn trace_perform v] args_loop.simps [of gnu usage sml pe' mn pf w]
  have pl: "w_args w = w_args v" "w_pos w = w_pos v" "w_numargs w = w_numargs v" "w_nonops w = w_nonops v"
    using less.prems(2) by (auto simp: same_place_def)
  show ?case
  proof (cases "w_numargs v = 0")
    case True
    then show ?thesis using less.prems eq pl by simp
  next
    case numargs: False
    then obtain a where a: "arg_at (w_args v) (w_pos v) = Inr a" using less.prems(1) eq by (auto simp: bindc_eq_ret)
    then have lt: "w_pos v < length (w_args v)" by (simp add: arg_at_def split: if_splits)
    show ?thesis
    proof (cases a)
      case None
      then show ?thesis using less.prems eq numargs a pl by simp
    next
      case (Some param)
      show ?thesis
      proof (cases "non_option (snd param)")
        case True
        let ?v = "over_non_option v" and ?w = "over_non_option w"
        have "same_place ?w ?v" "inv (w_act ?w) (w_act ?v)" "length (w_args ?v) - w_pos ?v < length (w_args v) - w_pos v"
          using pl less.prems(3) lt by (simp_all add: over_non_option_def same_place_def)
        then have ih: "args_loop gnu usage sml pe mn trace_perform ?v = ret (v', ok) \<Longrightarrow>
            \<exists>w'. args_loop gnu usage sml pe' mn pf ?w = ret (w', ok) \<and> same_place w' v' \<and> inv (w_act w') (w_act v')"
          using less.hyps less.prems(4) by blast
        show ?thesis using less.prems eq numargs a Some True pl ih
          by (cases gnu) (simp_all add: over_non_option_def)
      next
        case option: False
        show ?thesis
        proof (cases "tl (snd param) = ''-''")
          case True
          then have "advance v = ret v'" "ok" using less.prems(1) eq numargs a Some option by (auto simp: bindc_eq_ret)
          then show ?thesis using same_place_advance [OF less.prems(2)] eq numargs a Some option True pl less.prems(3)
            by fastforce
        next
          case False
          let ?hm = "w_numargs v > 1 \<or> w_numargs v < 0" and ?h = "hd (tl (snd param)) \<noteq> CHR ''-''"
          have bv: "args_loop gnu usage sml pe mn trace_perform v =
              bindc (opts_loop usage mn pe trace_perform ?hm (long_name param) sml ?h param v) (\<lambda>(w, ok).
                if \<not> ok then ret (w, False) else bindc (advance w) (args_loop gnu usage sml pe mn trace_perform))"
            using args_loop_option [of v param] numargs a Some option False by simp
          have bw: "args_loop gnu usage sml pe' mn pf w =
              bindc (opts_loop usage mn pe' pf ?hm (long_name param) sml ?h param w) (\<lambda>(w, ok).
                if \<not> ok then ret (w, False) else bindc (advance w) (args_loop gnu usage sml pe' mn pf))"
            using args_loop_option [of w param] numargs a Some option False pl by simp
          obtain v1 ok1 where v1: "opts_loop usage mn pe trace_perform ?hm (long_name param) sml ?h param v = ret (v1, ok1)"
            and r: "(if \<not> ok1 then ret (v1, False) else bindc (advance v1) (args_loop gnu usage sml pe mn trace_perform))
              = ret (v', ok)"
            using less.prems(1) unfolding bv by (auto simp: bindc_eq_ret)
          note sim = opts_loop_accepts [OF assms v1 less.prems(2,3), of pe']
          show ?thesis
          proof (cases ok1)
            case False
            then show ?thesis using sim r less.prems(4) unfolding bw by auto
          next
            case True
            then obtain v2 where v2: "advance v1 = ret v2" "args_loop gnu usage sml pe mn trace_perform v2 = ret (v', ok)"
              using r by (auto simp: bindc_eq_ret)
            have "length (w_act v1) \<le> room"
              using trace_args_grows [OF v2(2)] advance_act [OF v2(1)] less.prems(4) by simp
            then obtain w1 where w1: "opts_loop usage mn pe' pf ?hm (long_name param) sml ?h param w = ret (w1, ok1)"
                "same_place w1 v1" "inv (w_act w1) (w_act v1)" using sim by auto
            then obtain w2 where w2: "advance w1 = ret w2" "same_place w2 v2" "inv (w_act w2) (w_act v2)"
              using same_place_advance [OF w1(2) v2(1)] by auto
            have "length (w_args v2) - w_pos v2 < length (w_args v) - w_pos v"
              using opts_loop_ahead [OF v1] advance_ahead [OF v2(1)] lt by (auto simp: ahead_def)
            from less.hyps [OF this v2(2) w2(2,3) less.prems(4)] show ?thesis
              unfolding bw using w1(1) w2(1) True by simp
          qed
        qed
      qed
    qed
  qed
qed

lemma workhorse_accepts:
  assumes "quiet_checks usage" "inv a []"
    and v: "workhorse gnu usage numargs args trace_perform (\<lambda>obs n k. obs) [] sml pe mn = ret (xs, obs, ok)"
    and "length obs \<le> room"
  shows "\<exists>a' n k. inv a' obs \<and>
    workhorse gnu usage numargs args pf fin a sml pe' mn = ret (xs, if ok then fin a' n k else a', ok)"
proof -
  let ?st = "\<lambda>act. \<lparr>w_args = (case args of None \<Rightarrow> [] | Some xs \<Rightarrow> xs), w_pos = 0,
    w_numargs = (if args = None then 0 else numargs), w_nonops = 0, w_act = act\<rparr>"
  obtain v' ok1 where v': "args_loop gnu usage sml pe mn trace_perform (?st []) = ret (v', ok1)"
    and r: "(if \<not> ok1 then ret (w_args v', w_act v', False) else bindc (liftc (remaining_args v'))
      (\<lambda>n. ret (w_args v', w_act v', True))) = ret (xs, obs, ok)"
    using v by (auto simp: workhorse_def bindc_eq_ret)
  have obs: "xs = w_args v'" "w_act v' = obs" "ok1 = ok" using r by (auto simp: bindc_eq_ret split: if_splits)
  have "same_place (?st a) (?st [])" by (simp add: same_place_def)
  then obtain w' where w': "args_loop gnu usage sml pe' mn pf (?st a) = ret (w', ok)" "same_place w' v'"
      "inv (w_act w') obs"
    using args_loop_accepts [OF assms(1) v', of "?st a" pe'] assms(2,4) obs by auto
  have a: "w_args w' = xs" using w'(2) obs by (simp add: same_place_def)
  have rem: "\<exists>n. remaining_args w' = Inr n" if ok
    using r that obs same_place_simps(3) [OF w'(2)] by (auto simp: bindc_eq_ret)
  show ?thesis
  proof (cases ok)
    case True
    then obtain n where "remaining_args w' = Inr n" using rem by blast
    then show ?thesis using w' a True
      by (intro exI [of _ "w_act w'"] exI [of _ "n + w_nonops w'"] exI [of _ "w_pos w' - w_nonops w'"])
        (simp add: workhorse_def)
  next
    case False
    then show ?thesis using w' a by (auto simp: workhorse_def)
  qed
qed

end

section \<open>The loop returns\<close>

text \<open>The array of descriptors ends with an entry of null pointers, the only one that has any.\<close>

definition usage_ok :: "descriptor list \<Rightarrow> bool" where
  "usage_ok usage \<longleftrightarrow>
     usage \<noteq> [] \<and> d_shortopt (last usage) = None \<and> d_longopt (last usage) = None \<and>
     (\<forall>d\<in>set (butlast usage). d_shortopt d \<noteq> None \<and> d_longopt d \<noteq> None)"

lemma last_entry: "i + 1 = length xs \<Longrightarrow> last xs = xs ! i"
  by (metis add_diff_cancel_right' last_conv_nth length_0_conv add_is_0 one_neq_zero)

lemma usage_scan_total:
  assumes "\<forall>d\<in>set usage. \<exists>b. stop d = Inr b" "stop (last usage) = Inr True"
  shows "i < length usage \<Longrightarrow> \<exists>j. usage_scan stop usage i = Inr j"
proof (induction "length usage - i" arbitrary: i)
  case (Suc n)
  then obtain b where b: "stop (usage ! i) = Inr b" using assms(1) by force
  have "b" if "i + 1 = length usage" using that b assms(2) last_entry [OF that] by simp
  then show ?case using Suc b by (subst usage_scan.simps) (cases "i + 1 = length usage"; auto)
qed simp

lemma usage_ok_entry:
  assumes "usage_ok usage" "i < length usage"
  shows "d_shortopt (usage ! i) = None \<longleftrightarrow> i + 1 = length usage"
    and "d_longopt (usage ! i) = None \<longleftrightarrow> i + 1 = length usage"
proof -
  have "usage ! i \<in> set (butlast usage)" if "i + 1 \<noteq> length usage"
    using that assms(2) nth_butlast [of i usage] nth_mem [of i "butlast usage"] by simp
  moreover have "usage ! i = last usage" if "i + 1 = length usage"
    using last_entry [OF that] by simp
  ultimately show "d_shortopt (usage ! i) = None \<longleftrightarrow> i + 1 = length usage"
    "d_longopt (usage ! i) = None \<longleftrightarrow> i + 1 = length usage"
    using assms(1) unfolding usage_ok_def by metis+
qed

lemma find_long_total:
  assumes "usage_ok usage"
  shows "\<exists>idx. find_long usage mn s = Inr idx"
proof -
  have ne: "0 < length usage" using assms by (simp add: usage_ok_def)
  have scan: "\<exists>j. usage_scan (\<lambda>d. Inr (case d_longopt d of None \<Rightarrow> True | Some l \<Rightarrow> f l)) usage i = Inr j"
    if "i < length usage" for f i
    using that assms by (intro usage_scan_total) (simp_all add: usage_ok_def)
  have next_entry: "j + 1 < length usage" if "j < length usage" "d_longopt (usage ! j) = Some l" for j l
    using usage_ok_entry(2) [OF assms that(1)] that by simp
  let ?exact = "\<lambda>l. streq l s" and ?abbr = "\<lambda>l. streqabbr l s mn"
  obtain j0 j1 where j: "usage_scan (\<lambda>d. Inr (case d_longopt d of None \<Rightarrow> True | Some l \<Rightarrow> ?exact l)) usage 0 = Inr j0"
      "usage_scan (\<lambda>d. Inr (case d_longopt d of None \<Rightarrow> True | Some l \<Rightarrow> ?abbr l)) usage 0 = Inr j1"
    using scan [OF ne, of ?exact] scan [OF ne, of ?abbr] by blast
  have "j1 < length usage" using usage_scan_found [OF j(2)] by simp
  then have "\<exists>j2. usage_scan (\<lambda>d. Inr (case d_longopt d of None \<Rightarrow> True | Some l \<Rightarrow> ?abbr l)) usage (j1 + 1) = Inr j2"
    if "d_longopt (usage ! j1) \<noteq> None"
    using that next_entry scan [of "j1 + 1" ?abbr] by blast
  then show ?thesis using j unfolding find_long_def Let_def by (cases "d_longopt (usage ! j1)") (auto split: if_splits)
qed

lemma find_short_total: "usage_ok usage \<Longrightarrow> \<exists>idx. find_short usage c = Inr idx"
  unfolding find_short_def by (intro usage_scan_total) (simp_all add: usage_ok_def)

lemma find_descriptor_total:
  assumes "usage_ok usage"
  shows "\<exists>d. find_descriptor usage idx = Inr d"
proof -
  let ?stop = "\<lambda>d. case d_shortopt d of None \<Rightarrow> Inr True | Some s \<Rightarrow> if s \<noteq> [] then Inr False
    else (case d_longopt d of None \<Rightarrow> Inl Null_Deref | Some l \<Rightarrow> Inr (l = []))"
  have "\<exists>b. ?stop d = Inr b" if "d \<in> set usage" for d
  proof -
    obtain i where i: "i < length usage" "usage ! i = d" using \<open>d \<in> set usage\<close> by (auto simp: in_set_conv_nth)
    have "d_longopt d \<noteq> None" if "d_shortopt d \<noteq> None"
      using usage_ok_entry [OF assms i(1)] that i(2) by simp
    then show ?thesis by (cases "d_shortopt d"; cases "d_longopt d") auto
  qed
  then have "\<exists>j. usage_scan ?stop usage 0 = Inr j"
    using assms by (intro usage_scan_total) (auto simp: usage_ok_def)
  then show ?thesis unfolding find_descriptor_def by auto
qed


text \<open>The number of remaining arguments is right, and the non-options lie before the position.\<close>

definition wh_ok :: "'a wh \<Rightarrow> bool" where
  "wh_ok w \<longleftrightarrow> 0 \<le> w_numargs w \<and> w_nonops w \<le> w_pos w \<and> w_pos w + nat (w_numargs w) \<le> length (w_args w)"

lemma shift_total: "n \<le> pos \<Longrightarrow> pos < length xs \<Longrightarrow> \<exists>ys. shift pos n xs = Inr ys"
  by (induction pos n xs rule: shift.induct) auto

lemma advance_total:
  assumes "wh_ok w" "0 < w_numargs w"
  shows "\<exists>w'. advance w = ret w' \<and> wh_ok w' \<and> w_numargs w' = w_numargs w - 1 \<and> w_pos w' = w_pos w + 1 \<and>
    length (w_args w') = length (w_args w)"
proof -
  have "w_pos w < length (w_args w)" using assms by (auto simp: wh_ok_def)
  then obtain ys where "shift (w_pos w) (w_nonops w) (w_args w) = Inr ys"
    using shift_total [of "w_nonops w" "w_pos w"] assms by (auto simp: wh_ok_def)
  then show ?thesis using assms length_shift [of "w_pos w" "w_nonops w" "w_args w" ys]
    by (auto simp: advance_def wh_ok_def dec_numargs_def)
qed

lemma detached_total:
  assumes "wh_ok w" "hm \<Longrightarrow> 1 < w_numargs w"
  shows "\<exists>a. detached_arg hm w = Inr a" and "hm \<Longrightarrow> \<exists>a. arg_at (w_args w) (w_pos w + 1) = Inr a"
  using assms by (auto simp: detached_arg_def arg_at_def wh_ok_def)

lemma skip_arg_total:
  assumes "wh_ok w" "hm \<Longrightarrow> 1 < w_numargs w" "0 < w_numargs w"
  shows "\<exists>w'. skip_arg hm oa w = ret w' \<and> wh_ok w' \<and> 0 < w_numargs w'"
proof (cases "oa \<noteq> None \<and> hm")
  case True
  then obtain a where a: "arg_at (w_args w) (w_pos w + 1) = Inr a" using detached_total [OF assms(1,2)] by auto
  obtain w' where "advance w = ret w'" "wh_ok w'" "w_numargs w' = w_numargs w - 1"
    using advance_total [OF assms(1,3)] by auto
  then show ?thesis using a True assms by (auto simp: skip_arg_def)
qed (use assms in \<open>auto simp: skip_arg_def\<close>)

lemma take_option_total:
  assumes "usage_ok usage" "wh_ok w" "hm \<Longrightarrow> 1 < w_numargs w" "0 < w_numargs w"
  shows "\<exists>w' h' ok. take_option usage pe trace_perform hm p oa idx h w = ret (w', h', ok) \<and>
    wh_ok w' \<and> 0 < w_numargs w' \<and> (h' \<longrightarrow> same_place w' w)"
proof -
  obtain d where d: "find_descriptor usage idx = Inr d" using find_descriptor_total [OF assms(1)] by blast
  obtain w1 where w1: "skip_arg hm oa w = ret w1" "wh_ok w1" "0 < w_numargs w1"
    using skip_arg_total [OF assms(2-4)] by blast
  have [simp]: "wh_ok (v\<lparr>w_act := a\<rparr>) = wh_ok v" for v :: "opt list wh" and a by (simp add: wh_ok_def)
  show ?thesis
  proof (cases d)
    case None
    then show ?thesis using d assms by (auto simp: take_option_def same_place_def)
  next
    case (Some i)
    then show ?thesis using d w1 assms
      by (cases "d_check_arg (usage ! i) (opt_init local_option (Some i) (Some p) oa) pe")
        (auto simp: take_option_def Let_def run_trace same_place_def)
  qed
qed

lemma opts_loop_total:
  assumes "usage_ok usage"
  shows "wh_ok w \<Longrightarrow> (hm \<Longrightarrow> 1 < w_numargs w) \<Longrightarrow> 0 < w_numargs w \<Longrightarrow> snd param \<noteq> [] \<Longrightarrow>
    \<exists>w' ok. opts_loop usage mn pe trace_perform hm ln try_long handle param w = ret (w', ok) \<and> wh_ok w' \<and> 0 < w_numargs w'"
proof (induction "length (snd param)" arbitrary: param try_long handle w rule: less_induct)
  case less
  note tt = take_option_total [where hm = hm and pe = pe, OF assms less.prems(1-3)]
  obtain a where a: "detached_arg hm w = Inr a" using detached_total [OF less.prems(1,2)] by blast
  obtain idx oa h where l: "(if \<not> handle \<or> try_long then liftc (long_part usage mn hm ln handle w)
      else ret (0, None, handle)) = ret (idx, oa, h)"
    using find_long_total [OF assms, of mn "snd ln"] a
    by (cases "attached_arg ln"; cases "\<not> handle \<or> try_long") (auto simp: long_part_def)
  show ?case
  proof (cases h)
    case False
    then show ?thesis using l tt [where p = param and oa = oa and idx = idx and h = False] by (subst opts_loop.simps) auto
  next
    case True
    show ?thesis
    proof (cases "length (snd param) < 2")
      case short: True
      then show ?thesis using less.prems l True
        by (subst opts_loop.simps) (auto simp: length_Suc_conv less_2_cases_iff split: list.splits)
    next
      case False
      then obtain b c r where p: "snd param = b # c # r"
        by (cases "snd param"; cases "tl (snd param)") auto
      obtain i where i: "find_short usage c = Inr i" using find_short_total [OF assms] by blast
      obtain oa' where oa': "(if r = [] then liftc (detached_arg hm w) else ret (Some (fst param, r))) = ret oa'"
        using a by (cases "r = []") auto
      obtain w1 h1 ok1 where w1: "take_option usage pe trace_perform hm (fst param, c # r) oa' i True w = ret (w1, h1, ok1)"
          "wh_ok w1" "0 < w_numargs w1" "h1 \<longrightarrow> same_place w1 w"
        using tt by blast
      have "\<exists>w' ok. opts_loop usage mn pe trace_perform hm ln False True (fst param, c # r) w1 = ret (w', ok) \<and>
          wh_ok w' \<and> 0 < w_numargs w'" if h1
        using that w1 p less.prems(2) by (intro less.hyps) (auto simp: same_place_def)
      then show ?thesis using opts_loop_short [OF _ p i oa' w1(1)] l True w1(2,3) by (cases ok1; cases h1) auto
    qed
  qed
qed

lemma args_loop_total:
  assumes "usage_ok usage"
  shows "wh_ok w \<Longrightarrow> \<exists>w' ok. args_loop gnu usage sml pe mn trace_perform w = ret (w', ok) \<and> wh_ok w'"
proof (induction "length (w_args w) - w_pos w" arbitrary: w rule: less_induct)
  case less
  note eq = args_loop.simps [of gnu usage sml pe mn trace_perform w]
  show ?case
  proof (cases "w_numargs w = 0")
    case True
    then show ?thesis using less.prems eq by auto
  next
    case False
    then have pos: "0 < w_numargs w" "w_pos w < length (w_args w)" using less.prems by (auto simp: wh_ok_def)
    then have at: "arg_at (w_args w) (w_pos w) = Inr (w_args w ! w_pos w)" by (simp add: arg_at_def)
    obtain w2 where adv: "advance w = ret w2" "wh_ok w2" using advance_total [OF less.prems pos(1)] by blast
    have over: "wh_ok (over_non_option w)" "length (w_args (over_non_option w)) - w_pos (over_non_option w) <
        length (w_args w) - w_pos w"
      using less.prems pos by (auto simp: wh_ok_def over_non_option_def dec_numargs_def)
    show ?thesis
    proof (cases "\<exists>param. w_args w ! w_pos w = Some param \<and> \<not> non_option (snd param) \<and> tl (snd param) \<noteq> ''-''")
      case False
      then show ?thesis using less.prems eq at pos(1) adv less.hyps [OF over(2,1)]
        by (cases "w_args w ! w_pos w") (auto simp: over_non_option_def)
    next
      case True
      then obtain param where p: "w_args w ! w_pos w = Some param" "\<not> non_option (snd param)" "tl (snd param) \<noteq> ''-''"
        by blast
      let ?hm = "w_numargs w > 1 \<or> w_numargs w < 0"
      obtain w1 ok1 where w1: "opts_loop usage mn pe trace_perform ?hm (long_name param) sml
          (hd (tl (snd param)) \<noteq> CHR ''-'') param w = ret (w1, ok1)" "wh_ok w1" "0 < w_numargs w1"
        using opts_loop_total [OF assms less.prems _ pos(1), of ?hm param mn pe "long_name param" sml
            "hd (tl (snd param)) \<noteq> CHR ''-''"] p(2) pos(1) by (auto simp: non_option_def)
      obtain w3 where w3: "advance w1 = ret w3" "wh_ok w3" "w_pos w3 = w_pos w1 + 1" "length (w_args w3) = length (w_args w1)"
        using advance_total [OF w1(2,3)] by blast
      have "length (w_args w3) - w_pos w3 < length (w_args w) - w_pos w"
        using opts_loop_ahead [OF w1(1)] w3 pos by (auto simp: ahead_def)
      from less.hyps [OF this w3(2)] show ?thesis
        using args_loop_option [of w param gnu usage sml pe mn trace_perform] at p pos(1) w1 w3(1) by (cases ok1) auto
    qed
  qed
qed

lemma workhorse_total:
  assumes "usage_ok usage" "0 \<le> argc" "nat argc \<le> length args"
  shows "\<exists>xs obs ok. workhorse gnu usage argc (Some args) trace_perform (\<lambda>obs n k. obs) [] sml pe mn = ret (xs, obs, ok)"
proof -
  let ?w = "\<lparr>w_args = args, w_pos = 0, w_numargs = argc, w_nonops = 0, w_act = []\<rparr>"
  have "wh_ok ?w" using assms by (simp add: wh_ok_def)
  then obtain w' ok where w': "args_loop gnu usage sml pe mn trace_perform ?w = ret (w', ok)" "wh_ok w'"
    using args_loop_total [OF assms(1)] by blast
  then have "\<exists>n. remaining_args w' = Inr n" by (auto simp: remaining_args_def wh_ok_def arg_at_def)
  then show ?thesis using w' by (cases ok) (auto simp: workhorse_def)
qed

end
