(* ===== verification/Option_Props.thy ===== *)
theory Option_Props
  imports Option_Run
begin

text \<open>
  Properties of the command line parser: what a parse leaves in the arrays, that the sizes
  \<open>Stats\<close> computes are enough, and how the GNU mode reorders the arguments.
\<close>

section \<open>The two actions\<close>

interpretation counting: parse_action usage count_perform "\<lambda>n xs. n = n0 + length xs" "0x7fffffff - n0"
  for usage :: "descriptor list" and n0 :: nat
  by unfold_locales (auto simp: count_perform_def)

text \<open>Arrays of \<open>m\<close> and \<open>n\<close> options that are fit for the descriptors.\<close>

definition arrays_ok :: "descriptor list \<Rightarrow> optr \<Rightarrow> nat \<Rightarrow> optr \<Rightarrow> nat \<Rightarrow> int \<Rightarrow> bool" where
  "arrays_ok usage options m buffer n bufmax \<longleftrightarrow>
     layout options m buffer n \<and> m \<le> 2 ^ 31 \<and> n \<le> 0x7fffffff \<and> (bufmax < 0 \<or> int n \<le> bufmax) \<and>
     (\<forall>d\<in>set usage. d_shortopt d \<noteq> None \<longrightarrow> d_index d < m)"

lemma store_perform_accepts:
  assumes "arrays_ok usage options m buffer n bufmax" "stored usage options m buffer n a xs"
    and "opt_valid usage ob" "length xs < n"
  shows "\<exists>a'. store_perform usage options buffer bufmax a ob = ret (a', True) \<and>
    stored usage options m buffer n a' (xs @ [ob])"
proof -
  have "index_of usage ob < m" using assms(1,3) by (auto simp: arrays_ok_def opt_valid_def index_of_def)
  then show ?thesis
    using store_perform_step [of options m buffer n bufmax usage "fst a" "snd a" xs ob] assms
    unfolding arrays_ok_def prod.collapse by blast
qed

interpretation storing: parse_action usage "store_perform usage options buffer bufmax"
    "\<lambda>a xs. arrays_ok usage options m buffer n bufmax \<and> stored usage options m buffer n a xs" n
  for usage :: "descriptor list" and options :: optr and m :: nat and buffer :: optr and n :: nat and bufmax :: int
  by unfold_locales (auto dest: store_perform_accepts)

lemma parse_stored:
  assumes "quiet_checks usage" "arrays_ok usage options m buffer n bufmax" "0 < n" "fresh_arrays options m buffer n h"
    and "workhorse gnu usage argc args trace_perform (\<lambda>obs n k. obs) [] sml pe mn = ret (xs, obs, ok)"
    and "length obs \<le> n"
  shows "\<exists>p h'. parse gnu usage argc args options buffer mn sml bufmax (parser_new, h) = ret (xs, p, h') \<and>
    p_err p = (\<not> ok) \<and> stored usage options m buffer n (p, h') obs"
proof -
  let ?p = "parser_new\<lparr>op_count := 0\<rparr>"
  have "stored usage options m buffer n (?p, h) []" using assms(4) by (intro fresh_stored) simp_all
  then obtain a i k where a: "stored usage options m buffer n a obs"
    and w: "workhorse gnu usage argc args (store_perform usage options buffer bufmax) store_finished (?p, h) sml True mn
       = ret (xs, if ok then store_finished a i k else a, ok)"
    using storing.workhorse_accepts [of usage options m buffer n bufmax "(?p, h)" gnu argc args sml pe mn xs obs ok
        store_finished True] assms by auto
  have fin: "stored usage options m buffer n (q\<lparr>nonop_count := x, nonop_args := y\<rparr>, h') obs =
      stored usage options m buffer n (q, h') obs" "stored usage options m buffer n (q\<lparr>p_err := e\<rparr>, h') obs =
      stored usage options m buffer n (q, h') obs" for q x y e h'
    by (simp_all add: stored_def)
  show ?thesis using w a fresh_first_empty [OF assms(4,3), of bufmax] fin
    by (cases a) (auto simp: parse_def store_finished_def)
qed



text \<open>A command line with an option that occurs twice, once with an attached argument.\<close>

definition demo_desc :: "nat \<Rightarrow> string \<Rightarrow> string \<Rightarrow> (opt \<Rightarrow> bool \<Rightarrow> ArgStatus) \<Rightarrow> descriptor" where
  "demo_desc i s l check =
     \<lparr>d_index = i, d_type = 0, d_shortopt = Some s, d_longopt = Some l, d_check_arg = check, d_help = None\<rparr>"

definition null_desc :: descriptor where
  "null_desc =
     \<lparr>d_index = 0, d_type = 0, d_shortopt = None, d_longopt = None, d_check_arg = Arg_None, d_help = None\<rparr>"

definition demo_usage :: "descriptor list" where
  "demo_usage = [demo_desc 0 ''p'' ''port'' Arg_Optional, demo_desc 1 ''v'' ''verbose'' Arg_None, null_desc]"

definition demo_args :: "cptr option list" where
  "demo_args = [Some (0, ''-v''), Some (1, ''--port=80''), Some (2, ''-vp''), Some (3, ''file''), None]"

definition demo_obs :: "opt list" where
  "demo_obs =
     [opt_init 0 (Some 1) (Some (0, ''v'')) None,
      opt_init 0 (Some 0) (Some (1, ''--port=80'')) (Some (1, ''80'')),
      opt_init 0 (Some 1) (Some (2, ''vp'')) None,
      opt_init 0 (Some 0) (Some (2, ''p'')) None]"

lemma demo_run:
  "workhorse False demo_usage 4 (Some demo_args) trace_perform (\<lambda>obs n k. obs) [] False False 0 =
     ret (demo_args, demo_obs, True)"
  by code_simp

definition demo_heap :: opt_heap where
  "demo_heap p = (if p \<in> {1000, 1048} \<or> p \<in> {2000, 2048, 2096, 2144} then Some (opt_new p) else None)"


lemma demo_ok:
  "quiet_checks demo_usage" "usage_ok demo_usage" "arrays_ok demo_usage 1000 2 2000 4 (- 1)"
  "fresh_arrays 1000 2 2000 4 demo_heap"
proof -
  show "quiet_checks demo_usage" "usage_ok demo_usage"
    by (auto simp: quiet_checks_def usage_ok_def demo_usage_def demo_desc_def null_desc_def Arg_None_def Arg_Optional_def)
  show "arrays_ok demo_usage 1000 2 2000 4 (- 1)"
    by (auto simp: arrays_ok_def layout_def demo_usage_def demo_desc_def null_desc_def)
  have n: "j < 2 \<Longrightarrow> j = 0 \<or> j = 1" "i < 4 \<Longrightarrow> i = 0 \<or> i = 1 \<or> i = 2 \<or> i = 3" for i j :: nat by auto
  show "fresh_arrays 1000 2 2000 4 demo_heap"
    unfolding fresh_arrays_def by (auto simp: demo_heap_def elem_at_def dest!: n)
qed


section \<open>The sizes\<close>

lemma workhorse_posix:
  assumes "workhorse False usage argc (Some args) pf fin a sml pe mn = ret (xs, b, ok)"
  shows "xs = args"
proof -
  let ?w = "\<lparr>w_args = args, w_pos = 0, w_numargs = argc, w_nonops = 0, w_act = a\<rparr>"
  obtain w' ok' where "args_loop False usage sml pe mn pf ?w = ret (w', ok')" "w_args w' = xs"
    using assms by (auto simp: workhorse_def bindc_eq_ret split: if_splits)
  then show ?thesis using args_run_posix [OF args_loop_run] by fastforce
qed

lemma max_index_bound:
  assumes "usage_ok usage" "\<forall>d\<in>set usage. d_index d < 2 ^ 31 - 2" "m0 \<le> 2 ^ 31"
  shows "\<exists>m. max_index usage m0 = Inr m \<and> m0 \<le> m \<and> m \<le> 2 ^ 31 \<and>
    (\<forall>d\<in>set usage. d_shortopt d \<noteq> None \<longrightarrow> d_index d < m)"
  using assms
proof (induction usage arbitrary: m0)
  case (Cons d usage)
  show ?case
  proof (cases "usage = []")
    case True
    then show ?thesis using Cons.prems by (simp add: usage_ok_def)
  next
    case False
    then have ok: "usage_ok usage" "d_shortopt d \<noteq> None" using Cons.prems(1) by (auto simp: usage_ok_def)
    have i: "d_index d < 2 ^ 31 - 2" using Cons.prems(2) by simp
    define m where "m = (if (d_index d + 1) mod 2 ^ 32 \<ge> m0 then (d_index d + 2) mod 2 ^ 32 else m0)"
    have m: "m0 \<le> m" "d_index d < m" "m \<le> 2 ^ 31" using i Cons.prems(3) by (auto simp: m_def)
    obtain m1 where m1: "max_index usage m = Inr m1" "m \<le> m1" "m1 \<le> 2 ^ 31"
        "\<forall>d\<in>set usage. d_shortopt d \<noteq> None \<longrightarrow> d_index d < m1"
      using Cons.IH [OF ok(1) _ m(3)] Cons.prems(2) by auto
    have "max_index (d # usage) m0 = Inr m1" using m1(1) ok(2) by (simp only: max_index.simps m_def if_False)
    then show ?thesis using m m1 by (intro exI [of _ m1]) auto
  qed
qed (simp add: usage_ok_def)

text \<open>
  C36. In POSIX mode the sizes \<open>Stats\<close> computes are enough: with arrays of \<open>options_max\<close> and
  \<open>buffer_max\<close> options, \<open>Parser\<close> parses the same arguments without reading or writing outside
  them, and stores one option less than \<open>buffer_max\<close>. Both return for every argument vector, and
  leave it as it is.
\<close>

theorem stats_sizes_suffice:
  assumes "usage_ok usage" "quiet_checks usage" "\<forall>d\<in>set usage. d_index d < 2 ^ 31 - 2"
    and "0 \<le> argc" "nat argc \<le> length args"
  shows "\<exists>obs ok. workhorse False usage argc (Some args) trace_perform (\<lambda>obs n k. obs) [] sml False mn = ret (args, obs, ok) \<and>
    (length obs < 0x7ffffffe \<longrightarrow>
      (\<exists>s. stats_of False usage argc (Some args) mn sml = ret (args, s) \<and> buffer_max s = 1 + length obs \<and>
        (\<forall>options buffer h. layout options (options_max s) buffer (buffer_max s) \<and>
            fresh_arrays options (options_max s) buffer (buffer_max s) h \<longrightarrow>
          (\<exists>p h'. parse False usage argc (Some args) options buffer mn sml (- 1) (parser_new, h) = ret (args, p, h') \<and>
             p_err p = (\<not> ok) \<and> optionsCount p = length obs))))"
proof -
  obtain xs obs ok where w: "workhorse False usage argc (Some args) trace_perform (\<lambda>obs n k. obs) [] sml False mn = ret (xs, obs, ok)"
    using workhorse_total [OF assms(1,4,5)] by blast
  have xs: "xs = args" by (rule workhorse_posix [OF w])
  obtain m where m: "max_index usage 1 = Inr m" "m \<le> 2 ^ 31" "\<forall>d\<in>set usage. d_shortopt d \<noteq> None \<longrightarrow> d_index d < m"
    using max_index_bound [OF assms(1,3), of 1] by auto
  let ?s = "\<lparr>buffer_max = 1 + length obs, options_max = m\<rparr>"
  have "stats_of False usage argc (Some args) mn sml = ret (args, ?s)" if "length obs < 0x7ffffffe"
    using counting.workhorse_accepts [of usage 1 1 False argc "Some args" sml False mn xs obs ok count_finished False] assms(2) w that m(1) xs
    by (auto simp: stats_of_def stats_add_def stats_new_def count_finished_def)
  moreover have "\<exists>p h'. parse False usage argc (Some args) options buffer mn sml (- 1) (parser_new, h) = ret (args, p, h') \<and>
      p_err p = (\<not> ok) \<and> optionsCount p = length obs"
    if "length obs < 0x7ffffffe" "layout options m buffer (1 + length obs)" "fresh_arrays options m buffer (1 + length obs) h"
    for options buffer h
    using parse_stored [of usage options m buffer "1 + length obs" "- 1" h False argc "Some args" sml False mn xs obs ok]
      assms(2) m that w xs by (auto simp: arrays_ok_def optionsCount_def stored_def)
  ultimately show ?thesis using w xs by auto
qed


theorem stats_sizes_suffice_witness:
  "\<exists>s. stats_of False demo_usage 4 (Some demo_args) 0 False = ret (demo_args, s) \<and> buffer_max s = 5"
proof -
  have "\<forall>d\<in>set demo_usage. d_index d < 2 ^ 31 - 2" "nat 4 \<le> length demo_args"
    by (auto simp: demo_usage_def demo_desc_def null_desc_def demo_args_def)
  from stats_sizes_suffice [OF demo_ok(2,1) this(1) _ this(2), of False 0] obtain obs ok where
    w: "workhorse False demo_usage 4 (Some demo_args) trace_perform (\<lambda>obs n k. obs) [] False False 0 = ret (demo_args, obs, ok)"
    and s: "length obs < 0x7ffffffe \<longrightarrow>
      (\<exists>s. stats_of False demo_usage 4 (Some demo_args) 0 False = ret (demo_args, s) \<and> buffer_max s = 1 + length obs)"
    by auto
  have "obs = demo_obs" using w demo_run by simp
  then show ?thesis using s by (auto simp: demo_obs_def)
qed

section \<open>Reordering\<close>



text \<open>
  \<open>split_at args w\<close>: the arguments before the position are those consumed followed by the
  non-options met, each in the order they had in \<open>args\<close>; the rest is untouched.
\<close>

definition split_at :: "cptr option list \<Rightarrow> 'a wh \<Rightarrow> bool" where
  "split_at args w \<longleftrightarrow> (\<exists>cs ns rest pre.
     w_args w = cs @ ns @ rest \<and> length ns = w_nonops w \<and> length cs + length ns = w_pos w \<and>
     args = pre @ rest \<and> pre \<in> shuffles cs ns \<and> (\<forall>a\<in>set ns. \<exists>p. a = Some p \<and> non_option (snd p)))"

lemma split_at_act [simp]: "split_at args (w\<lparr>w_act := a\<rparr>) = split_at args w"
  by (simp add: split_at_def)











text \<open>An option that takes the next argument when there is one.\<close>

definition greedy_check :: "opt \<Rightarrow> bool \<Rightarrow> ArgStatus" where
  "greedy_check ob msg = (if o_arg ob = None then ARG_IGNORE else ARG_OK)"

definition greedy_usage :: "descriptor list" where
  "greedy_usage = [demo_desc 0 ''x'' ''xx'' greedy_check, null_desc]"

definition greedy_heap :: opt_heap where
  "greedy_heap p = (if p \<in> {1000, 2000, 2048} then Some (opt_new p) else None)"

lemma greedy_runs:
  "workhorse True greedy_usage 2 (Some [Some (0, ''a''), Some (1, ''-x'')]) trace_perform (\<lambda>obs n k. obs) [] False True 0 =
     ret ([Some (1, ''-x''), Some (0, ''a'')], [opt_init 0 (Some 0) (Some (1, ''x'')) None], True)"
  "workhorse True greedy_usage 2 (Some [Some (1, ''-x''), Some (0, ''a'')]) trace_perform (\<lambda>obs n k. obs) [] False True 0 =
     ret ([Some (1, ''-x''), Some (0, ''a'')], [opt_init 0 (Some 0) (Some (1, ''x'')) (Some (0, ''a''))], True)"
  by code_simp+

lemma greedy_ok:
  "quiet_checks greedy_usage" "arrays_ok greedy_usage 1000 1 2000 2 (- 1)" "fresh_arrays 1000 1 2000 2 greedy_heap"
proof -
  show "quiet_checks greedy_usage"
    by (auto simp: quiet_checks_def greedy_usage_def demo_desc_def null_desc_def Arg_None_def greedy_check_def)
  show "arrays_ok greedy_usage 1000 1 2000 2 (- 1)"
    by (auto simp: arrays_ok_def layout_def greedy_usage_def demo_desc_def null_desc_def)
  have n: "i < 2 \<Longrightarrow> i = 0 \<or> i = 1" for i :: nat by auto
  show "fresh_arrays 1000 1 2000 2 greedy_heap"
    unfolding fresh_arrays_def by (auto simp: greedy_heap_def elem_at_def dest!: n)
qed


text \<open>
  Because \<open>Stats\<close> reorders the arguments as well, a following \<open>Parser\<close> may read them differently
  in GNU mode: after \<open>a -x\<close> has become \<open>-x a\<close>, the option takes \<open>a\<close> as its argument.
\<close>

lemma stats_changes_parse:
  "\<exists>s. stats_of True greedy_usage 2 (Some [Some (0, ''a''), Some (1, ''-x'')]) 0 False =
     ret ([Some (1, ''-x''), Some (0, ''a'')], s) \<and>
   workhorse True greedy_usage 2 (Some [Some (0, ''a''), Some (1, ''-x'')]) trace_perform (\<lambda>obs n k. obs) [] False True 0 =
     ret ([Some (1, ''-x''), Some (0, ''a'')], [opt_init 0 (Some 0) (Some (1, ''x'')) None], True) \<and>
   workhorse True greedy_usage 2 (Some [Some (1, ''-x''), Some (0, ''a'')]) trace_perform (\<lambda>obs n k. obs) [] False True 0 =
     ret ([Some (1, ''-x''), Some (0, ''a'')], [opt_init 0 (Some 0) (Some (1, ''x'')) (Some (0, ''a''))], True)"
  using counting.workhorse_accepts [of _ 1 1 _ _ _ _ _ _ _ _ _ count_finished False, OF greedy_ok(1) _ greedy_runs(1)] greedy_runs
  by (auto simp: stats_of_def stats_add_def stats_new_def greedy_usage_def demo_desc_def null_desc_def)

end
