(* ===== verification/Usage_Parts.thy ===== *)
theory Usage_Parts
  imports Option_Parser
begin

text \<open>
  The first half of \<open>PrintUsageImplementation\<close> in \<open>DBTestTerminal/optionparser.h\<close>: the writers,
  the decoding of UTF-8 with the width of characters on the screen, and \<open>LinePartIterator\<close>, which
  walks over the tables, rows and parts of the help texts. \<open>msc\<close> tells the Microsoft compiler
  from the others, which bring their own \<open>__builtin_clz\<close>.
\<close>

declare bindr_cong [fundef_cong]

section \<open>Writers\<close>

text \<open>
  What a writer is handed, in the order of the calls: the characters from \<open>str\<close> on, \<open>size\<close> of
  them. The writers turn each into one call of what they wrap.
\<close>

type_synonym out = "string list"

datatype writer =
    IStringWriter
  | FunctionWriter
  | OStreamWriter
  | TemporaryWriter
  | SyscallWriter int
  | StreamWriter nat

datatype wcall =
    Call_function string nat
  | Call_write_method string nat
  | Call_syscall int string nat
  | Call_fwrite string nat nat nat

definition write_call :: "writer \<Rightarrow> string \<Rightarrow> wcall option" where
  "write_call w str =
     (let size = length str
      in case w of
           IStringWriter \<Rightarrow> None
         | FunctionWriter \<Rightarrow> Some (Call_function str size)
         | OStreamWriter \<Rightarrow> Some (Call_write_method str size)
         | TemporaryWriter \<Rightarrow> Some (Call_write_method str size)
         | SyscallWriter fd \<Rightarrow> Some (Call_syscall fd str size)
         | StreamWriter stream \<Rightarrow> Some (Call_fwrite str size 1 stream))"

definition emit :: "string \<Rightarrow> out \<Rightarrow> out" where
  "emit str out = out @ [str]"

abbreviation nl :: string where
  "nl \<equiv> [CHR 0x0A]"

section \<open>Helpers\<close>

definition upmax :: "'a::linorder \<Rightarrow> 'a \<Rightarrow> 'a" where
  "upmax i1 i2 = (if i1 \<ge> i2 then i1 else i2)"

text \<open>\<open>indent\<close> leaves \<open>x\<close> alone when nothing is left to indent.\<close>

definition indent :: "out \<Rightarrow> int \<Rightarrow> int \<Rightarrow> out \<times> int" where
  "indent out x want_x =
     (let ind = want_x - x;
          (out1, ind1) = (if ind < 0 then (emit nl out, want_x) else (out, ind))
      in if ind1 > 0 then (out1 @ replicate (nat ind1) '' '', want_x) else (out1, x))"

definition isWideChar :: "32 word \<Rightarrow> bool" where
  "isWideChar ch =
     (if ch = 0x303F then False
      else (0x1100 \<le> ch \<and> ch \<le> 0x115F) \<or> (0x2329 \<le> ch \<and> ch \<le> 0x232A) \<or> (0x2E80 \<le> ch \<and> ch \<le> 0xA4C6)
         \<or> (0xA960 \<le> ch \<and> ch \<le> 0xA97C) \<or> (0xAC00 \<le> ch \<and> ch \<le> 0xD7FB) \<or> (0xF900 \<le> ch \<and> ch \<le> 0xFAFF)
         \<or> (0xFE10 \<le> ch \<and> ch \<le> 0xFE6B) \<or> (0xFF01 \<le> ch \<and> ch \<le> 0xFF60) \<or> (0xFFE0 \<le> ch \<and> ch \<le> 0xFFE6)
         \<or> (0x1B000 \<le> ch))"

section \<open>UTF-8\<close>

text \<open>The position of the highest bit that is set.\<close>

fun bit_scan_reverse :: "nat \<Rightarrow> nat" where
  "bit_scan_reverse x = (if x < 2 then 0 else 1 + bit_scan_reverse (x div 2))"

declare bit_scan_reverse.simps [simp del]

text \<open>
  \<open>MSC_Builtin_CLZ\<close> answers one more than the number of leading zeros. Both are undefined at 0,
  and shifting by 32 is undefined.
\<close>

definition builtin_clz :: "bool \<Rightarrow> 32 word \<Rightarrow> nat res" where
  "builtin_clz msc x =
     (if x = 0 then Inl Undefined_Operation
      else Inr (if msc then 32 - bit_scan_reverse (unat x) else 31 - bit_scan_reverse (unat x)))"

definition length_mask :: "bool \<Rightarrow> 32 word \<Rightarrow> 32 word res" where
  "length_mask msc ch =
     bindr (builtin_clz msc (ch XOR 0xff)) (\<lambda>n.
       if n < 32 then Inr (drop_bit n (- 1)) else Inl Undefined_Operation)"

text \<open>\<open>(unsigned)(unsigned char)c\<close>\<close>

definition uchar :: "char \<Rightarrow> 32 word" where
  "uchar c = of_char c"

text \<open>The loop over the continuation bytes, over the bytes that follow.\<close>

fun continuation :: "char list \<Rightarrow> 32 word \<Rightarrow> nat \<Rightarrow> 32 word \<times> nat" where
  "continuation [] ch n = (ch, n)"
| "continuation (b # bs) ch n =
     (if uchar b XOR 0x80 \<le> 0x3F
      then continuation bs ((push_bit 6 ch XOR uchar b) XOR 0x80) (n + 1)
      else (ch, n))"

text \<open>
  One character: the number of its bytes and whether it takes two columns on the screen, given
  the bytes that follow its first.
\<close>

definition decode_char :: "bool \<Rightarrow> char \<Rightarrow> char list \<Rightarrow> (nat \<times> bool) res" where
  "decode_char msc c bs =
     (let ch = uchar c
      in if ch > 0xC1
         then bindr (length_mask msc ch) (\<lambda>mask.
              let (ch', n) = continuation bs (ch AND mask) 0
              in Inr (1 + n, ch' \<ge> 0x1100 \<and> isWideChar ch'))
         else Inr (1, False))"

section \<open>The iterator\<close>

text \<open>
  A pointer into a help text is a position in the help text of the descriptor \<open>rowdesc\<close>. The
  constructor leaves \<open>screenlen\<close> as it finds it.
\<close>

record line_part =
  lp_tablestart :: nat
  lp_rowdesc :: "nat option"
  lp_rowstart :: "nat option"
  lp_ptr :: "nat option"
  lp_col :: int
  lp_len :: nat
  lp_screenlen :: nat
  lp_max_line_in_block :: nat
  lp_line_in_block :: nat
  lp_target_line_in_block :: nat
  lp_hit_target_line :: bool

definition line_part_new :: "nat \<Rightarrow> line_part" where
  "line_part_new junk =
     \<lparr>lp_tablestart = 0, lp_rowdesc = None, lp_rowstart = None, lp_ptr = None, lp_col = - 1, lp_len = 0,
      lp_screenlen = junk, lp_max_line_in_block = 0, lp_line_in_block = 0, lp_target_line_in_block = 0,
      lp_hit_target_line = True\<rparr>"

abbreviation VT :: char where "VT \<equiv> CHR 0x0B"
abbreviation TAB :: char where "TAB \<equiv> CHR 0x09"
abbreviation LF :: char where "LF \<equiv> CHR 0x0A"

text \<open>A help text ends in a zero; nothing behind it is read.\<close>

definition text_char :: "string \<Rightarrow> nat \<Rightarrow> char res" where
  "text_char s i = (if i < length s then Inr (s ! i) else if i = length s then Inr nul else Inl Out_Of_Bounds)"

definition desc_at :: "descriptor list \<Rightarrow> nat \<Rightarrow> descriptor res" where
  "desc_at usage i = (if i < length usage then Inr (usage ! i) else Inl Out_Of_Bounds)"

definition row_text :: "descriptor list \<Rightarrow> line_part \<Rightarrow> string res" where
  "row_text usage it =
     (case lp_rowdesc it of
        None \<Rightarrow> Inl Null_Deref
      | Some r \<Rightarrow>
          bindr (desc_at usage r) (\<lambda>d. case d_help d of None \<Rightarrow> Inl Null_Deref | Some s \<Rightarrow> Inr s))"

section \<open>Lengths\<close>

function part_length :: "bool \<Rightarrow> string \<Rightarrow> nat \<Rightarrow> nat \<Rightarrow> (nat \<times> nat) res" where
  "part_length msc s len screenlen =
     (case s of
        [] \<Rightarrow> Inr (len, screenlen)
      | c # cs \<Rightarrow>
          if c = nul \<or> c = VT \<or> c = TAB \<or> c = LF then Inr (len, screenlen)
          else bindr (decode_char msc c cs) (\<lambda>(n, wide).
                 part_length msc (drop (n - 1) cs) (len + n) (screenlen + (if wide then 2 else 1))))"
  by pat_completeness auto
termination by (relation "measure (\<lambda>(_, s, _). length s)") auto

declare part_length.simps [simp del]

definition update_length :: "bool \<Rightarrow> string \<Rightarrow> line_part \<Rightarrow> line_part res" where
  "update_length msc s it =
     (case lp_ptr it of
        None \<Rightarrow> Inl Null_Deref
      | Some p \<Rightarrow>
          if p > length s then Inl Out_Of_Bounds
          else bindr (part_length msc (drop p s) 0 0) (\<lambda>(n, w). Inr (it\<lparr>lp_len := n, lp_screenlen := w\<rparr>)))"

section \<open>Tables and rows\<close>

definition restartTable :: "descriptor list \<Rightarrow> line_part \<Rightarrow> line_part res" where
  "restartTable usage it =
     bindr (desc_at usage (lp_tablestart it)) (\<lambda>d.
       Inr (it\<lparr>lp_rowdesc := Some (lp_tablestart it),
              lp_rowstart := (if d_help d = None then None else Some 0), lp_ptr := None\<rparr>))"

definition nextTable :: "descriptor list \<Rightarrow> line_part \<Rightarrow> (line_part \<times> bool) res" where
  "nextTable usage it =
     bindr (if lp_rowdesc it \<noteq> None
            then usage_scan (\<lambda>d. Inr (\<not> (d_help d \<noteq> None \<and> d_shortopt d \<noteq> None))) usage (lp_tablestart it)
            else Inr (lp_tablestart it)) (\<lambda>i.
     bindr (usage_scan (\<lambda>d. Inr (\<not> (d_help d = None \<and> d_shortopt d \<noteq> None))) usage i) (\<lambda>j.
     bindr (restartTable usage (it\<lparr>lp_tablestart := j\<rparr>)) (\<lambda>it'.
       Inr (it', lp_rowstart it' \<noteq> None))))"

definition restartRow :: "line_part \<Rightarrow> line_part" where
  "restartRow it =
     it\<lparr>lp_ptr := lp_rowstart it, lp_col := - 1, lp_len := 0, lp_screenlen := 0, lp_max_line_in_block := 0,
        lp_line_in_block := 0, lp_target_line_in_block := 0, lp_hit_target_line := True\<rparr>"

function row_end :: "string \<Rightarrow> nat \<Rightarrow> nat res" where
  "row_end s p =
     bindr (text_char s p) (\<lambda>c. if c \<noteq> nul \<and> c \<noteq> LF then row_end s (p + 1) else Inr p)"
  by pat_completeness auto
termination
  by (relation "measure (\<lambda>(s, p). length s - p)") (auto simp: text_char_def split: if_splits)

declare row_end.simps [simp del]

definition nextRow :: "descriptor list \<Rightarrow> line_part \<Rightarrow> (line_part \<times> bool) res" where
  "nextRow usage it =
     (case lp_ptr it of
        None \<Rightarrow> Inr (restartRow it, lp_rowstart it \<noteq> None)
      | Some p0 \<Rightarrow>
          bindr (row_text usage it) (\<lambda>s.
          bindr (row_end s p0) (\<lambda>p.
          bindr (text_char s p) (\<lambda>c.
            let it1 = it\<lparr>lp_ptr := Some p\<rparr>; r = the (lp_rowdesc it)
            in if c = nul
               then bindr (desc_at usage (r + 1)) (\<lambda>d.
                      if d_help d = None then Inr (it1, False)
                      else Inr (restartRow (it1\<lparr>lp_rowdesc := Some (r + 1), lp_rowstart := Some 0\<rparr>), True))
               else Inr (restartRow (it1\<lparr>lp_rowstart := Some (p + 1)\<rparr>), True)))))"

section \<open>Parts\<close>

definition answer :: "bool \<Rightarrow> string \<Rightarrow> line_part \<Rightarrow> bool \<Rightarrow> (line_part \<times> bool) res" where
  "answer msc s it found =
     bindr (update_length msc s it) (\<lambda>it'.
       Inr (if found then it'\<lparr>lp_hit_target_line := True\<rparr> else it', found))"

definition np_measure :: "string \<Rightarrow> line_part \<Rightarrow> nat" where
  "np_measure s it =
     max (lp_max_line_in_block it)
       (max (lp_line_in_block it + (length s - the (lp_ptr it))) (length s)) - lp_target_line_in_block it"

lemma text_char_before: "text_char s p = Inr c \<Longrightarrow> c \<noteq> nul \<Longrightarrow> p < length s"
  by (auto simp: text_char_def split: if_splits)

lemma np_measure_le:
  assumes "lp_ptr it = Some p" "text_char s p = Inr c" "c \<noteq> nul" "lp_ptr it' = Some (Suc p)"
    and "lp_line_in_block it' \<le> Suc (lp_line_in_block it)"
    and "lp_max_line_in_block it' \<le> max (lp_max_line_in_block it) (lp_line_in_block it')"
    and "lp_max_line_in_block it' = lp_max_line_in_block it \<or> lp_line_in_block it' = Suc (lp_line_in_block it)"
    and "lp_target_line_in_block it' = lp_target_line_in_block it"
  shows "np_measure s it' < np_measure s it \<or>
         np_measure s it' = np_measure s it \<and> length s - Suc p < length s - p"
proof -
  have "p < length s" using text_char_before assms(2,3) by blast
  then have "np_measure s it' \<le> np_measure s it" "length s - Suc p < length s - p"
    using assms unfolding np_measure_def by (auto intro!: diff_le_mono simp: le_max_iff_disj)
  then show ?thesis by linarith
qed

lemma np_measure_reset:
  assumes "lp_target_line_in_block it < lp_max_line_in_block it" "lp_line_in_block it' = 0"
    and "lp_max_line_in_block it' = lp_max_line_in_block it"
    and "lp_target_line_in_block it' = Suc (lp_target_line_in_block it)"
  shows "np_measure s it' < np_measure s it"
  using assms unfolding np_measure_def by (auto simp: max_def)

function next_loop :: "bool \<Rightarrow> string \<Rightarrow> line_part \<Rightarrow> (line_part \<times> bool) res" where
  "next_loop msc s it =
     (case lp_ptr it of
        None \<Rightarrow> Inl Null_Deref
      | Some p \<Rightarrow>
          bindr (text_char s p) (\<lambda>c.
            if c = VT then
              let line = lp_line_in_block it + 1;
                  it1 = it\<lparr>lp_line_in_block := line,
                           lp_max_line_in_block := upmax (lp_max_line_in_block it) line, lp_ptr := Some (p + 1)\<rparr>
              in if lp_line_in_block it1 = lp_target_line_in_block it1 then answer msc s it1 True
                 else next_loop msc s it1
            else if c = TAB then
              if \<not> lp_hit_target_line it then answer msc s it True
              else
                let it1 = it\<lparr>lp_hit_target_line := False, lp_line_in_block := 0, lp_col := lp_col it + 1,
                             lp_ptr := Some (p + 1)\<rparr>
                in if lp_line_in_block it1 = lp_target_line_in_block it1 then answer msc s it1 True
                   else next_loop msc s it1
            else if c = nul \<or> c = LF then
              if \<not> lp_hit_target_line it then answer msc s it True
              else
                let it1 = it\<lparr>lp_target_line_in_block := lp_target_line_in_block it + 1\<rparr>
                in if lp_target_line_in_block it1 > lp_max_line_in_block it1 then answer msc s it1 False
                   else next_loop msc s
                          (it1\<lparr>lp_hit_target_line := False, lp_line_in_block := 0, lp_col := 0,
                               lp_ptr := lp_rowstart it1\<rparr>)
            else next_loop msc s (it\<lparr>lp_ptr := Some (p + 1)\<rparr>)))"
  by pat_completeness auto
termination
  apply (relation "measures [\<lambda>(_, s, it). np_measure s it, \<lambda>(_, s, it). length s - the (lp_ptr it)]")
  apply simp_all
  subgoal for s it p c by (rule np_measure_le [of it p s c]) (simp_all add: upmax_def)
  subgoal for s it p c by (rule np_measure_le [of it p s c]) simp_all
  subgoal by (rule disjI1, rule np_measure_reset) simp_all
  subgoal for s it p c by (rule np_measure_le [of it p s c]) simp_all
  done

declare next_loop.simps [simp del]

definition next_part :: "bool \<Rightarrow> descriptor list \<Rightarrow> line_part \<Rightarrow> (line_part \<times> bool) res" where
  "next_part msc usage it =
     (case lp_ptr it of
        None \<Rightarrow> Inr (it, False)
      | Some p \<Rightarrow>
          bindr (row_text usage it) (\<lambda>s.
            if lp_col it = - 1
            then bindr (update_length msc s (it\<lparr>lp_col := 0\<rparr>)) (\<lambda>it'. Inr (it', True))
            else next_loop msc s (it\<lparr>lp_ptr := Some (p + lp_len it)\<rparr>)))"

text \<open>The accessors.\<close>

definition part_column :: "line_part \<Rightarrow> int" where
  "part_column it = lp_col it"

definition part_line :: "line_part \<Rightarrow> nat" where
  "part_line it = lp_target_line_in_block it"

definition part_screenLength :: "line_part \<Rightarrow> nat" where
  "part_screenLength it = lp_screenlen it"

text \<open>\<open>data()\<close> and \<open>length()\<close>, read together: the characters of the part, and the one behind it.\<close>

definition part_data :: "descriptor list \<Rightarrow> line_part \<Rightarrow> string res" where
  "part_data usage it =
     (case lp_ptr it of
        None \<Rightarrow> Inl Null_Deref
      | Some p \<Rightarrow>
          bindr (row_text usage it) (\<lambda>s.
            if p + lp_len it \<le> length s then Inr (take (lp_len it) (drop p s)) else Inl Out_Of_Bounds))"

definition part_end :: "descriptor list \<Rightarrow> line_part \<Rightarrow> char res" where
  "part_end usage it =
     (case lp_ptr it of
        None \<Rightarrow> Inl Null_Deref
      | Some p \<Rightarrow> bindr (row_text usage it) (\<lambda>s. text_char s (p + lp_len it)))"

end
