(* ===== verification/Line_Wrapper.thy ===== *)
theory Line_Wrapper
  imports Usage_Parts
begin

text \<open>
  \<open>LineWrapper\<close> of \<open>DBTestTerminal/optionparser.h\<close>: it breaks the text of a column into lines and
  keeps the lines that have not been printed in a ring buffer. A pointer into a text is the list of
  the characters from there on.
\<close>

section \<open>State\<close>

definition bufmask :: nat where
  "bufmask = 15"

record line_wrapper =
  lw_lenbuf :: "nat list"
  lw_datbuf :: "string list"
  lw_x :: int
  lw_width :: int
  lw_head :: nat
  lw_tail :: nat
  lw_wrote_something :: bool

text \<open>The constructor leaves the buffers and \<open>wrote_something\<close> as it finds them.\<close>

definition line_wrapper_new :: "(nat \<times> string) list \<Rightarrow> bool \<Rightarrow> int \<Rightarrow> int \<Rightarrow> line_wrapper" where
  "line_wrapper_new junk wrote x1 x2 =
     \<lparr>lw_lenbuf = map fst junk, lw_datbuf = map snd junk, lw_x = x1,
      lw_width = (if x2 - x1 < 2 then 2 else x2 - x1), lw_head = 0, lw_tail = bufmask,
      lw_wrote_something = wrote\<rparr>"

section \<open>The ring buffer\<close>

definition buf_empty :: "line_wrapper \<Rightarrow> bool" where
  "buf_empty lw \<longleftrightarrow> (lw_tail lw + 1) AND bufmask = lw_head lw"

definition buf_full :: "line_wrapper \<Rightarrow> bool" where
  "buf_full lw \<longleftrightarrow> lw_tail lw = lw_head lw"

definition buf_store :: "string \<Rightarrow> nat \<Rightarrow> line_wrapper \<Rightarrow> line_wrapper res" where
  "buf_store data len lw =
     (if lw_head lw < length (lw_lenbuf lw) \<and> lw_head lw < length (lw_datbuf lw)
      then Inr (lw\<lparr>lw_lenbuf := (lw_lenbuf lw)[lw_head lw := len],
                  lw_datbuf := (lw_datbuf lw)[lw_head lw := data],
                  lw_head := (lw_head lw + 1) AND bufmask\<rparr>)
      else Inl Out_Of_Bounds)"

definition buf_next :: "line_wrapper \<Rightarrow> line_wrapper" where
  "buf_next lw = lw\<lparr>lw_tail := (lw_tail lw + 1) AND bufmask\<rparr>"

text \<open>\<open>write(datbuf[tail], lenbuf[tail])\<close>\<close>

definition write_buffered :: "line_wrapper \<Rightarrow> out \<Rightarrow> out res" where
  "write_buffered lw out =
     (if lw_tail lw < length (lw_lenbuf lw) \<and> lw_tail lw < length (lw_datbuf lw)
      then let len = lw_lenbuf lw ! lw_tail lw; data = lw_datbuf lw ! lw_tail lw
           in if len \<le> length data then Inr (emit (take len data) out) else Inl Out_Of_Bounds
      else Inl Out_Of_Bounds)"

section \<open>Output of lines\<close>

definition write_one_line :: "line_wrapper \<Rightarrow> out \<Rightarrow> (line_wrapper \<times> out) res" where
  "write_one_line lw out =
     (let out1 = (if lw_wrote_something lw then fst (indent (emit nl out) 0 (lw_x lw)) else out)
      in if \<not> buf_empty lw
         then let lw1 = buf_next lw
              in bindr (write_buffered lw1 out1) (\<lambda>out2. Inr (lw1\<lparr>lw_wrote_something := True\<rparr>, out2))
         else Inr (lw\<lparr>lw_wrote_something := True\<rparr>, out1))"

definition lw_output :: "string \<Rightarrow> nat \<Rightarrow> line_wrapper \<Rightarrow> out \<Rightarrow> (line_wrapper \<times> out) res" where
  "lw_output data len lw out =
     bindr (if buf_full lw then write_one_line lw out else Inr (lw, out)) (\<lambda>(lw1, out1).
     bindr (buf_store data len lw1) (\<lambda>lw2. Inr (lw2, out1)))"

partial_function (option) flush_loop :: "line_wrapper \<Rightarrow> out \<Rightarrow> (line_wrapper \<times> out) comp" where
  "flush_loop lw out =
     (if \<not> buf_empty lw
      then bindc (liftc (write_one_line lw out)) (\<lambda>r. flush_loop (fst r) (snd r))
      else ret (lw, out))"

declare flush_loop.simps [code]

definition lw_flush :: "line_wrapper \<Rightarrow> out \<Rightarrow> (line_wrapper \<times> out) comp" where
  "lw_flush lw out =
     (if buf_empty lw then ret (lw, out)
      else bindc (flush_loop (lw\<lparr>lw_wrote_something := False\<rparr>) (fst (indent out 0 (lw_x lw)))) (\<lambda>(lw1, out1).
           ret (lw1, emit nl out1)))"

section \<open>Breaking lines\<close>

text \<open>
  How many bytes of the text fit into \<open>width\<close> columns; \<open>data\<close> is what is left of the text behind
  the first \<open>maxi\<close> bytes, which take \<open>utf8width\<close> columns.
\<close>

function fit_chars :: "bool \<Rightarrow> int \<Rightarrow> string \<Rightarrow> nat \<Rightarrow> int \<Rightarrow> nat res" where
  "fit_chars msc width data maxi utf8width =
     (case data of
        [] \<Rightarrow> Inr maxi
      | c # cs \<Rightarrow>
          if utf8width < width
          then bindr (decode_char msc c cs) (\<lambda>(n, wide).
                 if wide \<and> utf8width + 2 > width then Inr maxi
                 else fit_chars msc width (drop (n - 1) cs) (maxi + n) (utf8width + (if wide then 2 else 1)))
          else Inr maxi)"
  by pat_completeness auto
termination by (relation "measure (\<lambda>(_, _, s, _). length s)") auto

declare fit_chars.simps [simp del]

text \<open>The position of the last space at or before \<open>i\<close>.\<close>

fun space_before :: "string \<Rightarrow> nat \<Rightarrow> nat option" where
  "space_before data 0 = (if data ! 0 = CHR '' '' then Some 0 else None)"
| "space_before data (Suc i) = (if data ! Suc i = CHR '' '' then Some (Suc i) else space_before data i)"

text \<open>The length of the next line, and where the text goes on behind it.\<close>

definition next_line :: "bool \<Rightarrow> int \<Rightarrow> string \<Rightarrow> (nat \<times> nat) res" where
  "next_line msc width data =
     (if int (length data) \<le> width then Inr (length data, length data)
      else bindr (fit_chars msc width data 0 0) (\<lambda>maxi.
             if maxi = length data then Inr (length data, length data)
             else Inr (case space_before data maxi of Some i \<Rightarrow> (i, i + 1) | None \<Rightarrow> (maxi, maxi))))"

partial_function (option) process_loop ::
  "bool \<Rightarrow> string \<Rightarrow> line_wrapper \<Rightarrow> out \<Rightarrow> (line_wrapper \<times> out) comp" where
  "process_loop msc data lw out =
     (if data = [] then ret (lw, out)
      else bindc (liftc (next_line msc (lw_width lw) data)) (\<lambda>line.
           bindc (liftc (lw_output data (fst line) lw out)) (\<lambda>r.
           process_loop msc (drop (snd line) data) (fst r) (snd r))))"

declare process_loop.simps [code]

definition lw_process :: "bool \<Rightarrow> string \<Rightarrow> line_wrapper \<Rightarrow> out \<Rightarrow> (line_wrapper \<times> out) comp" where
  "lw_process msc data lw out =
     bindc (process_loop msc data (lw\<lparr>lw_wrote_something := False\<rparr>) out) (\<lambda>(lw1, out1).
       if \<not> lw_wrote_something lw1 then liftc (write_one_line lw1 out1) else ret (lw1, out1))"

end
