(* ===== verification/Line_Queue.thy ===== *)
theory Line_Queue
  imports Line_Wrapper
begin

text \<open>
  The ring buffer of \<open>LineWrapper\<close> as a queue of lines of bounded capacity: the interface, what a
  client that makes room by printing the oldest line gets from it, and the ring buffer as its
  implementation.
\<close>

section \<open>The interface\<close>

locale line_queue =
  fixes good :: "'q \<Rightarrow> bool"
    and contents :: "'q \<Rightarrow> 'a list"
    and capacity :: nat
    and is_empty :: "'q \<Rightarrow> bool"
    and is_full :: "'q \<Rightarrow> bool"
    and store :: "'a \<Rightarrow> 'q \<Rightarrow> 'q res"
    and front :: "'q \<Rightarrow> 'a"
    and behind :: "'q \<Rightarrow> 'q"
    and elem :: "'a \<Rightarrow> bool"
  assumes capacity_pos: "0 < capacity"
    and bounded: "good q \<Longrightarrow> length (contents q) \<le> capacity"
    and is_empty_iff: "good q \<Longrightarrow> is_empty q \<longleftrightarrow> contents q = []"
    and is_full_iff: "good q \<Longrightarrow> is_full q \<longleftrightarrow> length (contents q) = capacity"
    and store_contents: "good q \<Longrightarrow> \<not> is_full q \<Longrightarrow> elem x \<Longrightarrow>
          \<exists>q'. store x q = Inr q' \<and> good q' \<and> contents q' = contents q @ [x]"
    and behind_contents: "good q \<Longrightarrow> \<not> is_empty q \<Longrightarrow>
          good (behind q) \<and> contents q = front q # contents (behind q)"
begin

lemma full_not_empty: "good q \<Longrightarrow> is_full q \<Longrightarrow> \<not> is_empty q"
  using is_full_iff is_empty_iff capacity_pos by force

text \<open>Storing into a full queue after its oldest element left.\<close>

lemma store_behind:
  assumes "good q" "is_full q" "elem x"
  shows "\<exists>q'. store x (behind q) = Inr q' \<and> good q' \<and> contents q @ [x] = front q # contents q'"
proof -
  have b: "good (behind q)" "contents q = front q # contents (behind q)"
    using behind_contents [OF assms(1) full_not_empty [OF assms(1,2)]] by simp_all
  then have "\<not> is_full (behind q)"
    using is_full_iff [OF assms(1)] is_full_iff [OF b(1)] assms(2) by auto
  from store_contents [OF b(1) this assms(3)] show ?thesis using b(2) by fastforce
qed

text \<open>
  What a client does that makes room before it stores: at most one element leaves, and the
  elements that left and those in the queue are all elements in their order.
\<close>

lemma store_evicting:
  assumes "good q" "elem x"
  shows "\<exists>q'. store x (if is_full q then behind q else q) = Inr q' \<and> good q' \<and>
     contents q @ [x] = (if is_full q then [front q] else []) @ contents q' \<and>
     length (if is_full q then [front q] else []) = length (contents q) + 1 - capacity"
proof (cases "is_full q")
  case True
  then show ?thesis using store_behind [OF assms(1) True assms(2)] is_full_iff [OF assms(1)] by simp
next
  case False
  then have "length (contents q) + 1 \<le> capacity" using bounded [OF assms(1)] is_full_iff [OF assms(1)] by force
  then show ?thesis using store_contents [OF assms(1) False assms(2)] False by auto
qed

end

section \<open>The ring\<close>

definition ring_count :: "line_wrapper \<Rightarrow> nat" where
  "ring_count lw = (lw_head lw + 15 - lw_tail lw) mod 16"

definition ring_at :: "line_wrapper \<Rightarrow> nat \<Rightarrow> string \<times> nat" where
  "ring_at lw j = (lw_datbuf lw ! (j mod 16), lw_lenbuf lw ! (j mod 16))"

definition ring_lines :: "line_wrapper \<Rightarrow> (string \<times> nat) list" where
  "ring_lines lw = map (\<lambda>i. ring_at lw (lw_tail lw + 1 + i)) [0..<ring_count lw]"

definition ring_ok :: "line_wrapper \<Rightarrow> bool" where
  "ring_ok lw \<longleftrightarrow>
     length (lw_lenbuf lw) = 16 \<and> length (lw_datbuf lw) = 16 \<and> lw_head lw < 16 \<and> lw_tail lw < 16 \<and>
     (\<forall>(d, n)\<in>set (ring_lines lw). n \<le> length d)"

lemma and_bufmask [simp]: "n AND bufmask = n mod 16" for n :: nat
  using take_bit_eq_mask [of 4 n] by (simp add: bufmask_def take_bit_eq_mod mask_eq_exp_minus_1)

lemma length_ring_lines [simp]: "length (ring_lines lw) = ring_count lw"
  by (simp add: ring_lines_def)

lemma ring_count_cases:
  assumes "lw_head lw < 16" "lw_tail lw < 16"
  shows "ring_count lw = (if lw_tail lw < lw_head lw then lw_head lw - lw_tail lw - 1 else lw_head lw + 15 - lw_tail lw)"
proof (cases "lw_tail lw < lw_head lw")
  case True
  then have "lw_head lw + 15 - lw_tail lw = (lw_head lw - lw_tail lw - 1) + 16" by simp
  then have "ring_count lw = (lw_head lw - lw_tail lw - 1) mod 16" by (simp only: ring_count_def mod_add_self2)
  then show ?thesis using True assms by simp
next
  case False
  then show ?thesis using assms by (simp add: ring_count_def)
qed

lemma ring_empty: "ring_ok lw \<Longrightarrow> buf_empty lw \<longleftrightarrow> ring_count lw = 0"
  by (auto simp: ring_ok_def ring_count_cases buf_empty_def split: if_splits)
    (cases "lw_tail lw = 15"; auto)+

lemma ring_full: "ring_ok lw \<Longrightarrow> buf_full lw \<longleftrightarrow> ring_count lw = 15"
  by (auto simp: ring_ok_def ring_count_cases buf_full_def split: if_splits)

lemma ring_bound: "ring_ok lw \<Longrightarrow> ring_count lw \<le> 15"
  by (auto simp: ring_ok_def ring_count_cases)

lemma ring_head: "ring_ok lw \<Longrightarrow> (lw_tail lw + 1 + ring_count lw) mod 16 = lw_head lw"
  by (auto simp: ring_ok_def ring_count_cases)

lemma ring_lines_same:
  assumes "lw_lenbuf lw' = lw_lenbuf lw" "lw_datbuf lw' = lw_datbuf lw" "lw_head lw' = lw_head lw" "lw_tail lw' = lw_tail lw"
  shows "ring_lines lw' = ring_lines lw" "ring_ok lw' = ring_ok lw" "buf_empty lw' = buf_empty lw"
    "buf_full lw' = buf_full lw" "ring_count lw' = ring_count lw"
  using assms by (simp_all add: ring_lines_def ring_ok_def ring_at_def ring_count_def buf_empty_def buf_full_def)

lemma mod16_distinct:
  assumes "i < c" "c < 16"
  shows "(a + i) mod 16 \<noteq> (a + c) mod (16 :: nat)"
proof
  assume "(a + i) mod 16 = (a + c) mod 16"
  then have "16 dvd (a + c) - (a + i)" using mod_eq_dvd_iff_nat [of "a + i" "a + c" 16] assms(1) by simp
  then have "16 dvd c - i" by simp
  then show False using assms dvd_imp_le [of 16 "c - i"] by simp
qed

lemma ring_store:
  assumes "ring_ok lw" "\<not> buf_full lw" "n \<le> length d"
  shows "\<exists>lw'. buf_store d n lw = Inr lw' \<and> ring_ok lw' \<and> ring_lines lw' = ring_lines lw @ [(d, n)] \<and>
           lw_x lw' = lw_x lw \<and> lw_width lw' = lw_width lw \<and> lw_wrote_something lw' = lw_wrote_something lw"
proof -
  let ?lw = "lw\<lparr>lw_lenbuf := (lw_lenbuf lw)[lw_head lw := n], lw_datbuf := (lw_datbuf lw)[lw_head lw := d],
    lw_head := (lw_head lw + 1) mod 16\<rparr>"
  have b: "length (lw_lenbuf lw) = 16" "length (lw_datbuf lw) = 16" "lw_head lw < 16" "lw_tail lw < 16"
    using assms(1) by (auto simp: ring_ok_def)
  have c: "ring_count lw < 15" using assms(1,2) ring_full ring_bound [of lw] by fastforce
  have count: "ring_count ?lw = Suc (ring_count lw)"
    using b c assms(2) by (auto simp: ring_count_cases buf_full_def split: if_splits)
      (cases "lw_head lw = 15"; simp)+
  have h: "(lw_tail lw + 1 + ring_count lw) mod 16 = lw_head lw" by (rule ring_head [OF assms(1)])
  have "ring_at ?lw (lw_tail lw + 1 + i) = ring_at lw (lw_tail lw + 1 + i)" if "i < ring_count lw" for i
    using mod16_distinct [OF that, of "lw_tail lw + 1"] c h by (simp add: ring_at_def)
  moreover have "ring_at ?lw (lw_tail lw + 1 + ring_count lw) = (d, n)"
    using h b by (simp add: ring_at_def)
  ultimately have lines: "ring_lines ?lw = ring_lines lw @ [(d, n)]"
    unfolding ring_lines_def count by simp
  moreover have "ring_ok ?lw" using assms(1,3) b lines by (auto simp: ring_ok_def)
  ultimately show ?thesis using b by (simp add: buf_store_def)
qed

lemma ring_next:
  assumes "ring_ok lw" "\<not> buf_empty lw"
  shows "ring_ok (buf_next lw)"
    and "ring_lines lw = ring_at (buf_next lw) (lw_tail (buf_next lw)) # ring_lines (buf_next lw)"
proof -
  have b: "lw_head lw < 16" "lw_tail lw < 16" using assms(1) by (auto simp: ring_ok_def)
  obtain c where c: "ring_count lw = Suc c" using assms ring_empty not0_implies_Suc by blast
  have count: "ring_count (buf_next lw) = c"
    using b c assms by (auto simp: ring_count_cases buf_empty_def buf_next_def split: if_splits)
      (cases "lw_tail lw = 15"; simp)+
  have at: "ring_at (buf_next lw) j = ring_at lw j" for j by (simp add: ring_at_def buf_next_def)
  have m: "((a mod 16) + k) mod 16 = (a + k) mod (16 :: nat)" for a k by presburger
  have "ring_at lw (lw_tail (buf_next lw)) = ring_at lw (lw_tail lw + 1 + 0)"
    by (simp add: ring_at_def buf_next_def)
  moreover have "ring_at lw (lw_tail (buf_next lw) + 1 + i) = ring_at lw (lw_tail lw + 1 + Suc i)" for i
    using m [of "lw_tail lw + 1" "1 + i"] by (simp add: ring_at_def buf_next_def)
  ultimately show l: "ring_lines lw = ring_at (buf_next lw) (lw_tail (buf_next lw)) # ring_lines (buf_next lw)"
    unfolding ring_lines_def count c at by (simp add: upt_conv_Cons map_Suc_upt [symmetric] del: upt_Suc)
  show "ring_ok (buf_next lw)"
    using assms(1) l by (auto simp: ring_ok_def) (simp_all add: buf_next_def)
qed

text \<open>The elements of the queue are a text and how much of it is the line.\<close>

interpretation ring: line_queue ring_ok ring_lines 15 buf_empty buf_full
  "\<lambda>(d, n). buf_store d n" "\<lambda>lw. ring_at (buf_next lw) (lw_tail (buf_next lw))" buf_next
  "\<lambda>(d, n). n \<le> length d"
proof
  fix lw :: line_wrapper
  assume "ring_ok lw"
  then show "buf_empty lw \<longleftrightarrow> ring_lines lw = []" using ring_empty by (simp flip: length_0_conv)
next
  fix lw :: line_wrapper and x :: "string \<times> nat"
  assume "ring_ok lw" "\<not> buf_full lw" "case x of (d, n) \<Rightarrow> n \<le> length d"
  then show "\<exists>lw'. (case x of (d, n) \<Rightarrow> buf_store d n) lw = Inr lw' \<and> ring_ok lw' \<and> ring_lines lw' = ring_lines lw @ [x]"
    using ring_store [of lw "snd x" "fst x"] by (auto simp: case_prod_beta)
qed (use ring_bound ring_full ring_next in simp_all)

section \<open>Printing lines\<close>

definition line_text :: "string \<times> nat \<Rightarrow> string" where
  "line_text = (\<lambda>(d, n). take n d)"

definition texts :: "line_wrapper \<Rightarrow> string list" where
  "texts lw = map line_text (ring_lines lw)"

definition margin :: "int \<Rightarrow> out" where
  "margin x = fst (indent [] 0 x)"

fun put_lines :: "int \<Rightarrow> bool \<Rightarrow> string list \<Rightarrow> out" where
  "put_lines x wrote [] = []"
| "put_lines x wrote (l # ls) = (if wrote then nl # margin x else []) @ l # put_lines x True ls"

lemma indent_out: "fst (indent out x want) = out @ fst (indent [] x want)" "snd (indent out x want) = snd (indent [] x want)"
  by (simp_all add: indent_def emit_def Let_def)

lemma put_lines_append: "put_lines x wrote (ls @ ls') = put_lines x wrote ls @ put_lines x (wrote \<or> ls \<noteq> []) ls'"
  by (induction ls arbitrary: wrote) auto

lemma ring_lines_wrote [simp]:
  "ring_lines (lw\<lparr>lw_wrote_something := b\<rparr>) = ring_lines lw" "ring_ok (lw\<lparr>lw_wrote_something := b\<rparr>) = ring_ok lw"
  "buf_empty (lw\<lparr>lw_wrote_something := b\<rparr>) = buf_empty lw" "buf_full (lw\<lparr>lw_wrote_something := b\<rparr>) = buf_full lw"
  "texts (lw\<lparr>lw_wrote_something := b\<rparr>) = texts lw"
  using ring_lines_same [of "lw\<lparr>lw_wrote_something := b\<rparr>" lw] by (simp_all add: texts_def)

lemma buf_next_fields [simp]:
  "lw_x (buf_next lw) = lw_x lw" "lw_width (buf_next lw) = lw_width lw"
  "lw_wrote_something (buf_next lw) = lw_wrote_something lw"
  by (simp_all add: buf_next_def)

lemma write_one_line_lines:
  assumes "ring_ok lw" "\<not> buf_empty lw"
  shows "write_one_line lw out =
     Inr ((buf_next lw)\<lparr>lw_wrote_something := True\<rparr>,
          out @ put_lines (lw_x lw) (lw_wrote_something lw)
            [line_text (ring_at (buf_next lw) (lw_tail (buf_next lw)))])"
proof -
  let ?lw = "buf_next lw"
  have r: "ring_ok ?lw" "ring_lines lw = ring_at ?lw (lw_tail ?lw) # ring_lines ?lw"
    by (rule ring_next [OF assms])+
  have "snd (ring_at ?lw (lw_tail ?lw)) \<le> length (fst (ring_at ?lw (lw_tail ?lw)))"
    using assms(1) r(2) by (auto simp: ring_ok_def)
  then have "write_buffered ?lw o' = Inr (emit (line_text (ring_at ?lw (lw_tail ?lw))) o')" for o'
    using r(1) by (auto simp: write_buffered_def ring_ok_def ring_at_def line_text_def Let_def)
  then show ?thesis using assms(2)
    by (simp add: write_one_line_def Let_def indent_out(1) [of "out @ [nl]"] margin_def emit_def)
qed

lemma write_one_line_empty:
  "buf_empty lw \<Longrightarrow> \<not> lw_wrote_something lw \<Longrightarrow>
     write_one_line lw out = Inr (lw\<lparr>lw_wrote_something := True\<rparr>, out)"
  by (simp add: write_one_line_def)

lemma buf_store_wrote:
  "buf_store d n (lw\<lparr>lw_wrote_something := b\<rparr>) =
     bindr (buf_store d n lw) (\<lambda>q. Inr (q\<lparr>lw_wrote_something := b\<rparr>))"
  by (simp add: buf_store_def)

lemma buf_store_fields:
  assumes "buf_store d n lw = Inr q"
  shows "lw_x q = lw_x lw" "lw_width q = lw_width lw" "lw_wrote_something q = lw_wrote_something lw"
  using assms by (auto simp: buf_store_def split: if_splits)

text \<open>One call of \<open>output\<close>, and a sequence of them.\<close>

lemma lw_output_lines:
  assumes "ring_ok lw" "n \<le> length d"
  shows "\<exists>lw' ls. lw_output d n lw out = Inr (lw', out @ put_lines (lw_x lw) (lw_wrote_something lw) ls) \<and>
     ring_ok lw' \<and> texts lw @ [take n d] = ls @ texts lw' \<and> length ls = length (texts lw) + 1 - 15 \<and>
     lw_x lw' = lw_x lw \<and> lw_width lw' = lw_width lw \<and>
     lw_wrote_something lw' = (lw_wrote_something lw \<or> ls \<noteq> [])"
proof -
  let ?f = "buf_full lw"
  let ?q = "if ?f then buf_next lw else lw"
  let ?ls = "if ?f then [ring_at (buf_next lw) (lw_tail (buf_next lw))] else []"
  obtain q where q: "buf_store d n ?q = Inr q" "ring_ok q" "ring_lines lw @ [(d, n)] = ?ls @ ring_lines q"
    "length ?ls = length (ring_lines lw) + 1 - 15"
    using ring.store_evicting [OF assms(1), of "(d, n)"] assms(2) by auto
  let ?w = "lw_wrote_something lw \<or> ?f"
  have "lw_output d n lw out = Inr (q\<lparr>lw_wrote_something := ?w\<rparr>,
      out @ put_lines (lw_x lw) (lw_wrote_something lw) (map line_text ?ls))"
    using q(1) buf_store_fields [OF q(1)] write_one_line_lines [OF assms(1)] ring.full_not_empty [OF assms(1)]
    by (auto simp: lw_output_def buf_store_wrote)
  moreover have "texts lw @ [take n d] = map line_text ?ls @ texts q"
    using arg_cong [OF q(3), of "map line_text"] by (simp add: texts_def line_text_def)
  ultimately show ?thesis using q(2,4) buf_store_fields [OF q(1)]
    by (intro exI [of _ "q\<lparr>lw_wrote_something := ?w\<rparr>"] exI [of _ "map line_text ?ls"]) (auto simp: texts_def)
qed

lemma ring_new:
  assumes "length junk = 16"
  shows "ring_ok (line_wrapper_new junk wrote x1 x2)" "texts (line_wrapper_new junk wrote x1 x2) = []"
    "buf_empty (line_wrapper_new junk wrote x1 x2)"
proof -
  let ?lw = "line_wrapper_new junk wrote x1 x2"
  have "ring_count ?lw = 0" by (simp add: ring_count_def line_wrapper_new_def bufmask_def)
  then have "ring_lines ?lw = []" by (simp flip: length_0_conv)
  then show "ring_ok ?lw" "texts ?lw = []" using assms
    by (simp_all add: ring_ok_def texts_def) (simp_all add: line_wrapper_new_def bufmask_def)
  show "buf_empty ?lw" by (simp add: buf_empty_def line_wrapper_new_def) (simp add: bufmask_def)
qed

text \<open>Flushing prints what is left.\<close>

lemma texts_next:
  assumes "ring_ok lw" "\<not> buf_empty lw"
  shows "texts lw = line_text (ring_at (buf_next lw) (lw_tail (buf_next lw))) # texts (buf_next lw)"
  using ring_next(2) [OF assms] by (simp add: texts_def)

lemma texts_empty: "ring_ok lw \<Longrightarrow> buf_empty lw \<longleftrightarrow> texts lw = []"
  using ring.is_empty_iff by (simp add: texts_def)

lemma flush_loop_lines:
  "ring_ok lw \<Longrightarrow> \<exists>lw'. flush_loop lw out = ret (lw', out @ put_lines (lw_x lw) (lw_wrote_something lw) (texts lw)) \<and>
     ring_ok lw' \<and> texts lw' = [] \<and> lw_x lw' = lw_x lw \<and> lw_width lw' = lw_width lw"
proof (induction "length (texts lw)" arbitrary: lw out)
  case 0
  then show ?case using texts_empty [of lw] by (subst flush_loop.simps) simp
next
  case (Suc k)
  then have ne: "\<not> buf_empty lw" using texts_empty by force
  let ?l = "line_text (ring_at (buf_next lw) (lw_tail (buf_next lw)))"
  let ?lw = "(buf_next lw)\<lparr>lw_wrote_something := True\<rparr>"
  let ?out = "out @ put_lines (lw_x lw) (lw_wrote_something lw) [?l]"
  have t: "texts lw = ?l # texts ?lw" "ring_ok ?lw" using texts_next [OF Suc.prems ne] ring_next(1) [OF Suc.prems ne] by simp_all
  then obtain lw' where l: "flush_loop ?lw ?out = ret (lw', ?out @ put_lines (lw_x lw) True (texts ?lw))"
    "ring_ok lw'" "texts lw' = []" "lw_x lw' = lw_x lw" "lw_width lw' = lw_width lw"
    using Suc.hyps(1) [of ?lw ?out] Suc.hyps(2) by auto
  have "flush_loop lw out = flush_loop ?lw ?out"
    using ne write_one_line_lines [OF Suc.prems ne, of out] by (subst flush_loop.simps) simp
  then show ?case using l t(1) by simp
qed

lemma lw_flush_lines:
  assumes "ring_ok lw"
  shows "\<exists>lw'. lw_flush lw out =
       ret (lw', out @ (if texts lw = [] then [] else margin (lw_x lw) @ put_lines (lw_x lw) False (texts lw) @ [nl])) \<and>
     ring_ok lw' \<and> texts lw' = [] \<and> lw_x lw' = lw_x lw \<and> lw_width lw' = lw_width lw"
proof (cases "texts lw = []")
  case True
  then show ?thesis using texts_empty [OF assms] assms by (simp add: lw_flush_def)
next
  case False
  then show ?thesis
    using texts_empty [OF assms] assms indent_out(1) [of out 0 "lw_x lw"]
      flush_loop_lines [of "lw\<lparr>lw_wrote_something := False\<rparr>" "out @ margin (lw_x lw)"]
    by (auto simp: lw_flush_def margin_def emit_def)
qed

end
