(* ===== verification/Wrap_Text.thy ===== *)
theory Wrap_Text
  imports Line_Queue
begin

text \<open>
  Texts without control characters and without the bytes FE and FF, on which decoding never
  fails: the length of their parts, and the lines \<open>LineWrapper\<close> breaks them into.
\<close>

section \<open>Decoding\<close>

definition text_byte :: "char \<Rightarrow> bool" where
  "text_byte c \<longleftrightarrow> c \<noteq> nul \<and> c \<noteq> VT \<and> c \<noteq> TAB \<and> c \<noteq> LF \<and> uchar c < 0xFE"

definition cont_byte :: "char \<Rightarrow> bool" where
  "cont_byte b \<longleftrightarrow> uchar b XOR 0x80 \<le> 0x3F"

lemma bit_scan_reverse_pos: "2 \<le> x \<Longrightarrow> 1 \<le> bit_scan_reverse x"
  by (subst bit_scan_reverse.simps) simp

lemma length_mask_ok:
  assumes "ch < 0xFE"
  shows "\<exists>m. length_mask msc ch = Inr m"
proof -
  let ?x = "ch XOR 0xff"
  have twice: "ch = ?x XOR 0xff" by (simp add: xor.assoc)
  have "ch = 0xff" if "?x = 0" using twice unfolding that by simp
  moreover have "ch = 0xfe" if "?x = 1" using twice unfolding that by simp
  ultimately have x: "?x \<noteq> 0" "?x \<noteq> 1" using assms by auto
  then have "unat ?x \<noteq> 0" "unat ?x \<noteq> 1" by (simp_all add: word_unat_eq_iff)
  then have "2 \<le> unat ?x" by linarith
  then have "1 \<le> bit_scan_reverse (unat ?x)" by (rule bit_scan_reverse_pos)
  moreover have "31 - b < (32 :: nat)" for b by linarith
  ultimately show ?thesis using x by (simp add: length_mask_def builtin_clz_def)
qed

lemma not_cont_space: "\<not> cont_byte (CHR '' '')"
  by code_simp

lemma continuation_props:
  assumes "continuation bs ch k = (ch', n)"
  shows "k \<le> n \<and> n - k \<le> length bs \<and> (\<forall>b\<in>set (take (n - k) bs). cont_byte b) \<and>
         (\<forall>m\<ge>n - k. continuation (take m bs) ch k = (ch', n))"
  using assms
proof (induction bs ch k rule: continuation.induct)
  case (2 b bs ch k)
  show ?case
  proof (cases "uchar b XOR 0x80 \<le> 0x3F")
    case True
    then have c: "continuation bs ((push_bit 6 ch XOR uchar b) XOR 0x80) (k + 1) = (ch', n)" using 2(2) by simp
    have h: "Suc k \<le> n" "n - Suc k \<le> length bs" "\<forall>b\<in>set (take (n - Suc k) bs). cont_byte b"
      "\<forall>m\<ge>n - Suc k. continuation (take m bs) ((push_bit 6 ch XOR uchar b) XOR 0x80) (Suc k) = (ch', n)"
      using 2(1) [OF True c] by (auto simp del: continuation.simps)
    obtain j where j: "n - k = Suc j" "j = n - Suc k" using h(1) by (metis Suc_diff_Suc Suc_le_lessD)
    have "continuation (take m (b # bs)) ch k = (ch', n)" if "m \<ge> n - k" for m
      using h(4) True that j by (cases m) auto
    then show ?thesis using h j True by (auto simp: cont_byte_def)
  next
    case False
    then have "continuation (take m (b # bs)) ch k = (ch', n)" for m
      using 2(2) by (cases m) auto
    then show ?thesis using False 2(2) by auto
  qed
qed auto

lemma continuation_zero: "continuation bs ch k = (ch', k) \<Longrightarrow> ch' = ch"
  using continuation_props [of "tl bs" _ "Suc k" ch' k] by (cases bs) (auto split: if_splits)

lemma decode_char_props:
  assumes "text_byte c"
  shows "\<exists>n wide. decode_char msc c bs = Inr (n, wide) \<and> 1 \<le> n \<and> n \<le> Suc (length bs) \<and> (wide \<longrightarrow> 2 \<le> n) \<and>
     (\<forall>b\<in>set (take (n - 1) bs). cont_byte b) \<and> (\<forall>m\<ge>n - 1. decode_char msc c (take m bs) = Inr (n, wide))"
proof (cases "uchar c > 0xC1")
  case False
  then have "decode_char msc c bs' = Inr (1, False)" for bs' by (simp add: decode_char_def)
  then show ?thesis by (intro exI [of _ 1] exI [of _ False]) simp
next
  case True
  obtain mask where m: "length_mask msc (uchar c) = Inr mask"
    using length_mask_ok assms unfolding text_byte_def by blast
  obtain ch' n where c: "continuation bs (uchar c AND mask) 0 = (ch', n)" by force
  note p = continuation_props [OF c]
  have "ch' < 0x1100" if "n = 0"
    using continuation_zero [of bs "uchar c AND mask" 0 ch'] c that word_and_le2 [of "uchar c" mask] assms
    by (auto simp: text_byte_def intro: le_less_trans order.strict_trans)
  then have "1 \<le> n" if "0x1100 \<le> ch'" using that by (cases n) auto
  then show ?thesis using m c p True
    by (auto simp: decode_char_def intro!: exI [of _ "Suc n"])
qed

section \<open>Widths\<close>

definition printable :: "string \<Rightarrow> bool" where
  "printable s \<longleftrightarrow> (\<forall>c\<in>set s. text_byte c)"

lemma printable_simps [simp]:
  "printable []" "printable (c # s) \<longleftrightarrow> text_byte c \<and> printable s"
  "printable (s @ s') \<longleftrightarrow> printable s \<and> printable s'"
  by (auto simp: printable_def)

lemma printable_take [intro]: "printable s \<Longrightarrow> printable (take n s)"
  by (auto simp: printable_def dest: in_set_takeD)

lemma printable_drop [intro]: "printable s \<Longrightarrow> printable (drop n s)"
  by (auto simp: printable_def dest: in_set_dropD)

lemma part_length_offset:
  "part_length msc s (a + len) (b + w) = bindr (part_length msc s len w) (\<lambda>(n, v). Inr (a + n, b + v))"
proof (induction msc s len w rule: part_length.induct)
  case (1 msc s len w)
  show ?case
  proof (cases s)
    case Nil
    then show ?thesis by (simp add: part_length.simps)
  next
    case (Cons c cs)
    show ?thesis
    proof (cases "c = nul \<or> c = VT \<or> c = TAB \<or> c = LF")
      case True
      then show ?thesis using Cons by (auto simp: part_length.simps)
    next
      case False
      note IH = 1 [OF Cons False]
      show ?thesis
      proof (cases "decode_char msc c cs")
        case (Inl e)
        then show ?thesis using Cons False by (simp add: part_length.simps [of msc "c # cs"])
      next
        case (Inr r)
        then show ?thesis using Cons False IH
          by (cases r) (simp add: part_length.simps [of msc "c # cs"] add.assoc)
      qed
    qed
  qed
qed

lemma part_length_Cons:
  assumes "text_byte c" "decode_char msc c cs = Inr (n, wide)"
  shows "part_length msc (c # cs) 0 0 =
     bindr (part_length msc (drop (n - 1) cs) 0 0) (\<lambda>(l, v). Inr (n + l, (if wide then 2 else 1) + v))"
  using assms part_length_offset [of msc "drop (n - 1) cs" n 0 "if wide then 2 else 1" 0]
  by (simp add: part_length.simps [of msc "c # cs"] text_byte_def)

lemma part_length_Nil [simp]: "part_length msc [] len w = Inr (len, w)"
  by (simp add: part_length.simps)

lemma part_length_printable:
  "printable s \<Longrightarrow> \<exists>w. part_length msc s 0 0 = Inr (length s, w) \<and> w \<le> length s"
proof (induction s rule: length_induct)
  case (1 s)
  show ?case
  proof (cases s)
    case (Cons c cs)
    have c: "text_byte c" "printable cs" using 1(2) Cons by simp_all
    obtain n wide where d: "decode_char msc c cs = Inr (n, wide)" "1 \<le> n" "n \<le> Suc (length cs)" "wide \<longrightarrow> 2 \<le> n"
      using decode_char_props [OF c(1), of msc cs] by blast
    have "length (drop (n - 1) cs) < length s" using Cons by simp
    then obtain w where "part_length msc (drop (n - 1) cs) 0 0 = Inr (length (drop (n - 1) cs), w)"
      "w \<le> length (drop (n - 1) cs)"
      using 1(1) printable_drop [OF c(2)] by blast
    then show ?thesis using Cons part_length_Cons [OF c(1) d(1)] d(2-4) by auto
  qed simp
qed

text \<open>A printable text takes at most \<open>width\<close> columns.\<close>

definition fits_in :: "bool \<Rightarrow> int \<Rightarrow> string \<Rightarrow> bool" where
  "fits_in msc width s \<longleftrightarrow> (\<exists>w. part_length msc s 0 0 = Inr (length s, w) \<and> int w \<le> width)"

lemma fits_in_short: "printable s \<Longrightarrow> int (length s) \<le> width \<Longrightarrow> fits_in msc width s"
  using part_length_printable [of s msc] by (force simp: fits_in_def)

lemma take_char:
  assumes "text_byte c" "decode_char msc c cs = Inr (n, wide)" "1 \<le> n" "n \<le> k"
    and "\<forall>m\<ge>n - 1. decode_char msc c (take m cs) = Inr (n, wide)"
  shows "part_length msc (take k (c # cs)) 0 0 =
     bindr (part_length msc (take (k - n) (drop (n - 1) cs)) 0 0) (\<lambda>(l, v). Inr (n + l, (if wide then 2 else 1) + v))"
proof -
  obtain j where k: "k = Suc j" using assms(3,4) by (cases k) auto
  have "decode_char msc c (take j cs) = Inr (n, wide)" using assms(4,5) k by simp
  moreover have "drop (n - 1) (take j cs) = take (k - n) (drop (n - 1) cs)"
    using assms(3) k by (simp add: drop_take)
  ultimately show ?thesis using part_length_Cons [OF assms(1)] k by simp
qed

text \<open>Cutting a text at a space.\<close>

lemma fits_in_space:
  "printable s \<Longrightarrow> fits_in msc width s \<Longrightarrow> i < length s \<Longrightarrow> s ! i = CHR '' '' \<Longrightarrow> 0 \<le> width \<Longrightarrow>
     fits_in msc width (take i s)"
proof (induction s arbitrary: i width rule: length_induct)
  case (1 s)
  then obtain c cs where s: "s = c # cs" by (cases s) auto
  have c: "text_byte c" "printable cs" using 1(2) s by simp_all
  obtain n wide where d: "decode_char msc c cs = Inr (n, wide)" "1 \<le> n" "n \<le> Suc (length cs)"
    "\<forall>b\<in>set (take (n - 1) cs). cont_byte b" "\<forall>m\<ge>n - 1. decode_char msc c (take m cs) = Inr (n, wide)"
    using decode_char_props [OF c(1), of msc cs] by blast
  let ?v = "if wide then 2 else (1 :: nat)"
  show ?case
  proof (cases "i = 0")
    case True
    then show ?thesis using 1(6) by (simp add: fits_in_def)
  next
    case False
    have "n \<le> i"
    proof (rule ccontr)
      assume "\<not> n \<le> i"
      then have "cs ! (i - 1) \<in> set (take (n - 1) cs)"
        using False d(3) by (auto simp: in_set_conv_nth intro!: exI [of _ "i - 1"])
      then show False using d(4) not_cont_space 1(5) False s by auto
    qed
    let ?r = "drop (n - 1) cs"
    obtain w where w: "part_length msc ?r 0 0 = Inr (length ?r, w)" "int (?v + w) \<le> width"
      using 1(3) part_length_Cons [OF c(1) d(1)] part_length_printable [OF printable_drop [OF c(2)], of msc "n - 1"]
      unfolding s fits_in_def by auto
    have "fits_in msc (width - int ?v) (take (i - n) ?r)"
    proof (rule 1(1) [rule_format])
      show "length ?r < length s" "printable ?r" using s c(2) by auto
      show "fits_in msc (width - int ?v) ?r" using w by (auto simp: fits_in_def)
      show "i - n < length ?r" "?r ! (i - n) = CHR '' ''" "0 \<le> width - int ?v"
        using 1(4,5) s \<open>n \<le> i\<close> d(2) w(2) by (auto simp: nth_Cons')
    qed
    then obtain v where "part_length msc (take (i - n) ?r) 0 0 = Inr (length (take (i - n) ?r), v)" "int v \<le> width - int ?v"
      unfolding fits_in_def by blast
    moreover have "n + length (take (i - n) ?r) = length (take i s)" using 1(4) s \<open>n \<le> i\<close> d(2) by auto
    ultimately show ?thesis using take_char [OF c(1) d(1,2) \<open>n \<le> i\<close> d(5)] unfolding fits_in_def s by auto
  qed
qed

section \<open>Breaking a text into lines\<close>

lemma fit_chars_props:
  "printable data \<Longrightarrow> u \<le> width \<Longrightarrow>
     \<exists>m. fit_chars msc width data maxi u = Inr (maxi + m) \<and> m \<le> length data \<and>
         fits_in msc (width - u) (take m data) \<and> (data \<noteq> [] \<longrightarrow> u + 2 \<le> width \<longrightarrow> 1 \<le> m)"
proof (induction data arbitrary: maxi u rule: length_induct)
  case (1 data)
  show ?case
  proof (cases "data = [] \<or> u \<ge> width")
    case True
    then have "fit_chars msc width data maxi u = Inr maxi" by (auto simp: fit_chars.simps split: list.split)
    then show ?thesis using True 1(3) by (intro exI [of _ 0]) (auto simp: fits_in_def)
  next
    case False
    then obtain c cs where s: "data = c # cs" "u < width" by (cases data) auto
    have c: "text_byte c" "printable cs" using 1(2) s by simp_all
    obtain n wide where d: "decode_char msc c cs = Inr (n, wide)" "1 \<le> n" "n \<le> Suc (length cs)"
      "\<forall>m\<ge>n - 1. decode_char msc c (take m cs) = Inr (n, wide)"
      using decode_char_props [OF c(1), of msc cs] by blast
    show ?thesis
    proof (cases "wide \<and> u + 2 > width")
      case True
      then have "fit_chars msc width data maxi u = Inr maxi" using s d(1) by (simp add: fit_chars.simps)
      then show ?thesis using True s by (intro exI [of _ 0]) (auto simp: fits_in_def)
    next
      case False
      let ?u = "u + (if wide then 2 else 1)"
      let ?r = "drop (n - 1) cs"
      have f: "fit_chars msc width data maxi u = fit_chars msc width ?r (maxi + n) ?u"
        using s d(1) False by (auto simp: fit_chars.simps [of msc width "c # cs"])
      have "length ?r < length data" "printable ?r" "?u \<le> width" using s c(2) False by auto
      then obtain m where m: "fit_chars msc width ?r (maxi + n) ?u = Inr (maxi + n + m)" "m \<le> length ?r"
        "fits_in msc (width - ?u) (take m ?r)" using 1(1) by blast
      obtain v where v: "part_length msc (take m ?r) 0 0 = Inr (m, v)" "int v \<le> width - ?u"
        using m(2,3) by (auto simp: fits_in_def)
      have "fits_in msc (width - u) (take (n + m) data)"
        using take_char [OF c(1) d(1,2) _ d(4), of "n + m"] v m(2) d(3) s
        by (auto simp: fits_in_def)
      then show ?thesis using f m(1,2) d(2,3) s by (intro exI [of _ "n + m"]) auto
    qed
  qed
qed

lemma space_before_Some: "space_before data i = Some j \<Longrightarrow> j \<le> i \<and> data ! j = CHR '' ''"
  by (induction data i rule: space_before.induct) (auto split: if_splits)

text \<open>
  A line and what is cut off behind it: nothing, or one space; the pair makes progress.
\<close>

lemma next_line_props:
  assumes "printable data" "data \<noteq> []" "2 \<le> width"
  shows "\<exists>n k. next_line msc width data = Inr (n, k) \<and> 1 \<le> k \<and> k \<le> length data \<and> n \<le> k \<and>
     fits_in msc width (take n data) \<and> (k = n \<or> k = n + 1 \<and> data ! n = CHR '' '')"
proof (cases "int (length data) \<le> width")
  case True
  then show ?thesis using assms fits_in_short [OF assms(1) True] by (simp add: next_line_def Suc_le_eq)
next
  case False
  obtain m where m: "fit_chars msc width data 0 0 = Inr m" "m \<le> length data" "fits_in msc width (take m data)" "1 \<le> m"
    using fit_chars_props [OF assms(1), of 0 width msc 0] assms(2,3) by auto
  show ?thesis
  proof (cases "m = length data")
    case True
    then show ?thesis using m False assms(2) by (simp add: next_line_def)
  next
    case len: False
    show ?thesis
    proof (cases "space_before data m")
      case None
      then show ?thesis using m len False by (simp add: next_line_def)
    next
      case (Some i)
      then have i: "i \<le> m" "data ! i = CHR '' ''" using space_before_Some by auto
      have "fits_in msc width (take i data)"
      proof (cases "i = m")
        case False
        then have "fits_in msc width (take i (take m data))"
          using fits_in_space [OF printable_take [OF assms(1)] m(3), of i] i m(2) assms(3) by simp
        then show ?thesis using i(1) by (simp add: min_def)
      qed (use m in simp)
      then show ?thesis using m len False Some i by (simp add: next_line_def)
    qed
  qed
qed

text \<open>
  The lines of a text: each fits, and the text is the lines in their order with at most one
  space taken out between two of them.
\<close>

inductive wrapped :: "bool \<Rightarrow> int \<Rightarrow> string \<Rightarrow> string list \<Rightarrow> bool" for msc width where
  empty: "wrapped msc width [] []"
| line: "fits_in msc width l \<Longrightarrow> sep \<in> {[], '' ''} \<Longrightarrow> l @ sep \<noteq> [] \<Longrightarrow> wrapped msc width rest ls \<Longrightarrow>
     wrapped msc width (l @ sep @ rest) (l # ls)"

lemma process_loop_lines:
  "printable data \<Longrightarrow> ring_ok lw \<Longrightarrow> 2 \<le> lw_width lw \<Longrightarrow>
     \<exists>lw' ls ps. process_loop msc data lw out = ret (lw', out @ put_lines (lw_x lw) (lw_wrote_something lw) ps) \<and>
       ring_ok lw' \<and> wrapped msc (lw_width lw) data ls \<and> texts lw @ ls = ps @ texts lw' \<and>
       length ps = length (texts lw) + length ls - 15 \<and>
       lw_x lw' = lw_x lw \<and> lw_width lw' = lw_width lw \<and>
       lw_wrote_something lw' = (lw_wrote_something lw \<or> ps \<noteq> [])"
proof (induction data arbitrary: lw out rule: length_induct)
  case (1 data)
  show ?case
  proof (cases "data = []")
    case True
    have "length (texts lw) \<le> 15" using ring.bounded [OF 1(3)] by (simp add: texts_def)
    then show ?thesis using True 1(3) wrapped.empty
      by (intro exI [of _ lw] exI [of _ "[]"] exI [of _ "[]"]) (simp add: process_loop.simps)
  next
    case False
    obtain n k where l: "next_line msc (lw_width lw) data = Inr (n, k)" "1 \<le> k" "k \<le> length data" "n \<le> k"
      "fits_in msc (lw_width lw) (take n data)" "k = n \<or> k = n + 1 \<and> data ! n = CHR '' ''"
      using next_line_props [OF 1(2) False 1(4), of msc] by blast
    obtain lw1 ps1 where u: "lw_output data n lw out =
        Inr (lw1, out @ put_lines (lw_x lw) (lw_wrote_something lw) ps1)"
      "ring_ok lw1" "texts lw @ [take n data] = ps1 @ texts lw1" "length ps1 = length (texts lw) + 1 - 15"
      "lw_x lw1 = lw_x lw" "lw_width lw1 = lw_width lw"
      "lw_wrote_something lw1 = (lw_wrote_something lw \<or> ps1 \<noteq> [])"
      using lw_output_lines [OF 1(3), of n data out] l(3,4) by auto
    let ?out = "out @ put_lines (lw_x lw) (lw_wrote_something lw) ps1"
    have "length (drop k data) < length data" "printable (drop k data)" "2 \<le> lw_width lw1"
      using l(2) False 1(2,4) u(6) by auto
    then obtain lw2 ls ps2 where r: "process_loop msc (drop k data) lw1 ?out =
        ret (lw2, ?out @ put_lines (lw_x lw1) (lw_wrote_something lw1) ps2)"
      "ring_ok lw2" "wrapped msc (lw_width lw1) (drop k data) ls" "texts lw1 @ ls = ps2 @ texts lw2"
      "length ps2 = length (texts lw1) + length ls - 15" "lw_x lw2 = lw_x lw1" "lw_width lw2 = lw_width lw1"
      "lw_wrote_something lw2 = (lw_wrote_something lw1 \<or> ps2 \<noteq> [])"
      using 1(1) u(2) by blast
    have w: "wrapped msc (lw_width lw) data (take n data # ls)"
    proof -
      let ?sep = "if k = n then [] else '' ''"
      have "data = take n data @ ?sep @ drop k data"
        using l(3,6) id_take_nth_drop [of n data] by (cases "k = n") auto
      moreover have "take n data @ ?sep \<noteq> []" using l(2) False by auto
      ultimately show ?thesis
        using wrapped.line [OF l(5), of ?sep "drop k data" ls] r(3) u(6) by simp
    qed
    have "texts lw @ take n data # ls = (ps1 @ ps2) @ texts lw2"
      using u(3) r(4) by (metis append.assoc append_Cons append_Nil)
    moreover have "length (ps1 @ ps2) = length (texts lw) + length (take n data # ls) - 15"
      using u(4) r(5) arg_cong [OF u(3), of length] ring.bounded [OF 1(3)] by (simp add: texts_def)
    moreover have "process_loop msc data lw out =
        ret (lw2, out @ put_lines (lw_x lw) (lw_wrote_something lw) (ps1 @ ps2))"
      using False l(1) u(1,5,7) r(1) by (simp add: process_loop.simps [of msc data] put_lines_append)
    ultimately show ?thesis using w r(2,6-8) u(5-7)
      by (intro exI [of _ lw2] exI [of _ "take n data # ls"] exI [of _ "ps1 @ ps2"]) auto
  qed
qed

text \<open>\<open>process\<close> prints at least one line if there is one, and more only if the ring is full.\<close>

lemma lw_process_lines:
  assumes "printable data" "ring_ok lw" "2 \<le> lw_width lw"
  shows "\<exists>lw' ls ps. lw_process msc data lw out = ret (lw', out @ put_lines (lw_x lw) False ps) \<and>
     ring_ok lw' \<and> wrapped msc (lw_width lw) data ls \<and> texts lw @ ls = ps @ texts lw' \<and>
     length ps = max (length (texts lw) + length ls - 15) (min 1 (length (texts lw) + length ls)) \<and>
     lw_x lw' = lw_x lw \<and> lw_width lw' = lw_width lw"
proof -
  let ?lw = "lw\<lparr>lw_wrote_something := False\<rparr>"
  obtain lw1 ls ps where p: "process_loop msc data ?lw out = ret (lw1, out @ put_lines (lw_x lw) False ps)"
    "ring_ok lw1" "wrapped msc (lw_width lw) data ls" "texts lw @ ls = ps @ texts lw1"
    "length ps = length (texts lw) + length ls - 15" "lw_x lw1 = lw_x lw" "lw_width lw1 = lw_width lw"
    "lw_wrote_something lw1 = (ps \<noteq> [])"
    using process_loop_lines [of data ?lw msc out] assms by auto
  show ?thesis
  proof (cases "ps = []")
    case False
    then have "1 \<le> length ps" by (cases ps) auto
    then have "length ps = max (length (texts lw) + length ls - 15) (min 1 (length (texts lw) + length ls))"
      using p(5) by linarith
    then show ?thesis using p False
      by (rule_tac exI [of _ lw1], rule_tac exI [of _ ls], rule_tac exI [of _ ps]) (auto simp: lw_process_def)
  next
    case True
    show ?thesis
    proof (cases "buf_empty lw1")
      case True
      then show ?thesis using p \<open>ps = []\<close> texts_empty [OF p(2)] write_one_line_empty [OF True]
        by (rule_tac exI [of _ "lw1\<lparr>lw_wrote_something := True\<rparr>"], rule_tac exI [of _ ls], rule_tac exI [of _ "[]"])
          (auto simp: lw_process_def)
    next
      case False
      let ?l = "line_text (ring_at (buf_next lw1) (lw_tail (buf_next lw1)))"
      have "lw_process msc data lw out =
          ret ((buf_next lw1)\<lparr>lw_wrote_something := True\<rparr>, out @ put_lines (lw_x lw) False [?l])"
        using p True write_one_line_lines [OF p(2) False] by (simp add: lw_process_def)
      moreover have "texts lw @ ls = [?l] @ texts (buf_next lw1)"
        using p(4) True texts_next [OF p(2) False] by simp
      moreover from this have "length (texts lw) + length ls \<ge> 1" by (metis One_nat_def length_append length_Cons Suc_le_eq zero_less_Suc add_Suc append_Cons)
      moreover have "length (texts lw) + length ls - 15 = 0" using p(5) True by simp
      ultimately show ?thesis using p True ring_next(1) [OF p(2) False]
        by (rule_tac exI [of _ "(buf_next lw1)\<lparr>lw_wrote_something := True\<rparr>"], rule_tac exI [of _ ls], rule_tac exI [of _ "[?l]"])
          auto
    qed
  qed
qed

end
