(* ===== verification/Usage_Printer.thy ===== *)
theory Usage_Printer
  imports Line_Wrapper
begin

text \<open>
  \<open>printUsage\<close> of \<open>DBTestTerminal/optionparser.h\<close>: the widths of the columns of each table, the
  layout of the last column, and the printing of the rows. The result is the list of the strings
  handed to the writer. The loops over tables and rows end only for some arrays of descriptors, so
  they are partial functions. \<open>junk\<close> is what the buffers of a \<open>LineWrapper\<close> hold before they are
  written.
\<close>

section \<open>Loops over the iterator\<close>

text \<open>\<open>while (part.next()) body\<close> and \<open>while (part.nextRow()) body\<close>\<close>

partial_function (option) each_part ::
  "bool \<Rightarrow> descriptor list \<Rightarrow> (line_part \<Rightarrow> 's \<Rightarrow> 's comp) \<Rightarrow> line_part \<Rightarrow> 's \<Rightarrow> (line_part \<times> 's) comp" where
  "each_part msc usage body it st =
     bindc (liftc (next_part msc usage it)) (\<lambda>r.
       if snd r then bindc (body (fst r) st) (\<lambda>st'. each_part msc usage body (fst r) st')
       else ret (fst r, st))"

partial_function (option) each_row ::
  "descriptor list \<Rightarrow> (line_part \<Rightarrow> 's \<Rightarrow> (line_part \<times> 's) comp) \<Rightarrow> line_part \<Rightarrow> 's \<Rightarrow> (line_part \<times> 's) comp" where
  "each_row usage body it st =
     bindc (liftc (nextRow usage it)) (\<lambda>r.
       if snd r then bindc (body (fst r) st) (\<lambda>q. each_row usage body (fst q) (snd q))
       else ret (fst r, st))"

declare each_part.simps [code] each_row.simps [code]

section \<open>Widths of the columns\<close>

definition maxcolumns :: nat where
  "maxcolumns = 8"

definition arr_get :: "'a list \<Rightarrow> int \<Rightarrow> 'a res" where
  "arr_get xs i = (if 0 \<le> i \<and> i < int (length xs) then Inr (xs ! nat i) else Inl Out_Of_Bounds)"

definition arr_upmax :: "int list \<Rightarrow> int \<Rightarrow> int \<Rightarrow> int list res" where
  "arr_upmax xs i v = bindr (arr_get xs i) (\<lambda>w. Inr (xs[nat i := upmax w v]))"

text \<open>Whether a part belongs to the layout of the table; interjections do not.\<close>

definition tabular :: "descriptor list \<Rightarrow> line_part \<Rightarrow> bool res" where
  "tabular usage it =
     (if part_column it > 0 \<or> part_line it > 0 then Inr True
      else bindr (part_end usage it) (\<lambda>c. Inr (c = TAB \<or> c = VT)))"

definition measure_part ::
  "descriptor list \<Rightarrow> int \<Rightarrow> line_part \<Rightarrow> int \<times> int list \<Rightarrow> (int \<times> int list) res" where
  "measure_part usage threshold it = (\<lambda>(lastcolumn, col_width).
     if part_column it < int maxcolumns then
       let lastcolumn' = upmax lastcolumn (part_column it)
       in if int (part_screenLength it) < threshold then
            bindr (tabular usage it) (\<lambda>b.
              if b then bindr (arr_upmax col_width (part_column it) (int (part_screenLength it)))
                          (\<lambda>cw. Inr (lastcolumn', cw))
              else Inr (lastcolumn', col_width))
          else Inr (lastcolumn', col_width)
     else Inr (lastcolumn, col_width))"

text \<open>One run of the loop body: the last column, the widths, their sum and the next threshold.\<close>

definition column_widths ::
  "bool \<Rightarrow> descriptor list \<Rightarrow> int \<Rightarrow> line_part \<Rightarrow> (line_part \<times> int \<times> int list \<times> int \<times> int) comp" where
  "column_widths msc usage threshold it =
     bindc (liftc (restartTable usage it)) (\<lambda>it1.
     bindc (each_row usage (each_part msc usage (\<lambda>p st. liftc (measure_part usage threshold p st))) it1
              (0, replicate maxcolumns 0)) (\<lambda>(it2, lastcolumn, col_width).
       let left = take (nat lastcolumn) col_width
       in ret (it2, lastcolumn, col_width, sum_list left, fold (\<lambda>w m. upmax m w) left 0)))"

partial_function (option) widths_loop ::
  "bool \<Rightarrow> descriptor list \<Rightarrow> int \<Rightarrow> int \<Rightarrow> line_part \<Rightarrow> (line_part \<times> int \<times> int list) comp" where
  "widths_loop msc usage width threshold it =
     bindc (column_widths msc usage threshold it) (\<lambda>(it', lastcolumn, col_width, leftwidth, threshold').
       if leftwidth > width then widths_loop msc usage width threshold' it'
       else ret (it', lastcolumn, col_width))"

declare widths_loop.simps [code]

section \<open>Layout\<close>

fun tab_stops :: "int \<Rightarrow> int list \<Rightarrow> int list" where
  "tab_stops stop [] = []"
| "tab_stops stop (w # ws) = stop # tab_stops (stop + w) ws"

record usage_layout =
  ly_width :: int
  ly_lastcolumn :: int
  ly_tabstop :: "int list"
  ly_rightwidth :: int
  ly_own_line :: bool

definition make_layout :: "int \<Rightarrow> int \<Rightarrow> int \<Rightarrow> int \<Rightarrow> int list \<Rightarrow> usage_layout res" where
  "make_layout width min_width own_line_max_width lastcolumn col_width =
     (let tabstop = tab_stops 0 col_width
      in bindr (arr_get tabstop lastcolumn) (\<lambda>stop.
         bindr (arr_get col_width lastcolumn) (\<lambda>w.
           let rightwidth = width - stop;
               own = rightwidth < min_width \<and> (w = 0 \<or> rightwidth < w)
           in Inr \<lparr>ly_width = width, ly_lastcolumn = lastcolumn, ly_tabstop = tabstop,
                  ly_rightwidth = (if own then own_line_max_width else rightwidth),
                  ly_own_line = own \<and> lastcolumn \<noteq> 0\<rparr>)))"

section \<open>Rows\<close>

record usage_state =
  ps_x :: int
  ps_last :: line_wrapper
  ps_interjection :: line_wrapper
  ps_out :: out

definition print_part :: "bool \<Rightarrow> descriptor list \<Rightarrow> usage_layout \<Rightarrow> line_part \<Rightarrow> usage_state \<Rightarrow> usage_state comp" where
  "print_part msc usage ly it st =
     (let col = part_column it; last = ly_lastcolumn ly
      in if col > last then ret st
         else
           let (x1, out1) = (if col = 0 then (0, if ps_x st \<ge> 0 then emit nl (ps_out st) else ps_out st)
                             else (ps_x st, ps_out st))
           in bindc (liftc (arr_get (ly_tabstop ly) col)) (\<lambda>stop.
              let (out2, x2) = indent out1 x1 stop
              in bindc (liftc (if col < last then tabular usage it else Inr False)) (\<lambda>cell.
                 bindc (liftc (part_data usage it)) (\<lambda>data.
                   if cell
                   then ret (st\<lparr>ps_x := x2 + int (part_screenLength it), ps_out := emit data out2\<rparr>)
                   else if \<not> ly_own_line ly \<or> col \<noteq> last then
                     if col = 0
                     then bindc (lw_process msc data (ps_interjection st) out2) (\<lambda>(lw, out3).
                            ret (st\<lparr>ps_x := x2, ps_interjection := lw, ps_out := out3\<rparr>))
                     else bindc (lw_process msc data (ps_last st) out2) (\<lambda>(lw, out3).
                            ret (st\<lparr>ps_x := x2, ps_last := lw, ps_out := out3\<rparr>))
                   else ret (st\<lparr>ps_x := x2, ps_out := out2\<rparr>)))))"

definition print_own_line :: "bool \<Rightarrow> descriptor list \<Rightarrow> usage_layout \<Rightarrow> line_part \<Rightarrow> usage_state \<Rightarrow> usage_state comp" where
  "print_own_line msc usage ly it st =
     (if part_column it = ly_lastcolumn ly
      then bindc (liftc (part_data usage it)) (\<lambda>data.
           bindc (lw_process msc data (ps_last st)
                    (fst (indent (emit nl (ps_out st)) 0 (ly_width ly - ly_rightwidth ly)))) (\<lambda>(lw, out).
           ret (st\<lparr>ps_last := lw, ps_out := out\<rparr>)))
      else ret st)"

definition print_usage_row ::
  "bool \<Rightarrow> descriptor list \<Rightarrow> usage_layout \<Rightarrow> line_part \<Rightarrow> usage_state \<Rightarrow> (line_part \<times> usage_state) comp" where
  "print_usage_row msc usage ly it st =
     bindc (each_part msc usage (print_part msc usage ly) it (st\<lparr>ps_x := - 1\<rparr>)) (\<lambda>(it1, st1).
     bindc (if ly_own_line ly
            then each_part msc usage (print_own_line msc usage ly) (restartRow it1) st1
            else ret (it1, st1)) (\<lambda>(it2, st2).
     bindc (lw_flush (ps_last st2) (emit nl (ps_out st2))) (\<lambda>(lw, out1).
     bindc (lw_flush (ps_interjection st2) out1) (\<lambda>(lw', out2).
     ret (it2, st2\<lparr>ps_last := lw, ps_interjection := lw', ps_out := out2\<rparr>)))))"

section \<open>Tables\<close>

text \<open>The parameters after they were checked.\<close>

record usage_format =
  uf_width :: int
  uf_min_width :: int
  uf_own_line_max_width :: int

definition usage_format_of :: "int \<Rightarrow> int \<Rightarrow> int \<Rightarrow> usage_format" where
  "usage_format_of width min_percent own_line_max_percent =
     (let w1 = (if width < 1 then 80 else width);
          w = (if w1 > 10000 then 10000 else w1);
          own = cdiv (i32 (i32 (w * own_line_max_percent) + 50)) 100
      in \<lparr>uf_width = w, uf_min_width = cdiv (i32 (i32 (w * min_percent) + 50)) 100,
         uf_own_line_max_width = (if own = 0 then 1 else own)\<rparr>)"

definition print_table ::
  "bool \<Rightarrow> (nat \<times> string) list \<Rightarrow> descriptor list \<Rightarrow> usage_format \<Rightarrow> line_part \<Rightarrow> out \<Rightarrow> (line_part \<times> out) comp" where
  "print_table msc junk usage uf it out =
     bindc (widths_loop msc usage (uf_width uf) 10000 it) (\<lambda>(it1, lastcolumn, col_width).
     bindc (liftc (make_layout (uf_width uf) (uf_min_width uf) (uf_own_line_max_width uf) lastcolumn col_width)) (\<lambda>ly.
     bindc (liftc (restartTable usage it1)) (\<lambda>it2.
     bindc (each_row usage (print_usage_row msc usage ly) it2
        \<lparr>ps_x = 0,
         ps_last = line_wrapper_new junk False (uf_width uf - ly_rightwidth ly) (uf_width uf),
         ps_interjection = line_wrapper_new junk False 0 (uf_width uf),
         ps_out = out\<rparr>) (\<lambda>(it3, st).
     ret (it3, ps_out st)))))"

partial_function (option) tables_loop ::
  "bool \<Rightarrow> (nat \<times> string) list \<Rightarrow> descriptor list \<Rightarrow> usage_format \<Rightarrow> line_part \<Rightarrow> out \<Rightarrow> out comp" where
  "tables_loop msc junk usage uf it out =
     bindc (liftc (nextTable usage it)) (\<lambda>r.
       if snd r
       then bindc (print_table msc junk usage uf (fst r) out) (\<lambda>q.
              tables_loop msc junk usage uf (fst q) (snd q))
       else ret out)"

declare tables_loop.simps [code]

definition print_usage ::
  "bool \<Rightarrow> (nat \<times> string) list \<Rightarrow> descriptor list \<Rightarrow> int \<Rightarrow> int \<Rightarrow> int \<Rightarrow> out comp" where
  "print_usage msc junk usage width min_percent own_line_max_percent =
     tables_loop msc junk usage (usage_format_of width min_percent own_line_max_percent) (line_part_new 0) []"

text \<open>The templates construct the writer and call the implementation.\<close>

definition printUsage ::
  "writer \<Rightarrow> bool \<Rightarrow> (nat \<times> string) list \<Rightarrow> descriptor list \<Rightarrow> int \<Rightarrow> int \<Rightarrow> int \<Rightarrow> wcall list comp" where
  "printUsage w msc junk usage width min_percent own_line_max_percent =
     bindc (print_usage msc junk usage width min_percent own_line_max_percent) (\<lambda>out.
       ret (List.map_filter (write_call w) out))"

end
