(* ===== verification/Usage_Walk.thy ===== *)
theory Usage_Walk
  imports Wrap_Text Usage_Printer
begin

text \<open>
  The walk of \<open>LinePartIterator\<close> over help texts without zeros and without the bytes FE and FF:
  the iterator stays inside the text, every part it finds is printable, and a measure shows that
  the parts of a row and the rows of a table come to an end. From it follows when \<open>printUsage\<close>
  returns.
\<close>

section \<open>Help texts\<close>

definition help_ok :: "string \<Rightarrow> bool" where
  "help_ok s \<longleftrightarrow> (\<forall>c\<in>set s. c \<noteq> nul \<and> uchar c < 0xFE)"

lemma cont_byte_text: "cont_byte b \<Longrightarrow> uchar b < 0xFE \<Longrightarrow> text_byte b"
proof -
  have "\<forall>c\<in>{nul, VT, TAB, LF}. \<not> cont_byte c" by code_simp
  then show "cont_byte b \<Longrightarrow> uchar b < 0xFE \<Longrightarrow> text_byte b" by (auto simp: text_byte_def)
qed

lemma help_ok_drop: "help_ok s \<Longrightarrow> help_ok (drop n s)"
  by (auto simp: help_ok_def dest: in_set_dropD)

lemma part_length_help:
  "help_ok s \<Longrightarrow> \<exists>n w. part_length msc s 0 0 = Inr (n, w) \<and> n \<le> length s \<and> printable (take n s) \<and>
     (n < length s \<longrightarrow> s ! n \<in> {VT, TAB, LF})"
proof (induction s rule: length_induct)
  case (1 s)
  show ?case
  proof (cases s)
    case (Cons c cs)
    show ?thesis
    proof (cases "text_byte c")
      case False
      then have "c \<in> {VT, TAB, LF}" using 1(2) Cons by (auto simp: help_ok_def text_byte_def)
      then show ?thesis using Cons by (auto simp: part_length.simps)
    next
      case True
      obtain k wide where d: "decode_char msc c cs = Inr (k, wide)" "1 \<le> k" "k \<le> Suc (length cs)"
        "\<forall>b\<in>set (take (k - 1) cs). cont_byte b"
        using decode_char_props [OF True, of msc cs] by blast
      let ?r = "drop (k - 1) cs"
      have "help_ok ?r" "length ?r < length s" using 1(2) Cons help_ok_drop [of s k] d(2) by (auto simp: drop_Cons')
      then obtain n w where r: "part_length msc ?r 0 0 = Inr (n, w)" "n \<le> length ?r" "printable (take n ?r)"
        "n < length ?r \<longrightarrow> ?r ! n \<in> {VT, TAB, LF}" using 1(1) by blast
      have "take (k + n) s = c # take (k - 1) cs @ take n ?r"
        using Cons d(2) by (cases k) (simp_all add: take_add)
      moreover have "printable (take (k - 1) cs)" using d(4) 1(2) Cons cont_byte_text
        by (auto simp: printable_def help_ok_def dest: in_set_takeD)
      ultimately have "printable (take (k + n) s)" using r(3) True by simp
      moreover have "s ! (k + n) = ?r ! n" if "n < length ?r" using Cons d(2,3) that by (cases k) auto
      ultimately show ?thesis using part_length_Cons [OF True d(1)] r d(2,3) Cons by (auto simp: less_diff_conv)
    qed
  qed simp
qed

section \<open>Parts\<close>

text \<open>The iterator points at a part of the row.\<close>

definition at_part :: "string \<Rightarrow> line_part \<Rightarrow> bool" where
  "at_part s it \<longleftrightarrow>
     (\<exists>p q. lp_ptr it = Some p \<and> lp_rowstart it = Some q \<and> q \<le> p \<and> p + lp_len it \<le> length s \<and>
       printable (take (lp_len it) (drop p s)) \<and> (lp_col it = - 1 \<and> lp_len it = 0 \<or> 0 \<le> lp_col it))"

definition same_row :: "line_part \<Rightarrow> line_part \<Rightarrow> bool" where
  "same_row it' it \<longleftrightarrow> lp_tablestart it' = lp_tablestart it \<and> lp_rowdesc it' = lp_rowdesc it \<and>
     lp_rowstart it' = lp_rowstart it"

lemma same_row_refl [simp]: "same_row it it"
  by (simp add: same_row_def)

lemma same_row_trans [trans]: "same_row a b \<Longrightarrow> same_row b c \<Longrightarrow> same_row a c"
  by (simp add: same_row_def)

definition part_measure :: "string \<Rightarrow> line_part \<Rightarrow> nat \<Rightarrow> nat \<times> nat \<times> nat" where
  "part_measure s it p =
     (np_measure s (it\<lparr>lp_ptr := Some p\<rparr>), length s - p,
      (if lp_hit_target_line it then 0 else 1) + (if lp_col it = - 1 then 1 else 0))"

definition lex3 :: "((nat \<times> nat \<times> nat) \<times> (nat \<times> nat \<times> nat)) set" where
  "lex3 = less_than <*lex*> less_than <*lex*> less_than"

lemma wf_lex3: "wf lex3"
  by (auto simp: lex3_def)

lemma lex3_iff [simp]:
  "((a, b, c), (a', b', c')) \<in> lex3 \<longleftrightarrow> a < a' \<or> a = a' \<and> (b < b' \<or> b = b' \<and> c < c')"
  by (simp add: lex3_def)

lemma lex3_trans: "(x, y) \<in> lex3 \<Longrightarrow> (y, z) \<in> lex3 \<Longrightarrow> (x, z) \<in> lex3"
  by (cases x; cases y; cases z) auto

lemma update_length_ok:
  assumes "help_ok s" "lp_ptr it = Some p" "p \<le> length s"
  shows "\<exists>n w. update_length msc s it = Inr (it\<lparr>lp_len := n, lp_screenlen := w\<rparr>) \<and> p + n \<le> length s \<and>
           printable (take n (drop p s))"
proof -
  obtain n w where "part_length msc (drop p s) 0 0 = Inr (n, w)" "n \<le> length (drop p s)" "printable (take n (drop p s))"
    using part_length_help [OF help_ok_drop [OF assms(1)], of msc p] by blast
  then show ?thesis using assms(2,3) by (auto simp: update_length_def)
qed

text \<open>What one answer of \<open>next\<close> promises.\<close>

definition next_ok' :: "string \<Rightarrow> line_part \<Rightarrow> nat \<times> nat \<times> nat \<Rightarrow> (line_part \<times> bool) res \<Rightarrow> bool" where
  "next_ok' s it m r \<longleftrightarrow>
     (\<exists>it' found. r = Inr (it', found) \<and> same_row it' it \<and> at_part s it' \<and> 0 \<le> lp_col it' \<and>
       (found \<longrightarrow> (part_measure s it' (the (lp_ptr it') + lp_len it'), m) \<in> lex3))"

lemma next_ok'_mono:
  "next_ok' s it m r \<Longrightarrow> same_row it it0 \<Longrightarrow> (m, m0) \<in> lex3 \<Longrightarrow> next_ok' s it0 m0 r"
  unfolding next_ok'_def using same_row_trans [of _ it it0] by (auto, metis lex3_trans)

lemma np_measure_at:
  "np_measure s (it\<lparr>lp_ptr := Some p\<rparr>) =
     max (lp_max_line_in_block it) (max (lp_line_in_block it + (length s - p)) (length s)) - lp_target_line_in_block it"
  by (simp add: np_measure_def)

lemma np_measure_same [simp]: "lp_ptr it = Some p \<Longrightarrow> np_measure s (it\<lparr>lp_ptr := Some p\<rparr>) = np_measure s it"
  by (simp add: np_measure_def)

lemma np_measure_hit [simp]: "np_measure s (it\<lparr>lp_hit_target_line := b, lp_ptr := P\<rparr>) = np_measure s (it\<lparr>lp_ptr := P\<rparr>)"
  by (simp add: np_measure_def)

lemma np_measure_mono: "p \<le> p' \<Longrightarrow> np_measure s (it\<lparr>lp_ptr := Some p'\<rparr>) \<le> np_measure s (it\<lparr>lp_ptr := Some p\<rparr>)"
  unfolding np_measure_at by (intro diff_le_mono max.mono) auto

text \<open>The loop of \<open>next\<close>.\<close>

lemma answer_ok:
  assumes "help_ok s" "lp_ptr it = Some p" "p \<le> length s" "lp_rowstart it = Some q" "q \<le> p" "0 \<le> lp_col it"
  shows "\<exists>it'. answer msc s it found = Inr (it', found) \<and> same_row it' it \<and> at_part s it' \<and> lp_col it' = lp_col it \<and>
     lp_ptr it' = Some p \<and> p + lp_len it' \<le> length s \<and>
     (found \<longrightarrow> lp_hit_target_line it') \<and> lp_max_line_in_block it' = lp_max_line_in_block it \<and>
     lp_line_in_block it' = lp_line_in_block it \<and> lp_target_line_in_block it' = lp_target_line_in_block it"
  using update_length_ok [OF assms(1-3), of msc] assms
  by (auto simp: answer_def at_part_def same_row_def)

lemma next_ok'_answer:
  assumes "help_ok s" "lp_ptr it = Some p" "p \<le> length s" "lp_rowstart it = Some q" "q \<le> p" "0 \<le> lp_col it"
    and "same_row it it0"
    and "found \<longrightarrow> (part_measure s (it\<lparr>lp_hit_target_line := True\<rparr>) p, m) \<in> lex3"
  shows "next_ok' s it0 m (answer msc s it found)"
proof -
  obtain it' where a: "answer msc s it found = Inr (it', found)" "same_row it' it" "at_part s it'" "lp_col it' = lp_col it"
    "lp_ptr it' = Some p" "p + lp_len it' \<le> length s" "found \<longrightarrow> lp_hit_target_line it'"
    "lp_max_line_in_block it' = lp_max_line_in_block it"
    "lp_line_in_block it' = lp_line_in_block it" "lp_target_line_in_block it' = lp_target_line_in_block it"
    using answer_ok [OF assms(1-6), of msc found] by blast
  have "(part_measure s it' (p + lp_len it'), m) \<in> lex3" if found
  proof -
    let ?it = "it\<lparr>lp_hit_target_line := True\<rparr>"
    have "np_measure s (it'\<lparr>lp_ptr := Some p\<rparr>) = np_measure s (?it\<lparr>lp_ptr := Some p\<rparr>)"
      unfolding np_measure_at a(8-10) by simp
    then have k: "np_measure s (it'\<lparr>lp_ptr := Some (p + lp_len it')\<rparr>) \<le> np_measure s (?it\<lparr>lp_ptr := Some p\<rparr>)"
      using np_measure_mono [of p "p + lp_len it'" s it'] by simp
    have "part_measure s it' (p + lp_len it') = part_measure s ?it p \<or>
        (part_measure s it' (p + lp_len it'), part_measure s ?it p) \<in> lex3"
      unfolding part_measure_def lex3_iff prod.inject using k a(4,7) that by simp linarith
    then show ?thesis using assms(8) that lex3_trans by metis
  qed
  then show ?thesis using a(1-5) assms(6,7) same_row_trans [of it' it it0]
    by (simp add: next_ok'_def)
qed

lemma next_loop_ok:
  assumes "help_ok s" "lp_ptr it = Some p" "p \<le> length s" "lp_rowstart it = Some q" "q \<le> p" "0 \<le> lp_col it"
  shows "next_ok' s it (part_measure s it p) (next_loop msc s it)"
  using assms(2-)
proof (induction "part_measure s it p" arbitrary: it p rule: wf_induct_rule [OF wf_lex3])
  case 1
  let ?goal = "next_ok' s it (part_measure s it p) (next_loop msc s it)"
  note IH = 1(1) and it = 1(2-)
  obtain c where c: "text_char s p = Inr c" using it(2) by (cases "p < length s") (auto simp: text_char_def)
  have K: "np_measure s it = max (lp_max_line_in_block it) (max (lp_line_in_block it + (length s - p)) (length s)) - lp_target_line_in_block it"
    using it(1) by (simp add: np_measure_def)
  have col: "lp_col it \<noteq> - 1" using it(5) by simp
  have smaller: "(part_measure s it' (Suc p), part_measure s it p) \<in> lex3"
    if "c \<noteq> nul" "lp_ptr it' = Some (Suc p)" "lp_col it' \<noteq> - 1"
      "lp_line_in_block it' \<le> Suc (lp_line_in_block it)"
      "lp_max_line_in_block it' \<le> max (lp_max_line_in_block it) (lp_line_in_block it')"
      "lp_max_line_in_block it' = lp_max_line_in_block it \<or> lp_line_in_block it' = Suc (lp_line_in_block it)"
      "lp_target_line_in_block it' = lp_target_line_in_block it" for it'
    using np_measure_le [OF it(1) c that(1,2,4-7)] that(2,3) it(1) col by (simp add: part_measure_def) linarith?
  have missed: ?goal if "next_loop msc s it = answer msc s it True" "\<not> lp_hit_target_line it"
    unfolding that(1) by (rule next_ok'_answer [OF assms(1) it(1-5)])
      (use that(2) it(1) col in \<open>simp_all add: part_measure_def\<close>)
  have step: ?goal
    if "c \<noteq> nul" "next_loop msc s it = (if b then answer msc s it' True else next_loop msc s it')"
      "lp_ptr it' = Some (Suc p)" "0 \<le> lp_col it'" "same_row it' it" "lp_line_in_block it' \<le> Suc (lp_line_in_block it)"
      "lp_max_line_in_block it' \<le> max (lp_max_line_in_block it) (lp_line_in_block it')"
      "lp_max_line_in_block it' = lp_max_line_in_block it \<or> lp_line_in_block it' = Suc (lp_line_in_block it)"
      "lp_target_line_in_block it' = lp_target_line_in_block it" for b it'
  proof -
    have p: "Suc p \<le> length s" "lp_rowstart it' = Some q" "q \<le> Suc p"
      using text_char_before [OF c that(1)] it(3,4) that(5) by (simp_all add: same_row_def)
    have m: "(part_measure s it' (Suc p), part_measure s it p) \<in> lex3"
      by (rule smaller) (use that in simp_all)
    have m': "(part_measure s (it'\<lparr>lp_hit_target_line := True\<rparr>) (Suc p), part_measure s it p) \<in> lex3"
      by (rule smaller) (use that in simp_all)
    show ?thesis
    proof (cases b)
      case True
      show ?thesis using that(2) True
          next_ok'_answer [OF assms(1) that(3) p(1,2,3) that(4,5), of True "part_measure s it p" msc] m' by simp
    next
      case False
      have "next_ok' s it' (part_measure s it' (Suc p)) (next_loop msc s it')"
        by (rule IH [OF m]) (use that p in simp_all)
      then show ?thesis using that(2,5) False next_ok'_mono m by simp
    qed
  qed
  consider "c = VT" | "c = TAB" | "c = nul \<or> c = LF" | "c \<noteq> VT" "c \<noteq> TAB" "c \<noteq> nul" "c \<noteq> LF" by blast
  then show ?goal
  proof cases
    case 1
    let ?line = "lp_line_in_block it + 1"
    let ?it = "it\<lparr>lp_line_in_block := ?line, lp_max_line_in_block := upmax (lp_max_line_in_block it) ?line,
      lp_ptr := Some (Suc p)\<rparr>"
    show ?thesis
      by (rule step [of "?line = lp_target_line_in_block it" ?it])
        (use 1 it(1,5) c in \<open>auto simp: next_loop.simps [of msc s it] upmax_def same_row_def Let_def\<close>)
  next
    case 2
    let ?it = "it\<lparr>lp_hit_target_line := False, lp_line_in_block := 0, lp_col := lp_col it + 1, lp_ptr := Some (Suc p)\<rparr>"
    have ?goal if "lp_hit_target_line it"
      by (rule step [of "0 = lp_target_line_in_block it" ?it])
        (use 2 it(1,5) c that in \<open>auto simp: next_loop.simps [of msc s it] same_row_def Let_def\<close>)
    then show ?thesis using missed 2 it(1) c by (cases "lp_hit_target_line it") (simp_all add: next_loop.simps [of msc s it])
  next
    case 3
    let ?it1 = "it\<lparr>lp_target_line_in_block := lp_target_line_in_block it + 1\<rparr>"
    let ?it = "?it1\<lparr>lp_hit_target_line := False, lp_line_in_block := 0, lp_col := 0, lp_ptr := lp_rowstart ?it1\<rparr>"
    consider "\<not> lp_hit_target_line it" | "lp_hit_target_line it" "lp_target_line_in_block it + 1 > lp_max_line_in_block it"
      | "lp_hit_target_line it" "lp_target_line_in_block it < lp_max_line_in_block it" by linarith
    then show ?thesis
    proof cases
      case 1
      then show ?thesis using missed 3 it(1) c by (auto simp: next_loop.simps [of msc s it])
    next
      case 2
      then have "next_loop msc s it = answer msc s ?it1 False" using 3 it(1) c by (auto simp: next_loop.simps [of msc s it])
      moreover have "same_row ?it1 it" by (simp add: same_row_def)
      ultimately show ?thesis using next_ok'_answer [OF assms(1), of ?it1 p q it False] it by simp
    next
      case 33: 3
      then have n: "next_loop msc s it = next_loop msc s ?it" using 3 it(1) c by (auto simp: next_loop.simps [of msc s it])
      have "np_measure s ?it < np_measure s it" by (rule np_measure_reset) (use 33 in simp_all)
      then have m: "(part_measure s ?it q, part_measure s it p) \<in> lex3"
        using it(1,3) by (simp add: part_measure_def np_measure_def)
      have "next_ok' s ?it (part_measure s ?it q) (next_loop msc s ?it)"
        by (rule IH [OF m]) (use it in simp_all)
      moreover have "same_row ?it it" by (simp add: same_row_def)
      ultimately show ?thesis using next_ok'_mono m unfolding n by blast
    qed
  next
    case 4
    show ?thesis
      by (rule step [of False "it\<lparr>lp_ptr := Some (Suc p)\<rparr>"])
        (use 4 it(1,5) c in \<open>auto simp: next_loop.simps [of msc s it] same_row_def\<close>)
  qed
qed

definition in_row :: "descriptor list \<Rightarrow> string \<Rightarrow> line_part \<Rightarrow> bool" where
  "in_row usage s it \<longleftrightarrow> row_text usage it = Inr s \<and> help_ok s \<and> at_part s it"

lemma row_text_same: "same_row it' it \<Longrightarrow> row_text usage it' = row_text usage it"
  by (simp add: same_row_def row_text_def)

definition here :: "string \<Rightarrow> line_part \<Rightarrow> nat \<times> nat \<times> nat" where
  "here s it = part_measure s it (the (lp_ptr it) + lp_len it)"

lemma next_part_ok:
  assumes "in_row usage s it"
  shows "next_ok' s it (here s it) (next_part msc usage it)"
proof -
  obtain p q where it: "lp_ptr it = Some p" "lp_rowstart it = Some q" "q \<le> p" "p + lp_len it \<le> length s"
    "lp_col it = - 1 \<and> lp_len it = 0 \<or> 0 \<le> lp_col it"
    using assms by (auto simp: in_row_def at_part_def)
  have s: "row_text usage it = Inr s" "help_ok s" using assms by (simp_all add: in_row_def)
  show ?thesis
  proof (cases "lp_col it = - 1")
    case True
    obtain n w where u: "update_length msc s (it\<lparr>lp_col := 0\<rparr>) = Inr (it\<lparr>lp_col := 0, lp_len := n, lp_screenlen := w\<rparr>)"
      "p + n \<le> length s" "printable (take n (drop p s))"
      using update_length_ok [OF s(2), of "it\<lparr>lp_col := 0\<rparr>" p msc] it(1,4) by auto
    let ?it = "it\<lparr>lp_col := 0, lp_len := n, lp_screenlen := w\<rparr>"
    have r: "next_part msc usage it = Inr (?it, True)" using it(1) s(1) True u(1) by (simp add: next_part_def)
    have k: "np_measure s (?it\<lparr>lp_ptr := Some (p + n)\<rparr>) \<le> np_measure s (it\<lparr>lp_ptr := Some p\<rparr>)"
      using np_measure_mono [of p "p + n" s ?it] by (simp add: np_measure_at)
    have "(part_measure s ?it (p + n), part_measure s it p) \<in> lex3"
      unfolding part_measure_def lex3_iff using k True by simp linarith
    then show ?thesis using r it u(2,3) True by (auto simp: next_ok'_def at_part_def same_row_def here_def)
  next
    case False
    let ?it = "it\<lparr>lp_ptr := Some (p + lp_len it)\<rparr>"
    have "next_ok' s ?it (part_measure s ?it (p + lp_len it)) (next_loop msc s ?it)"
      by (rule next_loop_ok [OF s(2)]) (use it False in auto)
    moreover have "part_measure s ?it (p + lp_len it) = here s it" using it(1) by (simp add: part_measure_def here_def)
    moreover have "next_part msc usage it = next_loop msc s ?it" using it(1) s(1) False by (simp add: next_part_def)
    ultimately show ?thesis by (simp add: next_ok'_def same_row_def)
  qed
qed

text \<open>A loop over the parts of a row returns when its body does.\<close>

lemma each_part_ret:
  assumes "\<And>p st. \<lbrakk>in_row usage s p; same_row p it; 0 \<le> lp_col p; I st\<rbrakk> \<Longrightarrow> \<exists>st'. body p st = ret st' \<and> I st'"
    and "in_row usage s it" "I st"
  shows "\<exists>it' st'. each_part msc usage body it st = ret (it', st') \<and> in_row usage s it' \<and> same_row it' it \<and> I st'"
  using assms
proof (induction "here s it" arbitrary: it st rule: wf_induct_rule [OF wf_lex3])
  case 1
  obtain it1 found where n: "next_part msc usage it = Inr (it1, found)" "same_row it1 it" "at_part s it1" "0 \<le> lp_col it1"
    "found \<longrightarrow> (here s it1, here s it) \<in> lex3"
    using next_part_ok [OF 1(3), of msc] by (auto simp: next_ok'_def here_def)
  have r: "in_row usage s it1" using n(2,3) 1(3) row_text_same by (simp add: in_row_def)
  show ?case
  proof (cases found)
    case False
    then show ?thesis using n(1,2) r 1(4) by (subst each_part.simps) simp
  next
    case True
    obtain st1 where b: "body it1 st = ret st1" "I st1" using 1(2) [OF r n(2,4) 1(4)] by blast
    have "\<exists>st'. body p st = ret st' \<and> I st'" if "in_row usage s p" "same_row p it1" "0 \<le> lp_col p" "I st" for p st
      using 1(2) [OF that(1) same_row_trans [OF that(2) n(2)] that(3,4)] .
    then obtain it' st' where "each_part msc usage body it1 st1 = ret (it', st')" "in_row usage s it'" "same_row it' it1" "I st'"
      using 1(1) [of it1 st1] True n(5) r b(2) by blast
    then show ?thesis using n(1,2) True b(1) same_row_trans by (subst each_part.simps) auto
  qed
qed

section \<open>Rows\<close>

text \<open>The descriptors from \<open>t\<close> to before \<open>u\<close> form a table.\<close>

definition table_at :: "descriptor list \<Rightarrow> nat \<Rightarrow> nat \<Rightarrow> bool" where
  "table_at usage t u \<longleftrightarrow> t < u \<and> u < length usage \<and> d_help (usage ! u) = None \<and>
     (\<forall>r\<in>{t..<u}. \<exists>s. d_help (usage ! r) = Some s \<and> help_ok s)"

definition at_row :: "descriptor list \<Rightarrow> nat \<Rightarrow> nat \<Rightarrow> line_part \<Rightarrow> bool" where
  "at_row usage t u it \<longleftrightarrow> lp_tablestart it = t \<and>
     (\<exists>r s. lp_rowdesc it = Some r \<and> t \<le> r \<and> r < u \<and> d_help (usage ! r) = Some s \<and> in_row usage s it)"

definition row_measure :: "descriptor list \<Rightarrow> nat \<Rightarrow> line_part \<Rightarrow> nat \<times> nat" where
  "row_measure usage u it =
     (u - the (lp_rowdesc it), length (the (d_help (usage ! the (lp_rowdesc it)))) - the (lp_rowstart it))"

lemma row_end_ok:
  "help_ok s \<Longrightarrow> p \<le> length s \<Longrightarrow>
     \<exists>p'. row_end s p = Inr p' \<and> p \<le> p' \<and> p' \<le> length s \<and> (p' < length s \<longrightarrow> s ! p' = LF)"
proof (induction s p rule: row_end.induct)
  case (1 s p)
  show ?case
  proof (cases "p < length s \<and> s ! p \<noteq> LF")
    case True
    then have c: "text_char s p = Inr (s ! p)" "s ! p \<noteq> nul" "s ! p \<noteq> LF"
      using 1(2) by (auto simp: text_char_def help_ok_def)
    then obtain p' where "row_end s (p + 1) = Inr p'" "p + 1 \<le> p'" "p' \<le> length s" "p' < length s \<longrightarrow> s ! p' = LF"
      using 1(1) [OF c(1)] 1(2) True by auto
    then show ?thesis using c by (simp add: row_end.simps [of s p])
  next
    case False
    then have "row_end s p = Inr p" using 1(3) by (auto simp: row_end.simps [of s p] text_char_def)
    then show ?thesis using False 1(3) by auto
  qed
qed

lemma at_row_restart:
  assumes "table_at usage t u" "lp_tablestart it = t" "lp_rowdesc it = Some r" "t \<le> r" "r < u"
    and "d_help (usage ! r) = Some s" "lp_rowstart it = Some q" "q \<le> length s"
  shows "at_row usage t u (restartRow it)"
proof -
  have "help_ok s" "r < length usage" using assms(1,4-6) by (force simp: table_at_def)+
  then show ?thesis using assms
    by (auto simp: at_row_def in_row_def at_part_def restartRow_def row_text_def desc_at_def)
qed

lemma nextRow_ok:
  assumes "table_at usage t u" "at_row usage t u it"
  shows "\<exists>it' found. nextRow usage it = Inr (it', found) \<and> lp_tablestart it' = t \<and> lp_rowdesc it' \<noteq> None \<and>
     (found \<longrightarrow> at_row usage t u it' \<and>
        (row_measure usage u it', row_measure usage u it) \<in> less_than <*lex*> less_than)"
proof -
  obtain r s where r: "lp_tablestart it = t" "lp_rowdesc it = Some r" "t \<le> r" "r < u" "d_help (usage ! r) = Some s"
    "in_row usage s it"
    using assms(2) by (auto simp: at_row_def)
  then obtain p q where it: "lp_ptr it = Some p" "lp_rowstart it = Some q" "q \<le> p" "p \<le> length s"
    "row_text usage it = Inr s" "help_ok s"
    by (auto simp: in_row_def at_part_def)
  have u: "u < length usage" using assms(1) by (simp add: table_at_def)
  obtain p' where p': "row_end s p = Inr p'" "p \<le> p'" "p' \<le> length s" "p' < length s \<longrightarrow> s ! p' = LF"
    using row_end_ok [OF it(6,4)] by blast
  show ?thesis
  proof (cases "p' < length s")
    case True
    let ?it = "it\<lparr>lp_ptr := Some p', lp_rowstart := Some (p' + 1)\<rparr>"
    have "nextRow usage it = Inr (restartRow ?it, True)"
      using it(1,5) p'(1,4) True by (simp add: nextRow_def text_char_def)
    moreover have "at_row usage t u (restartRow ?it)"
      by (rule at_row_restart [OF assms(1) _ _ r(3-5)]) (use r True in auto)
    moreover have "(row_measure usage u (restartRow ?it), row_measure usage u it) \<in> less_than <*lex*> less_than"
      using r(2,5) it(2,3) p'(2) True by (auto simp: row_measure_def restartRow_def)
    moreover have "lp_tablestart (restartRow ?it) = t" "lp_rowdesc (restartRow ?it) \<noteq> None"
      using r by (simp_all add: restartRow_def)
    ultimately show ?thesis by blast
  next
    case at_end: False
    then have c: "text_char s p' = Inr nul" using p'(3) by (simp add: text_char_def)
    show ?thesis
    proof (cases "d_help (usage ! (r + 1))")
      case None
      then have "nextRow usage it = Inr (it\<lparr>lp_ptr := Some p'\<rparr>, False)"
        using it(1,5) p'(1) c r(2,4) u by (simp add: nextRow_def desc_at_def)
      then show ?thesis using r by (intro exI [of _ "it\<lparr>lp_ptr := Some p'\<rparr>"] exI [of _ False]) simp
    next
      case (Some s')
      let ?it = "it\<lparr>lp_ptr := Some p', lp_rowdesc := Some (r + 1), lp_rowstart := Some 0\<rparr>"
      have "r + 1 \<noteq> u" using Some assms(1) by (auto simp: table_at_def)
      then have r1: "r + 1 < u" using r(4) by simp
      have "nextRow usage it = Inr (restartRow ?it, True)"
        using it(1,5) p'(1) c r(2,4) u Some by (simp add: nextRow_def desc_at_def)
      moreover have "at_row usage t u (restartRow ?it)"
        by (rule at_row_restart [OF assms(1) _ _ _ r1 Some]) (use r in auto)
      moreover have "(row_measure usage u (restartRow ?it), row_measure usage u it) \<in> less_than <*lex*> less_than"
        using r(2) r1 by (auto simp: row_measure_def restartRow_def)
      moreover have "lp_tablestart (restartRow ?it) = t" "lp_rowdesc (restartRow ?it) \<noteq> None"
        using r by (simp_all add: restartRow_def)
      ultimately show ?thesis by blast
    qed
  qed
qed

lemma nextRow_first:
  assumes "table_at usage t u" "restartTable usage it = Inr it1" "lp_tablestart it = t"
  shows "\<exists>it'. nextRow usage it1 = Inr (it', True) \<and> at_row usage t u it'"
proof -
  obtain s where s: "d_help (usage ! t) = Some s" using assms(1) by (force simp: table_at_def)
  have t: "t < u" "t < length usage" using assms(1) by (simp_all add: table_at_def)
  have it1: "it1 = it\<lparr>lp_rowdesc := Some t, lp_rowstart := Some 0, lp_ptr := None\<rparr>"
    using assms(2,3) s t by (simp add: restartTable_def desc_at_def)
  have "at_row usage t u (restartRow it1)"
    by (rule at_row_restart [OF assms(1) _ _ _ t(1) s]) (use it1 assms(3) in auto)
  then show ?thesis using it1 by (simp add: nextRow_def)
qed

lemma at_row_same: "at_row usage t u it \<Longrightarrow> in_row usage s it' \<Longrightarrow> same_row it' it \<Longrightarrow> at_row usage t u it'"
  using row_text_same [of it' it] by (auto simp: at_row_def in_row_def same_row_def)

text \<open>A loop over the rows of a table returns when its body does.\<close>

definition row_body_ok ::
  "descriptor list \<Rightarrow> nat \<Rightarrow> nat \<Rightarrow> ('s \<Rightarrow> bool) \<Rightarrow> (line_part \<Rightarrow> 's \<Rightarrow> (line_part \<times> 's) comp) \<Rightarrow> bool" where
  "row_body_ok usage t u I body \<longleftrightarrow>
     (\<forall>it st. at_row usage t u it \<and> I st \<longrightarrow>
        (\<exists>it' st'. body it st = ret (it', st') \<and> at_row usage t u it' \<and> same_row it' it \<and> I st'))"

lemma row_measure_same: "same_row it' it \<Longrightarrow> row_measure usage u it' = row_measure usage u it"
  by (simp add: same_row_def row_measure_def)

lemma each_row_found:
  assumes "table_at usage t u" "row_body_ok usage t u I body"
  shows "at_row usage t u it \<Longrightarrow> I st \<Longrightarrow> nextRow usage it0 = Inr (it, True) \<Longrightarrow>
     \<exists>it' st'. each_row usage body it0 st = ret (it', st') \<and> lp_tablestart it' = t \<and> lp_rowdesc it' \<noteq> None \<and> I st'"
proof (induction "row_measure usage u it" arbitrary: it st it0 rule: wf_induct_rule [OF wf_lex_prod [OF wf_less_than wf_less_than]])
  case 1
  obtain it1 st1 where b: "body it st = ret (it1, st1)" "at_row usage t u it1" "same_row it1 it" "I st1"
    using assms(2) 1(2,3) unfolding row_body_ok_def by blast
  have e: "each_row usage body it0 st = each_row usage body it1 st1"
    using 1(4) b(1) by (simp add: each_row.simps [of usage body it0])
  obtain it2 found where n: "nextRow usage it1 = Inr (it2, found)" "lp_tablestart it2 = t" "lp_rowdesc it2 \<noteq> None"
    "found \<longrightarrow> at_row usage t u it2 \<and> (row_measure usage u it2, row_measure usage u it1) \<in> less_than <*lex*> less_than"
    using nextRow_ok [OF assms(1) b(2)] by blast
  show ?case
  proof (cases found)
    case False
    then show ?thesis using e n(1-3) b(4) by (simp add: each_row.simps [of usage body it1])
  next
    case True
    then show ?thesis using 1(1) [of it2 st1 it1] n b(3,4) row_measure_same [OF b(3)] unfolding e by simp
  qed
qed

lemma each_row_ret:
  assumes "table_at usage t u" "row_body_ok usage t u I body" "restartTable usage it = Inr it1" "lp_tablestart it = t" "I st"
  shows "\<exists>it' st'. each_row usage body it1 st = ret (it', st') \<and> lp_tablestart it' = t \<and> lp_rowdesc it' \<noteq> None \<and> I st'"
  using nextRow_first [OF assms(1,3,4)] each_row_found [OF assms(1,2) _ assms(5)] by blast

end
