(* ===== verification/Usage_Tables.thy ===== *)
theory Usage_Tables
  imports Usage_Walk
begin

text \<open>
  Every loop inside a table returns: the search for widths that fit, the layout, and the printing
  of the rows. What is left is the loop over the tables, which returns unless a descriptor with a
  help text has no \<open>shortopt\<close>.
\<close>

section \<open>Widths\<close>

lemma at_row_in_row: "at_row usage t u it \<Longrightarrow> \<exists>s. in_row usage s it"
  by (auto simp: at_row_def)

lemma parts_row_body:
  assumes "\<And>p st s. \<lbrakk>in_row usage s p; 0 \<le> lp_col p; I st\<rbrakk> \<Longrightarrow> \<exists>st'. body p st = ret st' \<and> I st'"
  shows "row_body_ok usage t u I (each_part msc usage body)"
  unfolding row_body_ok_def
proof (intro allI impI, elim conjE)
  fix it st
  assume it: "at_row usage t u it" "I st"
  obtain s where s: "in_row usage s it" using at_row_in_row [OF it(1)] by blast
  have "\<exists>st'. body p st = ret st' \<and> I st'" if "in_row usage s p" "same_row p it" "0 \<le> lp_col p" "I st" for p st
    using assms that by blast
  then obtain it' st' where "each_part msc usage body it st = ret (it', st')" "in_row usage s it'" "same_row it' it" "I st'"
    using each_part_ret [of usage s it I body st msc] s it(2) by blast
  then show "\<exists>it' st'. each_part msc usage body it st = ret (it', st') \<and> at_row usage t u it' \<and> same_row it' it \<and> I st'"
    using at_row_same [OF it(1)] by blast
qed

definition widths_inv :: "int \<Rightarrow> int \<times> int list \<Rightarrow> bool" where
  "widths_inv threshold = (\<lambda>(lastcolumn, cw).
     0 \<le> lastcolumn \<and> lastcolumn < int maxcolumns \<and> length cw = maxcolumns \<and>
     (\<forall>w\<in>set cw. 0 \<le> w \<and> (w = 0 \<or> w < threshold)))"

lemma tabular_ret:
  assumes "in_row usage s it"
  shows "\<exists>b. tabular usage it = Inr b"
  using assms by (auto simp: in_row_def at_part_def tabular_def part_end_def text_char_def)

lemma part_data_ret:
  assumes "in_row usage s it"
  shows "\<exists>data. part_data usage it = Inr data \<and> printable data"
  using assms by (auto simp: in_row_def at_part_def part_data_def)

lemma measure_part_ret:
  assumes "in_row usage s p" "0 \<le> lp_col p" "widths_inv threshold st"
  shows "\<exists>st'. measure_part usage threshold p st = Inr st' \<and> widths_inv threshold st'"
proof -
  obtain last cw where st: "st = (last, cw)" by force
  obtain b where b: "tabular usage p = Inr b" using tabular_ret [OF assms(1)] by blast
  have inv: "0 \<le> last" "last < int maxcolumns" "length cw = maxcolumns" "\<forall>w\<in>set cw. 0 \<le> w \<and> (w = 0 \<or> w < threshold)"
    using assms(3) st by (simp_all add: widths_inv_def)
  show ?thesis
  proof (cases "part_column p < int maxcolumns")
    case False
    then show ?thesis using assms(3) st by (simp add: measure_part_def)
  next
    case True
    let ?i = "nat (part_column p)" and ?v = "int (part_screenLength p)"
    have i: "?i < length cw" "0 \<le> part_column p" using True assms(2) inv(3) by (auto simp: part_column_def)
    have a: "arr_upmax cw (part_column p) ?v = Inr (cw[?i := upmax (cw ! ?i) ?v])"
      using i by (simp add: arr_upmax_def arr_get_def)
    let ?cw = "if ?v < threshold \<and> b then cw[?i := upmax (cw ! ?i) ?v] else cw"
    have r: "measure_part usage threshold p st = Inr (upmax last (part_column p), ?cw)"
      using True b a st by (auto simp: measure_part_def Let_def)
    have "cw ! ?i \<in> set cw" using i(1) by simp
    then have "0 \<le> upmax (cw ! ?i) ?v \<and> upmax (cw ! ?i) ?v < threshold" if "?v < threshold"
      using inv(4) that by (fastforce simp: upmax_def)
    then have "\<forall>w\<in>set ?cw. 0 \<le> w \<and> (w = 0 \<or> w < threshold)"
      using inv(4) set_update_subset_insert [of cw ?i "upmax (cw ! ?i) ?v"] by (simp split: if_split) blast
    then have "widths_inv threshold (upmax last (part_column p), ?cw)"
      using inv(1-3) True i(2) unfolding widths_inv_def prod.case by (simp add: upmax_def)
    then show ?thesis using r by blast
  qed
qed

lemma column_widths_ret:
  assumes "table_at usage t u" "lp_tablestart it = t"
  shows "\<exists>it' last cw. column_widths msc usage threshold it =
       ret (it', last, cw, sum_list (take (nat last) cw), fold (\<lambda>w m. upmax m w) (take (nat last) cw) 0) \<and>
     lp_tablestart it' = t \<and> widths_inv threshold (last, cw)"
proof -
  have "t < length usage" using assms(1) by (simp add: table_at_def)
  then obtain it1 where r: "restartTable usage it = Inr it1" using assms(2) by (simp add: restartTable_def desc_at_def)
  let ?body = "each_part msc usage (\<lambda>p st. liftc (measure_part usage threshold p st))"
  have b: "row_body_ok usage t u (widths_inv threshold) ?body"
  proof (rule parts_row_body)
    fix p st s
    assume "in_row usage s p" "0 \<le> lp_col p" "widths_inv threshold st"
    from measure_part_ret [OF this]
    show "\<exists>st'. liftc (measure_part usage threshold p st) = ret st' \<and> widths_inv threshold st'" by simp
  qed
  have i: "widths_inv threshold (0, replicate maxcolumns 0)" by (simp add: widths_inv_def maxcolumns_def)
  obtain it' st' where e: "each_row usage ?body it1 (0, replicate maxcolumns 0) = ret (it', st')"
    "lp_tablestart it' = t" "widths_inv threshold st'"
    using each_row_ret [OF assms(1) b r assms(2) i] by (elim exE conjE)
  obtain last cw where st': "st' = (last, cw)" by force
  have "column_widths msc usage threshold it =
      ret (it', last, cw, sum_list (take (nat last) cw), fold (\<lambda>w m. upmax m w) (take (nat last) cw) 0)"
    using r e(1) st' by (simp add: column_widths_def Let_def)
  then show ?thesis using e(2,3) st' by blast
qed

lemma fold_upmax: "fold (\<lambda>w m. upmax m w) xs a \<in> insert a (set xs) \<and> (\<forall>x\<in>insert a (set xs). x \<le> fold (\<lambda>w m. upmax m w) xs a)"
  for a :: int
proof (induction xs arbitrary: a)
  case (Cons x xs)
  have "a \<le> upmax a x" "x \<le> upmax a x" "upmax a x \<in> {a, x}" by (auto simp: upmax_def)
  then show ?case using Cons [of "upmax a x"] by force
qed simp

lemma threshold_decreases:
  assumes "\<forall>w\<in>set xs. 0 \<le> w \<and> (w = 0 \<or> w < threshold)" "0 < sum_list xs"
  shows "0 \<le> fold (\<lambda>w m. upmax m w) xs 0 \<and> fold (\<lambda>w m. upmax m w) xs 0 < (threshold :: int)"
proof -
  let ?m = "fold (\<lambda>w m. upmax m w) xs 0"
  have m: "?m = 0 \<or> ?m \<in> set xs" "0 \<le> ?m" "\<forall>x\<in>set xs. x \<le> ?m" using fold_upmax [of xs 0] by auto
  have "\<exists>w\<in>set xs. 0 < w"
  proof (rule ccontr)
    assume "\<not> (\<exists>w\<in>set xs. 0 < w)"
    then have "sum_list xs \<le> 0" by (intro sum_list_nonpos) auto
    then show False using assms(2) by simp
  qed
  then show ?thesis using m assms(1) by force
qed

lemma widths_loop_ret:
  assumes "table_at usage t u" "1 \<le> width"
  shows "lp_tablestart it = t \<Longrightarrow> \<exists>it' last cw. widths_loop msc usage width threshold it = ret (it', last, cw) \<and>
     lp_tablestart it' = t \<and> 0 \<le> last \<and> last < int maxcolumns \<and> length cw = maxcolumns"
proof (induction "nat threshold" arbitrary: threshold it rule: less_induct)
  case less
  obtain it' last cw where c: "column_widths msc usage threshold it =
       ret (it', last, cw, sum_list (take (nat last) cw), fold (\<lambda>w m. upmax m w) (take (nat last) cw) 0)"
    "lp_tablestart it' = t" "widths_inv threshold (last, cw)"
    using column_widths_ret [OF assms(1) less(2)] by blast
  let ?left = "take (nat last) cw"
  show ?case
  proof (cases "sum_list ?left > width")
    case False
    then show ?thesis using c by (simp add: widths_loop.simps [of msc usage width threshold] widths_inv_def)
  next
    case True
    have "\<forall>w\<in>set ?left. 0 \<le> w \<and> (w = 0 \<or> w < threshold)" using c(3) by (auto simp: widths_inv_def dest: in_set_takeD)
    then have "nat (fold (\<lambda>w m. upmax m w) ?left 0) < nat threshold"
      using threshold_decreases [of ?left threshold] True assms(2) by linarith
    then show ?thesis using less(1) c True by (simp add: widths_loop.simps [of msc usage width threshold])
  qed
qed

lemma length_tab_stops [simp]: "length (tab_stops stop ws) = length ws"
  by (induction stop ws rule: tab_stops.induct) auto

lemma make_layout_ret:
  assumes "0 \<le> lc" "lc < int maxcolumns" "length cw = maxcolumns"
  shows "\<exists>ly. make_layout width mw ow lc cw = Inr ly \<and> ly_lastcolumn ly = lc \<and> length (ly_tabstop ly) = maxcolumns"
  using assms by (simp add: make_layout_def arr_get_def Let_def)

section \<open>Printing\<close>

definition wrapper_ok :: "line_wrapper \<Rightarrow> bool" where
  "wrapper_ok lw \<longleftrightarrow> ring_ok lw \<and> 2 \<le> lw_width lw"

definition print_inv :: "usage_state \<Rightarrow> bool" where
  "print_inv st \<longleftrightarrow> wrapper_ok (ps_last st) \<and> wrapper_ok (ps_interjection st)"

definition layout_ok :: "usage_layout \<Rightarrow> bool" where
  "layout_ok ly \<longleftrightarrow> 0 \<le> ly_lastcolumn ly \<and> ly_lastcolumn ly < int maxcolumns \<and> length (ly_tabstop ly) = maxcolumns"

lemma process_ret:
  assumes "wrapper_ok lw" "printable data"
  shows "\<exists>lw' out'. lw_process msc data lw out = ret (lw', out') \<and> wrapper_ok lw'"
  using lw_process_lines [of data lw msc out] assms by (auto simp: wrapper_ok_def)

lemma flush_ret:
  assumes "wrapper_ok lw"
  shows "\<exists>lw' out'. lw_flush lw out = ret (lw', out') \<and> wrapper_ok lw'"
  using lw_flush_lines [of lw out] assms by (auto simp: wrapper_ok_def)

lemma wrapper_new_ok: "length junk = 16 \<Longrightarrow> wrapper_ok (line_wrapper_new junk w x1 x2)"
  using ring_new(1) by (simp add: wrapper_ok_def) (simp add: line_wrapper_new_def)

lemma print_part_ret:
  assumes "layout_ok ly" "in_row usage s p" "0 \<le> lp_col p" "print_inv st"
  shows "\<exists>st'. print_part msc usage ly p st = ret st' \<and> print_inv st'"
proof (cases "part_column p > ly_lastcolumn ly")
  case True
  then show ?thesis using assms(4) by (simp add: print_part_def)
next
  case False
  let ?col = "part_column p" and ?lc = "ly_lastcolumn ly"
  obtain b where b: "tabular usage p = Inr b" using tabular_ret [OF assms(2)] by blast
  obtain data where d: "part_data usage p = Inr data" "printable data" using part_data_ret [OF assms(2)] by blast
  obtain x1 out1 where x1: "(if ?col = 0 then (0, if ps_x st \<ge> 0 then emit nl (ps_out st) else ps_out st)
      else (ps_x st, ps_out st)) = (x1, out1)" by (metis surj_pair)
  obtain stop where stop: "arr_get (ly_tabstop ly) ?col = Inr stop"
    using assms(1,3) False by (simp add: arr_get_def layout_ok_def part_column_def)
  obtain out2 x2 where x2: "indent out1 x1 stop = (out2, x2)" by force
  obtain cell where cell: "(if ?col < ?lc then tabular usage p else Inr False) = Inr cell" using b by (cases "?col < ?lc") auto
  have inv: "wrapper_ok (ps_last st)" "wrapper_ok (ps_interjection st)" using assms(4) by (simp_all add: print_inv_def)
  obtain lw out where lw: "lw_process msc data (ps_last st) out2 = ret (lw, out)" "wrapper_ok lw"
    using process_ret [OF inv(1) d(2)] by blast
  obtain lw' out' where lw': "lw_process msc data (ps_interjection st) out2 = ret (lw', out')" "wrapper_ok lw'"
    using process_ret [OF inv(2) d(2)] by blast
  have "print_part msc usage ly p st =
      (if cell then ret (st\<lparr>ps_x := x2 + int (part_screenLength p), ps_out := emit data out2\<rparr>)
       else if \<not> ly_own_line ly \<or> ?col \<noteq> ?lc then
         if ?col = 0 then ret (st\<lparr>ps_x := x2, ps_interjection := lw', ps_out := out'\<rparr>)
         else ret (st\<lparr>ps_x := x2, ps_last := lw, ps_out := out\<rparr>)
       else ret (st\<lparr>ps_x := x2, ps_out := out2\<rparr>))"
    using False d(1) lw(1) lw'(1) unfolding print_part_def Let_def x1 by (simp add: stop x2 cell)
  then show ?thesis using inv lw(2) lw'(2) by (simp add: print_inv_def)
qed

lemma print_own_line_ret:
  assumes "in_row usage s p" "print_inv st"
  shows "\<exists>st'. print_own_line msc usage ly p st = ret st' \<and> print_inv st'"
proof -
  obtain data where d: "part_data usage p = Inr data" "printable data" using part_data_ret [OF assms(1)] by blast
  have inv: "wrapper_ok (ps_last st)" using assms(2) by (simp add: print_inv_def)
  obtain lw out where "lw_process msc data (ps_last st)
      (fst (indent (emit nl (ps_out st)) 0 (ly_width ly - ly_rightwidth ly))) = ret (lw, out)" "wrapper_ok lw"
    using process_ret [OF inv d(2)] by blast
  then show ?thesis using d(1) assms(2) by (simp add: print_own_line_def print_inv_def)
qed

lemma restart_same: "same_row (restartRow it) it"
  by (simp add: restartRow_def same_row_def)

lemma at_row_again:
  assumes "table_at usage t u" "at_row usage t u it"
  shows "at_row usage t u (restartRow it)"
proof -
  obtain r s where r: "lp_tablestart it = t" "lp_rowdesc it = Some r" "t \<le> r" "r < u" "d_help (usage ! r) = Some s"
    "in_row usage s it"
    using assms(2) by (auto simp: at_row_def)
  then obtain q where "lp_rowstart it = Some q" "q \<le> length s" by (auto simp: in_row_def at_part_def)
  then show ?thesis using at_row_restart [OF assms(1) r(1-5)] by blast
qed

lemma print_usage_row_body:
  assumes "table_at usage t u" "layout_ok ly"
  shows "row_body_ok usage t u print_inv (print_usage_row msc usage ly)"
  unfolding row_body_ok_def
proof (intro allI impI, elim conjE)
  fix it st
  assume it: "at_row usage t u it" "print_inv st"
  have parts: "row_body_ok usage t u print_inv (each_part msc usage (print_part msc usage ly))"
    by (rule parts_row_body) (rule print_part_ret [OF assms(2)])
  have own: "row_body_ok usage t u print_inv (each_part msc usage (print_own_line msc usage ly))"
    by (rule parts_row_body) (rule print_own_line_ret)
  have "print_inv (st\<lparr>ps_x := - 1\<rparr>)" using it(2) by (simp add: print_inv_def)
  then obtain it1 st1 where r1: "each_part msc usage (print_part msc usage ly) it (st\<lparr>ps_x := - 1\<rparr>) = ret (it1, st1)"
    "at_row usage t u it1" "same_row it1 it" "print_inv st1"
    using parts it(1) unfolding row_body_ok_def by blast
  have "\<exists>it2 st2. (if ly_own_line ly then each_part msc usage (print_own_line msc usage ly) (restartRow it1) st1
      else ret (it1, st1)) = ret (it2, st2) \<and> at_row usage t u it2 \<and> same_row it2 it1 \<and> print_inv st2"
  proof (cases "ly_own_line ly")
    case True
    have "at_row usage t u (restartRow it1)" by (rule at_row_again [OF assms(1) r1(2)])
    then obtain it2 st2 where "each_part msc usage (print_own_line msc usage ly) (restartRow it1) st1 = ret (it2, st2)"
      "at_row usage t u it2" "same_row it2 (restartRow it1)" "print_inv st2"
      using own r1(4) unfolding row_body_ok_def by blast
    then show ?thesis using True same_row_trans restart_same by auto
  qed (use r1 in simp)
  then obtain it2 st2 where r2: "(if ly_own_line ly then each_part msc usage (print_own_line msc usage ly) (restartRow it1) st1
      else ret (it1, st1)) = ret (it2, st2)" "at_row usage t u it2" "same_row it2 it1" "print_inv st2" by blast
  have inv: "wrapper_ok (ps_last st2)" "wrapper_ok (ps_interjection st2)" using r2(4) by (simp_all add: print_inv_def)
  obtain lw out1 where f1: "lw_flush (ps_last st2) (emit nl (ps_out st2)) = ret (lw, out1)" "wrapper_ok lw"
    using flush_ret [OF inv(1)] by blast
  obtain lw' out2 where f2: "lw_flush (ps_interjection st2) out1 = ret (lw', out2)" "wrapper_ok lw'"
    using flush_ret [OF inv(2)] by blast
  have "print_usage_row msc usage ly it st = ret (it2, st2\<lparr>ps_last := lw, ps_interjection := lw', ps_out := out2\<rparr>)"
    using r1(1) r2(1) f1(1) f2(1) by (simp add: print_usage_row_def)
  then show "\<exists>it' st'. print_usage_row msc usage ly it st = ret (it', st') \<and> at_row usage t u it' \<and> same_row it' it \<and> print_inv st'"
    using r2(2) same_row_trans [OF r2(3) r1(3)] f1(2) f2(2) by (auto simp: print_inv_def)
qed

lemma print_table_ret:
  assumes "table_at usage t u" "1 \<le> uf_width uf" "lp_tablestart it = t" "length junk = 16"
  shows "\<exists>it' out'. print_table msc junk usage uf it out = ret (it', out') \<and> lp_tablestart it' = t \<and> lp_rowdesc it' \<noteq> None"
proof -
  obtain it1 lc cw where w: "widths_loop msc usage (uf_width uf) 10000 it = ret (it1, lc, cw)" "lp_tablestart it1 = t"
    "0 \<le> lc" "lc < int maxcolumns" "length cw = maxcolumns"
    using widths_loop_ret [OF assms(1,2,3)] by blast
  obtain ly where ly: "make_layout (uf_width uf) (uf_min_width uf) (uf_own_line_max_width uf) lc cw = Inr ly"
    "ly_lastcolumn ly = lc" "length (ly_tabstop ly) = maxcolumns"
    using make_layout_ret [OF w(3-5)] by blast
  have "layout_ok ly" using ly w by (simp add: layout_ok_def)
  have "t < length usage" using assms(1) by (simp add: table_at_def)
  then obtain it2 where r: "restartTable usage it1 = Inr it2" using w(2) by (simp add: restartTable_def desc_at_def)
  let ?st = "\<lparr>ps_x = 0,
         ps_last = line_wrapper_new junk False (uf_width uf - ly_rightwidth ly) (uf_width uf),
         ps_interjection = line_wrapper_new junk False 0 (uf_width uf),
         ps_out = out\<rparr>"
  have "print_inv ?st" using wrapper_new_ok [OF assms(4)] by (simp add: print_inv_def)
  from each_row_ret [OF assms(1) print_usage_row_body [OF assms(1) \<open>layout_ok ly\<close>, of msc] r w(2) this]
  obtain it3 st where "each_row usage (print_usage_row msc usage ly) it2 ?st = ret (it3, st)" "lp_tablestart it3 = t"
    "lp_rowdesc it3 \<noteq> None" by (elim exE conjE)
  then show ?thesis using w(1) ly(1) r by (simp add: print_table_def)
qed

section \<open>Tables\<close>

text \<open>All help texts can be decoded, and the last descriptor ends a table.\<close>

definition descriptors_ok :: "descriptor list \<Rightarrow> bool" where
  "descriptors_ok usage \<longleftrightarrow> usage \<noteq> [] \<and> d_help (last usage) = None \<and>
     (\<forall>d\<in>set usage. \<forall>s. d_help d = Some s \<longrightarrow> help_ok s)"

lemma usage_scan_finds:
  "k < length usage \<Longrightarrow> P (usage ! k) \<Longrightarrow> i \<le> k \<Longrightarrow>
     \<exists>j. usage_scan (\<lambda>d. Inr (P d)) usage i = Inr j \<and> i \<le> j \<and> j \<le> k \<and> P (usage ! j) \<and> (\<forall>m\<in>{i..<j}. \<not> P (usage ! m))"
proof (induction "k - i" arbitrary: i)
  case 0
  then show ?case by (subst usage_scan.simps) auto
next
  case (Suc n)
  show ?case
  proof (cases "P (usage ! i)")
    case True
    then show ?thesis using Suc by (subst usage_scan.simps) auto
  next
    case False
    then have "Suc i \<le> k" using Suc(3-5) by (metis Suc_leI le_neq_implies_less)
    then obtain j where "usage_scan (\<lambda>d. Inr (P d)) usage (Suc i) = Inr j" "Suc i \<le> j" "j \<le> k" "P (usage ! j)"
      "\<forall>m\<in>{Suc i..<j}. \<not> P (usage ! m)" using Suc by (metis Suc_diff_Suc Suc_inject Suc_le_lessD)
    then show ?thesis using False Suc(3,5) by (subst usage_scan.simps) (force simp: not_less_eq_eq le_Suc_eq)
  qed
qed

lemma table_exists:
  assumes "descriptors_ok usage" "t < length usage" "d_help (usage ! t) \<noteq> None"
  shows "\<exists>u. table_at usage t u"
proof -
  have l: "length usage - 1 < length usage" "d_help (usage ! (length usage - 1)) = None" "t \<le> length usage - 1"
    using assms(1,2) by (auto simp: descriptors_ok_def last_conv_nth)
  obtain u where u: "t \<le> u" "u < length usage" "d_help (usage ! u) = None" "\<forall>m\<in>{t..<u}. d_help (usage ! m) \<noteq> None"
    using usage_scan_finds [OF l(1), of "\<lambda>d. d_help d = None", OF l(2,3)] l(1) by auto
  have "t < u" using u(1,3) assms(3) by (metis le_neq_implies_less)
  then show ?thesis using u assms(1) by (force simp: table_at_def descriptors_ok_def)
qed

text \<open>
  The first descriptor without a \<open>shortopt\<close> is at \<open>e\<close>. The search for the next table ends at a
  descriptor with a help text, or at \<open>e\<close>.
\<close>

lemma nextTable_ok:
  assumes "descriptors_ok usage" "e < length usage" "d_shortopt (usage ! e) = None" "\<forall>m<e. d_shortopt (usage ! m) \<noteq> None"
    and "lp_tablestart it \<le> e"
  shows "\<exists>it' j. nextTable usage it = Inr (it', d_help (usage ! j) \<noteq> None) \<and> lp_tablestart it' = j \<and> lp_tablestart it \<le> j \<and>
     j \<le> e \<and> (d_help (usage ! j) = None \<longrightarrow> j = e) \<and>
     (lp_rowdesc it \<noteq> None \<longrightarrow> d_help (usage ! lp_tablestart it) \<noteq> None \<longrightarrow> lp_tablestart it < e \<longrightarrow> lp_tablestart it < j)"
proof -
  let ?i = "lp_tablestart it"
  let ?P1 = "\<lambda>d. \<not> (d_help d \<noteq> None \<and> d_shortopt d \<noteq> None)" and ?P2 = "\<lambda>d. \<not> (d_help d = None \<and> d_shortopt d \<noteq> None)"
  have e: "?P1 (usage ! e)" "?P2 (usage ! e)" using assms(3) by simp_all
  obtain i1 where i1: "(if lp_rowdesc it \<noteq> None then usage_scan (\<lambda>d. Inr (?P1 d)) usage ?i else Inr ?i) = Inr i1"
    "?i \<le> i1" "i1 \<le> e" "lp_rowdesc it \<noteq> None \<longrightarrow> ?P1 (usage ! i1)"
    using usage_scan_finds [OF assms(2), of ?P1, OF e(1) assms(5)] assms(5) by (cases "lp_rowdesc it = None") auto
  obtain j where j: "usage_scan (\<lambda>d. Inr (?P2 d)) usage i1 = Inr j" "i1 \<le> j" "j \<le> e" "?P2 (usage ! j)"
    using usage_scan_finds [OF assms(2), of ?P2, OF e(2) i1(3)] by blast
  have "j < length usage" using j(3) assms(2) by simp
  then obtain it' where r: "restartTable usage (it\<lparr>lp_tablestart := j\<rparr>) = Inr it'" "lp_tablestart it' = j"
    "lp_rowstart it' = (if d_help (usage ! j) = None then None else Some 0)"
    by (simp add: restartTable_def desc_at_def)
  have n: "nextTable usage it = Inr (it', d_help (usage ! j) \<noteq> None)"
    using i1(1) j(1) r(1,3) unfolding nextTable_def by simp
  have at_e: "j = e" if "d_help (usage ! j) = None"
  proof (rule ccontr)
    assume "j \<noteq> e"
    then have "j < e" using j(3) by simp
    then have "d_shortopt (usage ! j) \<noteq> None" using assms(4) by blast
    then show False using j(4) that by simp
  qed
  have further: "?i < j" if "lp_rowdesc it \<noteq> None" "d_help (usage ! ?i) \<noteq> None" "?i < e"
  proof -
    have "d_shortopt (usage ! ?i) \<noteq> None" using that(3) assms(4) by blast
    then have "i1 \<noteq> ?i" using i1(4) that(1,2) by auto
    then show ?thesis using i1(2) j(2) by simp
  qed
  have "?i \<le> j" using i1(2) j(2) by simp
  then show ?thesis using n r(2) j(3) at_e further
    by (intro exI [of _ it'] exI [of _ j] conjI impI) simp_all
qed

text \<open>One round of the loop over the tables.\<close>

lemma print_table_at:
  assumes "descriptors_ok usage" "e < length usage" "1 \<le> uf_width uf" "length junk = 16"
    and "lp_tablestart it1 = j" "j \<le> e" "d_help (usage ! j) \<noteq> None"
  shows "\<exists>it2 out2. print_table msc junk usage uf it1 out = ret (it2, out2) \<and> lp_tablestart it2 = j \<and> lp_rowdesc it2 \<noteq> None"
proof -
  obtain u where "table_at usage j u" using table_exists [OF assms(1) _ assms(7)] assms(2,6) by auto
  from print_table_ret [OF this assms(3,5,4)] show ?thesis .
qed

lemma tables_loop_ret:
  assumes "descriptors_ok usage" "e < length usage" "d_shortopt (usage ! e) = None" "\<forall>m<e. d_shortopt (usage ! m) \<noteq> None"
    and "d_help (usage ! e) = None" "1 \<le> uf_width uf" "length junk = 16"
  shows "lp_tablestart it \<le> e \<Longrightarrow> lp_rowdesc it \<noteq> None \<Longrightarrow> d_help (usage ! lp_tablestart it) \<noteq> None \<Longrightarrow>
     \<exists>out'. tables_loop msc junk usage uf it out = ret out'"
proof (induction "e - lp_tablestart it" arbitrary: it out rule: less_induct)
  case less
  have "lp_tablestart it \<noteq> e" using less(4) assms(5) by auto
  then have lt: "lp_tablestart it < e" using less(2) by simp
  from nextTable_ok [OF assms(1-4) less(2)]
  obtain it1 j where n: "nextTable usage it = Inr (it1, d_help (usage ! j) \<noteq> None)" "lp_tablestart it1 = j" "j \<le> e"
    "lp_tablestart it < j" using less(3,4) lt by (elim exE conjE) simp
  show ?case
  proof (cases "d_help (usage ! j) = None")
    case True
    then show ?thesis using n(1) by (simp add: tables_loop.simps [of msc junk usage uf it])
  next
    case False
    obtain it2 out2 where r: "print_table msc junk usage uf it1 out = ret (it2, out2)" "lp_tablestart it2 = j"
      "lp_rowdesc it2 \<noteq> None"
      using print_table_at [OF assms(1,2,6,7) n(2,3) False] by blast
    have "\<exists>out'. tables_loop msc junk usage uf it2 out2 = ret out'"
      by (rule less(1)) (use r n lt False in auto)
    then show ?thesis using n(1) False r(1) by (simp add: tables_loop.simps [of msc junk usage uf it])
  qed
qed

lemma tables_loop_hangs:
  assumes "descriptors_ok usage" "e < length usage" "d_shortopt (usage ! e) = None" "\<forall>m<e. d_shortopt (usage ! m) \<noteq> None"
    and "d_help (usage ! e) \<noteq> None" "1 \<le> uf_width uf" "length junk = 16"
    and "lp_tablestart it \<le> e"
  shows "tables_loop msc junk usage uf it out = None"
proof -
  let ?P = "\<lambda>msc' junk' usage' uf' it out y. msc' = msc \<longrightarrow> junk' = junk \<longrightarrow> usage' = usage \<longrightarrow> uf' = uf \<longrightarrow>
    \<not> lp_tablestart it \<le> e"
  have "?P msc' junk' usage' uf' it' out' y" if "tables_loop msc' junk' usage' uf' it' out' = Some y"
    for msc' junk' usage' uf' it' out' y
  proof (rule tables_loop.raw_induct [where P = ?P, OF _ that], intro impI)
    fix tl msc' junk' usage' uf' it out y
    assume IH: "\<And>msc' junk' usage' uf' it out y. tl msc' junk' usage' uf' it out = Some y \<Longrightarrow> ?P msc' junk' usage' uf' it out y"
      and body: "bindc (liftc (nextTable usage' it)) (\<lambda>r. if snd r
         then bindc (print_table msc' junk' usage' uf' (fst r) out) (\<lambda>q. tl msc' junk' usage' uf' (fst q) (snd q))
         else ret out) = Some y"
      and eq: "msc' = msc" "junk' = junk" "usage' = usage" "uf' = uf"
    show "\<not> lp_tablestart it \<le> e"
    proof
      assume le: "lp_tablestart it \<le> e"
      obtain it1 j where n: "nextTable usage it = Inr (it1, d_help (usage ! j) \<noteq> None)" "lp_tablestart it1 = j" "j \<le> e"
        "d_help (usage ! j) = None \<longrightarrow> j = e"
        using nextTable_ok [OF assms(1-4) le] by (elim exE conjE) simp
      then have h: "d_help (usage ! j) \<noteq> None" using assms(5) by auto
      obtain it2 out2 where r: "print_table msc junk usage uf it1 out = ret (it2, out2)" "lp_tablestart it2 = j"
        using print_table_at [OF assms(1,2,6,7) n(2,3) h] by blast
      have "tl msc junk usage uf it2 out2 = Some y" using body eq n(1) h r(1) by simp
      then show False using IH r(2) n(3) by blast
    qed
  qed
  then show ?thesis using assms(8) by (cases "tables_loop msc junk usage uf it out") auto
qed

lemma print_usage_ret:
  assumes "descriptors_ok usage" "e < length usage" "d_shortopt (usage ! e) = None" "\<forall>m<e. d_shortopt (usage ! m) \<noteq> None"
    and "d_help (usage ! e) = None" "length junk = 16"
  shows "\<exists>out. print_usage msc junk usage width mp op = ret out"
proof -
  let ?uf = "usage_format_of width mp op"
  have w: "1 \<le> uf_width ?uf" by (simp add: usage_format_of_def Let_def)
  obtain it1 j where n: "nextTable usage (line_part_new 0) = Inr (it1, d_help (usage ! j) \<noteq> None)" "lp_tablestart it1 = j" "j \<le> e"
    using nextTable_ok [OF assms(1-4), of "line_part_new 0"] by (auto simp: line_part_new_def)
  show ?thesis
  proof (cases "d_help (usage ! j) = None")
    case True
    then show ?thesis using n(1) by (simp add: print_usage_def tables_loop.simps [of msc junk usage ?uf])
  next
    case False
    obtain it2 out2 where r: "print_table msc junk usage ?uf it1 [] = ret (it2, out2)" "lp_tablestart it2 = j"
      "lp_rowdesc it2 \<noteq> None"
      using print_table_at [OF assms(1,2) w assms(6) n(2,3) False] by blast
    have "\<exists>out'. tables_loop msc junk usage ?uf it2 out2 = ret out'"
      by (rule tables_loop_ret [OF assms(1-5) w assms(6)]) (use r n(3) False in auto)
    then show ?thesis using n(1) False r(1) by (simp add: print_usage_def tables_loop.simps [of msc junk usage ?uf "line_part_new 0"])
  qed
qed

end
