(* ===== verification/Utf8.thy ===== *)
theory Utf8
  imports Wrap_Text
begin

text \<open>
  The decoding of the help texts against the UTF-8 encoding of code points: each encoded
  character is recognised with its length, and its code point decides how wide it is.
\<close>

section \<open>Encoding\<close>

definition utf8 :: "nat \<Rightarrow> char list" where
  "utf8 cp =
     map char_of
       (if cp < 0x80 then [cp]
        else if cp < 0x800 then [0xC0 + cp div 64, 0x80 + cp mod 64]
        else if cp < 0x10000 then [0xE0 + cp div 4096, 0x80 + cp div 64 mod 64, 0x80 + cp mod 64]
        else [0xF0 + cp div 262144, 0x80 + cp div 4096 mod 64, 0x80 + cp div 64 mod 64, 0x80 + cp mod 64])"

text \<open>Unicode ends at 10FFFF; the zero and the separators of parts are no characters of a part.\<close>

definition code_point :: "nat \<Rightarrow> bool" where
  "code_point cp \<longleftrightarrow> cp < 0x110000 \<and> cp \<notin> {0, 9, 10, 11}"

definition wide_point :: "nat \<Rightarrow> bool" where
  "wide_point cp = isWideChar (of_nat cp)"

section \<open>Decoding\<close>

declare continuation.simps [simp del]

lemma uchar_char_of: "n < 256 \<Longrightarrow> uchar (char_of n) = of_nat n" for n :: nat
proof -
  assume "n < 256"
  then have "of_nat (of_char (char_of n :: char)) = (of_nat n :: 32 word)" by simp
  then show ?thesis by (simp only: uchar_def of_nat_of_char)
qed

definition payload :: "bool \<Rightarrow> nat \<Rightarrow> 32 word" where
  "payload msc b = (case length_mask msc (of_nat b) of Inl e \<Rightarrow> 0 | Inr m \<Rightarrow> of_nat b AND m)"

lemma payload_values:
  "list_all (\<lambda>a. payload True (0xC0 + a) = of_nat a \<and> payload False (0xC0 + a) = of_nat a) [0..<32]"
  "list_all (\<lambda>a. payload True (0xE0 + a) = of_nat a \<and> payload False (0xE0 + a) = of_nat a) [0..<16]"
  "list_all (\<lambda>a. payload True (0xF0 + a) = of_nat a \<and> payload False (0xF0 + a) = of_nat a) [0..<8]"
  by code_simp+

lemma cont_values:
  "list_all (\<lambda>c. (of_nat (0x80 + c) XOR 0x80 :: 32 word) = of_nat c) [0..<64]"
  by code_simp

lemma cont_value: "c < 64 \<Longrightarrow> uchar (char_of (0x80 + c)) XOR 0x80 = of_nat c"
  using cont_values uchar_char_of [of "0x80 + c"] by (simp add: list_all_iff)

lemma shift_in: "c < 64 \<Longrightarrow> push_bit 6 (of_nat v) XOR of_nat c = (of_nat (64 * v + c) :: 32 word)"
proof -
  assume "c < 64"
  then have c: "take_bit 6 (of_nat c :: 32 word) = of_nat c"
    by (simp flip: of_nat_take_bit) (simp add: take_bit_nat_eq_self)
  have "push_bit 6 (of_nat v) AND take_bit 6 (of_nat c :: 32 word) = 0"
    by (rule bit_eqI) (auto simp: bit_simps)
  then have "push_bit 6 (of_nat v) XOR of_nat c = push_bit 6 (of_nat v) + (of_nat c :: 32 word)"
    using c by (simp add: disjunctive_add_eq_xor)
  then show ?thesis by (simp add: push_bit_eq_mult)
qed

lemma continuation_step:
  assumes "c < 64"
  shows "continuation (char_of (0x80 + c) # bs) (of_nat v) n = continuation bs (of_nat (64 * v + c)) (n + 1)"
proof -
  have "of_nat c \<le> (0x3F :: 32 word)" using assms by (simp add: word_le_nat_alt unat_of_nat)
  then show ?thesis using cont_value [OF assms] shift_in [OF assms, of v]
    by (simp add: xor.assoc continuation.simps)
qed

text \<open>What can follow a character: nothing, or a byte that does not continue it.\<close>

definition stops :: "string \<Rightarrow> bool" where
  "stops bs \<longleftrightarrow> bs = [] \<or> \<not> cont_byte (hd bs)"

lemma continuation_stops: "stops bs \<Longrightarrow> continuation bs ch n = (ch, n)"
  by (cases bs) (auto simp: stops_def cont_byte_def continuation.simps)

lemma isWideChar_ge: "isWideChar ch \<Longrightarrow> 0x1100 \<le> ch"
  by (auto simp: isWideChar_def split: if_splits elim!: order.trans [rotated])

text \<open>A lead byte with the payload \<open>a\<close>, and what the continuation bytes add to it.\<close>

lemma decode_lead:
  assumes "payload msc b = of_nat a" "0xC1 < b" "b < 0xFE"
    and "continuation bs (of_nat a) 0 = (of_nat cp, n)"
  shows "decode_char msc (char_of b) bs = Inr (1 + n, wide_point cp)"
proof -
  have b: "uchar (char_of b) = of_nat b" "0xC1 < (of_nat b :: 32 word)" "(of_nat b :: 32 word) < 0xFE"
    using assms(2,3) by (simp_all add: uchar_char_of word_less_nat_alt unat_of_nat)
  obtain m where m: "length_mask msc (of_nat b) = Inr m" using length_mask_ok [OF b(3)] by blast
  then have "of_nat b AND m = of_nat a" using assms(1) by (simp add: payload_def)
  then show ?thesis using b m assms(4) isWideChar_ge [of "of_nat cp"]
    by (auto simp: decode_char_def wide_point_def)
qed

lemma sextet: "64 * (x div (k * 64)) + x div k mod 64 = x div k" for x k :: nat
  by (simp add: div_mult2_eq)

lemma decode_utf8:
  assumes "code_point cp" "stops bs"
  shows "decode_char msc (hd (utf8 cp)) (tl (utf8 cp) @ bs) = Inr (length (utf8 cp), wide_point cp)"
proof -
  note stop = continuation_stops [OF assms(2)] continuation_step
  have cp: "cp < 1114112" using assms(1) by (simp add: code_point_def)
  consider "cp < 0x80" | "0x80 \<le> cp" "cp < 0x800" | "0x800 \<le> cp" "cp < 0x10000" | "0x10000 \<le> cp" by linarith
  then show ?thesis
  proof cases
    case 1
    then have "uchar (char_of cp) = of_nat cp" "(of_nat cp :: 32 word) < 0x80"
      by (simp_all add: uchar_char_of word_less_nat_alt unat_of_nat)
    moreover from this have "\<not> (of_nat cp :: 32 word) > 0xC1" "\<not> (of_nat cp :: 32 word) \<ge> 0x1100"
      by (auto simp: word_less_nat_alt word_le_nat_alt)
    moreover from this have "\<not> wide_point cp" using isWideChar_ge by (auto simp: wide_point_def)
    ultimately show ?thesis using 1 by (simp add: utf8_def decode_char_def)
  next
    case 2
    let ?a = "cp div 64"
    have a: "?a < 32" "2 \<le> ?a" "64 * ?a + cp mod 64 = cp" using 2 by simp_all
    have "payload msc (0xC0 + ?a) = of_nat ?a" using payload_values(1) a(1) by (cases msc) (auto simp: list_all_iff)
    moreover have "continuation (char_of (0x80 + cp mod 64) # bs) (of_nat ?a) 0 = (of_nat cp, 1)"
      using stop(2) [of "cp mod 64" bs ?a 0] stop(1) a(3) by simp
    moreover have "utf8 cp = map char_of [0xC0 + cp div 64, 0x80 + cp mod 64]"
      using 2 by (simp add: utf8_def)
    ultimately show ?thesis using a decode_lead [of msc "0xC0 + ?a" ?a] by simp
  next
    case 3
    let ?a = "cp div 4096"
    have a: "?a < 16" "64 * ?a + cp div 64 mod 64 = cp div 64" "64 * (cp div 64) + cp mod 64 = cp"
      using 3 less_mult_imp_div_less [of cp 16 4096] sextet [of cp 64] sextet [of cp 1] by simp_all
    have "payload msc (0xE0 + ?a) = of_nat ?a" using payload_values(2) a(1) by (cases msc) (auto simp: list_all_iff)
    moreover have "continuation (char_of (0x80 + cp div 64 mod 64) # char_of (0x80 + cp mod 64) # bs) (of_nat ?a) 0
        = (of_nat cp, 2)"
      using stop(2) [of "cp div 64 mod 64" "char_of (0x80 + cp mod 64) # bs" ?a 0]
        stop(2) [of "cp mod 64" bs "cp div 64" 1] stop(1) a by simp
    moreover have "utf8 cp = map char_of [0xE0 + cp div 4096, 0x80 + cp div 64 mod 64, 0x80 + cp mod 64]"
      using 3 by (simp add: utf8_def)
    ultimately show ?thesis using a decode_lead [of msc "0xE0 + ?a" ?a] by simp
  next
    case 4
    let ?a = "cp div 262144"
    have a: "?a < 8" "64 * ?a + cp div 4096 mod 64 = cp div 4096" "64 * (cp div 4096) + cp div 64 mod 64 = cp div 64"
      "64 * (cp div 64) + cp mod 64 = cp"
      using cp less_mult_imp_div_less [of cp 8 262144] sextet [of cp 4096] sextet [of cp 64] sextet [of cp 1] by simp_all
    have "payload msc (0xF0 + ?a) = of_nat ?a" using payload_values(3) a(1) by (cases msc) (auto simp: list_all_iff)
    moreover have "continuation (char_of (0x80 + cp div 4096 mod 64) # char_of (0x80 + cp div 64 mod 64) #
        char_of (0x80 + cp mod 64) # bs) (of_nat ?a) 0 = (of_nat cp, 3)"
      using stop(2) [of "cp div 4096 mod 64" "char_of (0x80 + cp div 64 mod 64) # char_of (0x80 + cp mod 64) # bs" ?a 0]
        stop(2) [of "cp div 64 mod 64" "char_of (0x80 + cp mod 64) # bs" "cp div 4096" 1]
        stop(2) [of "cp mod 64" bs "cp div 64" "Suc 1"] stop(1) a by simp
    moreover have "utf8 cp = map char_of [0xF0 + cp div 262144, 0x80 + cp div 4096 mod 64, 0x80 + cp div 64 mod 64, 0x80 + cp mod 64]"
      using 4 by (simp add: utf8_def)
    ultimately show ?thesis using a decode_lead [of msc "0xF0 + ?a" ?a] by simp
  qed
qed

section \<open>Texts\<close>

definition encode :: "nat list \<Rightarrow> string" where
  "encode cps = concat (map utf8 cps)"

definition screen_width :: "nat list \<Rightarrow> nat" where
  "screen_width cps = sum_list (map (\<lambda>cp. if wide_point cp then 2 else 1) cps)"

lemma lead_bytes:
  "list_all (\<lambda>b. \<not> ((of_nat b :: 32 word) XOR 0x80 \<le> 0x3F)) ([0..<0x80] @ [0xC0..<0xF8])"
  by code_simp

lemma utf8_lead:
  assumes "code_point cp"
  obtains b bs where "utf8 cp = char_of b # bs" "b < 0x80 \<and> b = cp \<or> 0xC0 \<le> b \<and> b < 0xF8"
proof -
  have "cp < 1114112" using assms by (simp add: code_point_def)
  then have "cp div 262144 < 8" using less_mult_imp_div_less [of cp 8 262144] by simp
  moreover have "cp < 0x800 \<Longrightarrow> cp div 64 < 32" using less_mult_imp_div_less [of cp 32 64] by simp
  moreover have "cp < 0x10000 \<Longrightarrow> cp div 4096 < 16" using less_mult_imp_div_less [of cp 16 4096] by simp
  moreover have "cp < 0x80 \<or> 0x80 \<le> cp \<and> cp < 0x800 \<or> 0x800 \<le> cp \<and> cp < 0x10000 \<or> 0x10000 \<le> cp" by linarith
  ultimately show thesis
    using that [of cp "[]"] that [of "0xC0 + cp div 64"] that [of "0xE0 + cp div 4096"] that [of "0xF0 + cp div 262144"]
    by (elim disjE) (simp_all add: utf8_def)
qed

lemma utf8_not_cont:
  assumes "code_point cp"
  shows "\<not> cont_byte (hd (utf8 cp))"
proof -
  obtain b bs where b: "utf8 cp = char_of b # bs" "b < 0x80 \<and> b = cp \<or> 0xC0 \<le> b \<and> b < 0xF8"
    using utf8_lead [OF assms] .
  then have "b \<in> set ([0..<0x80] @ [0xC0..<0xF8])"
    unfolding set_append set_upt Un_iff atLeastLessThan_iff by linarith
  then have "\<not> ((of_nat b :: 32 word) XOR 0x80 \<le> 0x3F)" using lead_bytes unfolding list_all_iff by blast
  moreover have "b < 256" using b(2) by auto
  ultimately show ?thesis using b(1) by (simp add: cont_byte_def uchar_char_of)
qed

lemma utf8_text_byte:
  assumes "code_point cp"
  shows "text_byte (hd (utf8 cp))"
proof -
  obtain b bs where b: "utf8 cp = char_of b # bs" "b < 0x80 \<and> b = cp \<or> 0xC0 \<le> b \<and> b < 0xF8"
    using utf8_lead [OF assms] .
  then have n: "b < 256" "b \<notin> {0, 9, 10, 11}" using assms by (auto simp: code_point_def)
  have "of_char (char_of b :: char) = b" using n(1) by simp
  moreover have "of_char nul = (0 :: nat)" "of_char VT = (11 :: nat)" "of_char TAB = (9 :: nat)" "of_char LF = (10 :: nat)"
    by simp_all
  ultimately have "char_of b \<notin> {nul, VT, TAB, LF}" using n(2) by (metis insertE singletonD insertCI)
  moreover have "uchar (char_of b) < 0xFE" using b(2) n(1) by (auto simp: uchar_char_of word_less_nat_alt unat_of_nat)
  ultimately show ?thesis using b(1) by (simp add: text_byte_def)
qed

text \<open>What ends a part: the end of the text, or a zero or separator.\<close>

definition part_ends :: "string \<Rightarrow> bool" where
  "part_ends rest \<longleftrightarrow> rest = [] \<or> hd rest \<in> {nul, VT, TAB, LF}"

lemma separators_not_cont: "\<forall>c\<in>{nul, VT, TAB, LF}. \<not> cont_byte c"
  by code_simp

lemma encode_stops: "\<forall>cp\<in>set cps. code_point cp \<Longrightarrow> part_ends rest \<Longrightarrow> stops (encode cps @ rest)"
proof (cases cps)
  case Nil
  assume "part_ends rest"
  then show ?thesis using Nil separators_not_cont by (auto simp: encode_def stops_def part_ends_def)
next
  case (Cons cp cps')
  assume "\<forall>cp\<in>set cps. code_point cp"
  then have "\<not> cont_byte (hd (utf8 cp))" "utf8 cp \<noteq> []" using utf8_not_cont Cons by (auto simp: utf8_def)
  then show ?thesis using Cons by (simp add: encode_def stops_def)
qed

lemma part_length_encode:
  "\<forall>cp\<in>set cps. code_point cp \<Longrightarrow> part_ends rest \<Longrightarrow>
     part_length msc (encode cps @ rest) 0 0 = Inr (length (encode cps), screen_width cps)"
proof (induction cps)
  case Nil
  then show ?case by (cases rest) (auto simp: encode_def screen_width_def part_ends_def part_length.simps)
next
  case (Cons cp cps)
  obtain c cs where c: "utf8 cp = c # cs" by (cases "utf8 cp") (auto simp: utf8_def split: if_splits)
  have "decode_char msc c (cs @ encode cps @ rest) = Inr (length (utf8 cp), wide_point cp)"
    using decode_utf8 [of cp "encode cps @ rest" msc] encode_stops [of cps rest] Cons.prems c by simp
  moreover have "text_byte c" using utf8_text_byte [of cp] Cons.prems c by simp
  ultimately show ?case using Cons c part_length_Cons [of c msc "cs @ encode cps @ rest" "length (utf8 cp)" "wide_point cp"]
    by (simp add: encode_def screen_width_def)
qed

end
