(* ===== verification/Usage_Props.thy ===== *)
theory Usage_Props
  imports Usage_Tables Utf8
begin

text \<open>
  Properties of the usage printer: the width of encoded texts, the wrapping of lines with the ring
  buffer as a queue, and when \<open>printUsage\<close> returns.
\<close>

section \<open>Widths\<close>

text \<open>
  C38. \<open>update_length\<close> on a part that is the UTF-8 encoding of Unicode code points and ends at a
  separator or at the end of the text: \<open>len\<close> is the number of its bytes and \<open>screenlen\<close> the number
  of its code points, the wide ones counted twice. This holds with the builtin and with the
  \<open>__builtin_clz\<close> for the Microsoft compiler, which is off by one.
\<close>

theorem update_length_utf8:
  assumes "\<forall>cp\<in>set cps. code_point cp" "part_ends rest"
    and "lp_ptr it = Some p" "p \<le> length s" "drop p s = encode cps @ rest"
  shows "update_length msc s it =
     Inr (it\<lparr>lp_len := length (encode cps), lp_screenlen := screen_width cps\<rparr>)"
  using part_length_encode [OF assms(1,2), of msc] assms(3-5) by (simp add: update_length_def)

lemma sample_bytes:
  "map char_of [0x41, 0xE4, 0xB8, 0xAD, 0xF0, 0x9F, 0x98, 0x80 :: nat] =
     [CHR ''A'', CHR 0xE4, CHR 0xB8, CHR 0xAD, CHR 0xF0, CHR 0x9F, CHR 0x98, CHR 0x80]"
  by code_simp

lemma sample_encoding:
  "encode [0x41, 0x4E2D, 0x1F600] = [CHR ''A'', CHR 0xE4, CHR 0xB8, CHR 0xAD, CHR 0xF0, CHR 0x9F, CHR 0x98, CHR 0x80]"
  "\<forall>cp\<in>set [0x41, 0x4E2D, 0x1F600]. code_point cp"
  unfolding sample_bytes [symmetric] by (simp_all add: encode_def utf8_def code_point_def)

lemma sample_width: "screen_width [0x41, 0x4E2D, 0x1F600] = 5"
  by (simp add: screen_width_def wide_point_def isWideChar_def)

theorem update_length_utf8_witness:
  "update_length True ([CHR ''A'', CHR 0xE4, CHR 0xB8, CHR 0xAD, CHR 0xF0, CHR 0x9F, CHR 0x98, CHR 0x80] @ [TAB] @ ''b'')
     ((line_part_new 0)\<lparr>lp_ptr := Some 0\<rparr>) =
   Inr ((line_part_new 0)\<lparr>lp_ptr := Some 0, lp_len := 8, lp_screenlen := 5\<rparr>)"
  using update_length_utf8 [of "[0x41, 0x4E2D, 0x1F600]" "TAB # ''b''" "(line_part_new 0)\<lparr>lp_ptr := Some 0\<rparr>" 0
      "[CHR ''A'', CHR 0xE4, CHR 0xB8, CHR 0xAD, CHR 0xF0, CHR 0x9F, CHR 0x98, CHR 0x80] @ [TAB] @ ''b''" True]
  unfolding sample_encoding(1) sample_width using sample_encoding(2) by (simp add: part_ends_def)

section \<open>Lines\<close>

text \<open>
  C39. \<open>LineWrapper\<close> keeps a queue of lines. \<open>process\<close> breaks the text into lines that each fit into
  the width of the column, and nothing of the text is lost but at most one space between two
  lines; it appends them to the lines that wait, prints the oldest one and more only if
  they would not fit into the ring of fifteen. \<open>flush\<close> prints what is left, in order, with the
  margin of the column before each line.
\<close>

theorem line_wrapper_wraps:
  assumes "printable data" "ring_ok lw" "2 \<le> lw_width lw"
  shows "\<exists>lw1 lw2 ls ps. wrapped msc (lw_width lw) data ls \<and>
     lw_process msc data lw out = ret (lw1, out @ put_lines (lw_x lw) False ps) \<and>
     texts lw @ ls = ps @ texts lw1 \<and>
     length ps = max (length (texts lw) + length ls - 15) (min 1 (length (texts lw) + length ls)) \<and>
     lw_flush lw1 out' = ret (lw2, out' @ (if texts lw1 = [] then []
       else margin (lw_x lw) @ put_lines (lw_x lw) False (texts lw1) @ [nl])) \<and>
     ring_ok lw2 \<and> texts lw2 = []"
proof -
  obtain lw1 ls ps where p: "lw_process msc data lw out = ret (lw1, out @ put_lines (lw_x lw) False ps)" "ring_ok lw1"
    "wrapped msc (lw_width lw) data ls" "texts lw @ ls = ps @ texts lw1"
    "length ps = max (length (texts lw) + length ls - 15) (min 1 (length (texts lw) + length ls))" "lw_x lw1 = lw_x lw"
    using lw_process_lines [OF assms, of msc out] by blast
  show ?thesis using p lw_flush_lines [OF p(2), of out'] unfolding p(6) by blast
qed

lemma sample_text: "list_all text_byte ''to be or not''"
  by code_simp

theorem line_wrapper_wraps_witness:
  "\<exists>lw1 lw2 ls ps. wrapped True 5 ''to be or not'' ls \<and>
     lw_process True ''to be or not'' (line_wrapper_new (replicate 16 (0, '''')) False 0 5) [] = ret (lw1, put_lines 0 False ps) \<and>
     ls = ps @ texts lw1 \<and> lw_flush lw1 [] = ret (lw2, if texts lw1 = [] then [] else put_lines 0 False (texts lw1) @ [nl])"
proof -
  let ?lw = "line_wrapper_new (replicate 16 (0, '''')) False 0 5"
  have f: "lw_x ?lw = 0" "lw_width ?lw = 5" by (simp_all add: line_wrapper_new_def)
  have "printable ''to be or not''" using sample_text unfolding printable_def list_all_iff .
  moreover have "ring_ok ?lw" "texts ?lw = []" using ring_new [of "replicate 16 (0, '''')"] by simp_all
  moreover have "margin 0 = []" by (simp add: margin_def indent_def)
  ultimately obtain lw1 lw2 ls ps where "wrapped True 5 ''to be or not'' ls"
    "lw_process True ''to be or not'' ?lw [] = ret (lw1, put_lines 0 False ps)" "ls = ps @ texts lw1"
    "lw_flush lw1 [] = ret (lw2, if texts lw1 = [] then [] else put_lines 0 False (texts lw1) @ [nl])"
    using line_wrapper_wraps [of "''to be or not''" ?lw True "[]" "[]"] unfolding f by (auto cong: if_cong)
  then show ?thesis by blast
qed

section \<open>Tables\<close>

text \<open>
  C40. \<open>printUsage\<close> on descriptors whose help texts can be decoded and whose last one ends a table,
  for any width and percentages: it returns when the first descriptor without a
  \<open>shortopt\<close> has no help text, as the terminating entry has none; when that descriptor has
  one, its table is printed again and again.
\<close>

theorem print_usage_returns:
  assumes "descriptors_ok usage" "usage = pre @ d # post" "\<forall>x\<in>set pre. d_shortopt x \<noteq> None" "d_shortopt d = None"
    and "length junk = 16"
  shows "(d_help d = None \<longrightarrow> (\<exists>out. printUsage w msc junk usage width mp pct = ret out)) \<and>
         (d_help d \<noteq> None \<longrightarrow> printUsage w msc junk usage width mp pct = None)"
proof -
  let ?e = "length pre"
  have e: "?e < length usage" "d_shortopt (usage ! ?e) = None" "\<forall>m<?e. d_shortopt (usage ! m) \<noteq> None" "usage ! ?e = d"
    using assms(2-4) by (auto simp: nth_append)
  have w: "1 \<le> uf_width (usage_format_of width mp pct)" by (simp add: usage_format_of_def Let_def)
  have "\<exists>out. printUsage w msc junk usage width mp pct = ret out" if "d_help d = None"
    using print_usage_ret [OF assms(1) e(1-3) _ assms(5), of msc width mp pct] e(4) that by (auto simp: printUsage_def)
  moreover have "printUsage w msc junk usage width mp pct = None" if "d_help d \<noteq> None"
    using tables_loop_hangs [OF assms(1) e(1-3) _ w assms(5), of "line_part_new 0" msc "[]"] e(4) that
    by (simp add: printUsage_def print_usage_def line_part_new_def)
  ultimately show ?thesis by blast
qed

text \<open>A usage with one option, once with the terminating entry in order and once with a help text in it.\<close>

definition sample_usage :: "string option \<Rightarrow> descriptor list" where
  "sample_usage h =
     [\<lparr>d_index = 0, d_type = 0, d_shortopt = Some ''x'', d_longopt = Some ''xx'', d_check_arg = Arg_None,
       d_help = Some (''-x'' @ [TAB] @ ''does x'')\<rparr>,
      \<lparr>d_index = 0, d_type = 0, d_shortopt = None, d_longopt = None, d_check_arg = Arg_None, d_help = h\<rparr>,
      \<lparr>d_index = 0, d_type = 0, d_shortopt = None, d_longopt = None, d_check_arg = Arg_None, d_help = None\<rparr>]"

lemma sample_help: "list_all (\<lambda>c. c \<noteq> nul \<and> uchar c < 0xFE) (''-x'' @ [TAB] @ ''does x'')"
  by code_simp

lemma sample_usage_ok: "h = None \<or> h = Some '''' \<Longrightarrow> descriptors_ok (sample_usage h)"
  using sample_help by (auto simp: descriptors_ok_def sample_usage_def help_ok_def list_all_iff)

theorem print_usage_returns_witness:
  "(\<exists>out. printUsage OStreamWriter True (replicate 16 (0, '''')) (sample_usage None) 80 50 75 = ret out) \<and>
   printUsage OStreamWriter True (replicate 16 (0, '''')) (sample_usage (Some '''')) 80 50 75 = None"
proof -
  have s: "sample_usage h = [hd (sample_usage h)] @ sample_usage h ! 1 # [last (sample_usage h)]" for h
    by (simp add: sample_usage_def)
  have d: "\<forall>x\<in>set [hd (sample_usage h)]. d_shortopt x \<noteq> None" "d_shortopt (sample_usage h ! 1) = None"
    "d_help (sample_usage h ! 1) = h" for h
    by (simp_all add: sample_usage_def)
  show ?thesis
    using print_usage_returns [OF sample_usage_ok s d(1,2), of None "replicate 16 (0, '''')" OStreamWriter True 80 50 75]
      print_usage_returns [OF sample_usage_ok s d(1,2), of "Some ''''" "replicate 16 (0, '''')" OStreamWriter True 80 50 75]
    unfolding d(3) by simp
qed

section \<open>Indentation\<close>

text \<open>
  \<open>indent\<close> to column 0 breaks the line and leaves \<open>x\<close> where it was, so that the next column is
  taken to lie behind \<open>x\<close> and another line is broken.
\<close>

lemma indent_to_margin: "0 < x \<Longrightarrow> indent out x 0 = (out @ [nl], x)"
  by (simp add: indent_def emit_def)

lemma cells_broken_apart:
  "print_usage True (replicate 16 (0, []))
     [\<lparr>d_index = 0, d_type = 0, d_shortopt = Some [], d_longopt = Some [], d_check_arg = Arg_None,
       d_help = Some (''123'' @ [TAB] @ ''bb'' @ [TAB] @ ''c'')\<rparr>,
      \<lparr>d_index = 0, d_type = 0, d_shortopt = None, d_longopt = None, d_check_arg = Arg_None, d_help = None\<rparr>] 3 50 75 =
   ret [''123'', nl, ''bb'', nl, '' '', '' '', ''c'', nl]"
  by code_simp

end
