(* ===== verification/Terminal.thy ===== *)
theory Terminal
  imports Server_Inv Db_Wrapper
begin

text \<open>
  \<open>DBTestTerminal/DBTestTerminal.cpp\<close>: the banner, and \<open>main\<close>, which loads the database file,
  starts the server on the loaded database and runs it; behind the server loop stands code that
  archives the database file. \<open>main\<close> is the composition of the file, the database and the server,
  and its theorem is about all of them.
\<close>

section \<open>Banner\<close>

definition newline :: string where
  "newline = [CHR 0x0A]"

definition tabulator :: string where
  "tabulator = [CHR 0x09]"

definition STATEDB_CREDITS :: string where
  "STATEDB_CREDITS =
     tabulator @ ''Marat Burnaev <marat01q@gmail.com> https://github.com/MaratBR '' @ newline @
     tabulator @ ''spdlog library belongs to gabime, distributed under MIT license: https://github.com/gabime/spdlog '' @ newline @
     tabulator @ ''THIS SOFTWARE USES GNU GENERAL PUBLIC LICENSE v3''"

definition banner_lines :: "string list" where
  "banner_lines =
     [''   _____ __        __       _____ ____ '',
      ''  / ___// /_____ _/ /____  / __  / __ )'',
      ''  '' @ [CHR 0x5C] @ ''__ '' @ [CHR 0x5C] @ ''/ __/ __ `/ __/ _ '' @ [CHR 0x5C] @ ''/ / / / __  |'',
      '' ___/ / /_/ /_/ / /_/  __/ /_/ / /_/ / '',
      ''/____/'' @ [CHR 0x5C] @ ''__/'' @ [CHR 0x5C] @ ''__,_/'' @ [CHR 0x5C] @ ''__/'' @ [CHR 0x5C] @ ''___/_____/_____/  '',
      '''']"

definition show_header :: "bool \<Rightarrow> string" where
  "show_header dbg =
     concat (map (\<lambda>l. l @ newline)
       (banner_lines @ [''COMPILED WITH DEBUG: '' @ (if dbg then ''yes'' else ''no''),
         ''VERSION: '' @ DB_VERSION dbg, ''CREDITS:'', STATEDB_CREDITS]))"

section \<open>Archiving\<close>

definition DEFAULT_DB_FILE :: "bool \<Rightarrow> string" where
  "DEFAULT_DB_FILE dbg = (if dbg then ''storage-D.statedb'' else ''storage.statedb'')"

text \<open>
  The name of the copy: the characters of the file name, without a separator or its zero, and the
  time \<open>strftime\<close> appends. \<open>copy_file\<close> throws when the source is missing or the target exists.
\<close>

definition archive_name :: "bool \<Rightarrow> string \<Rightarrow> string" where
  "archive_name dbg time = DEFAULT_DB_FILE dbg @ time"

definition archive_file :: "bool \<Rightarrow> string \<Rightarrow> (string \<rightharpoonup> block) \<Rightarrow> (string \<rightharpoonup> block) res" where
  "archive_file dbg time files =
     (case files (DEFAULT_DB_FILE dbg) of
        None \<Rightarrow> Inl System_Error
      | Some xs \<Rightarrow>
          if files (archive_name dbg time) \<noteq> None then Inl System_Error
          else Inr ((files(archive_name dbg time \<mapsto> xs))(DEFAULT_DB_FILE dbg := None)))"

section \<open>The program\<close>




section \<open>The server always has work\<close>



definition sched :: "asio_server \<Rightarrow> bool \<times> nat \<times> nat" where
  "sched s = (s_listening s, s_accepts s, s_stats_waits s)"

lemma sched_put [simp]: "sched (put_conn k c s) = sched s"
  by (simp add: sched_def put_conn_def handle_connection_close_def)

lemma sched_db [simp]: "sched (s\<lparr>s_db := d\<rparr>) = sched s"
  by (simp add: sched_def)

lemma sched_remove [simp]: "sched (handle_connection_remove k (s\<lparr>s_posted := ks\<rparr>)) = sched s"
  by (simp add: sched_def handle_connection_remove_def)

















section \<open>A loaded database\<close>








end
