(* ===== verification/Utilities.thy ===== *)
theory Utilities
  imports Bytes
begin

text \<open>
  The helpers in \<open>net_utils.cpp\<close>, \<open>format_utils.cpp\<close>, \<open>format_utils.h\<close>, \<open>logging.h\<close> and
  \<open>log_utils.h\<close>: skipping bytes of a socket, texts for durations and wide strings, and the names
  of the loggers.
\<close>

section \<open>Skipping bytes\<close>

definition NET_TRASH_BUF_SIZE :: int where
  "NET_TRASH_BUF_SIZE = 256"

text \<open>The conversion of an \<open>int\<close> to \<open>size_t\<close>.\<close>

definition to_size :: "int \<Rightarrow> size_t" where
  "to_size n = nat (n mod 2 ^ 64)"

text \<open>
  What skipping does next: read at most so many bytes into the buffer, \<open>n\<close> being left, or call
  the handler with the error of the last read.
\<close>

datatype skip = Skip_read int size_t | Skip_done bool

definition async_skip_impl :: "int \<Rightarrow> bool \<Rightarrow> size_t \<Rightarrow> skip res" where
  "async_skip_impl n ec bytes_transferred =
     (if \<not> bytes_transferred \<le> to_size n then Inl Assert_Failed
      else let n' = i32 (n - int bytes_transferred)
           in if ec \<or> n' = 0 then Inr (Skip_done ec)
              else Inr (Skip_read n' (to_size (min NET_TRASH_BUF_SIZE n'))))"

text \<open>A buffer of a negative size is refused by \<open>new\<close>.\<close>

definition async_skip_bytes :: "int \<Rightarrow> skip res" where
  "async_skip_bytes n =
     (if n < 0 then Inl System_Error else Inr (Skip_read n (to_size (min NET_TRASH_BUF_SIZE n))))"

text \<open>\<open>skip_bytes\<close> reads once; the size of that read.\<close>

definition skip_bytes :: "int \<Rightarrow> size_t res" where
  "skip_bytes n = (if n < 0 then Inl System_Error else Inr (to_size (min NET_TRASH_BUF_SIZE n)))"

text \<open>A run over the completions of the reads.\<close>

fun skip_run :: "skip \<Rightarrow> (bool \<times> size_t) list \<Rightarrow> skip res" where
  "skip_run (Skip_read n k) ((ec, bytes) # cs) = bindr (async_skip_impl n ec bytes) (\<lambda>s. skip_run s cs)"
| "skip_run s cs = Inr s"

lemma to_size_nonneg: "0 \<le> n \<Longrightarrow> n < 2 ^ 31 \<Longrightarrow> to_size n = nat n"
  by (simp add: to_size_def)

definition skip_ok :: "skip \<Rightarrow> bool" where
  "skip_ok s = (case s of Skip_read n k \<Rightarrow> 0 \<le> n \<and> n < 2 ^ 31 \<and> int k = min 256 n | Skip_done _ \<Rightarrow> True)"

text \<open>
  With completions that stay within their reads nothing is read beyond the \<open>n\<close> bytes, no read is
  larger than the first, and the handler is called exactly when they are all read.
\<close>

lemma async_skip_step:
  assumes "skip_ok (Skip_read n k)" "bytes \<le> k"
  shows "\<exists>s. async_skip_impl n False bytes = Inr s \<and> skip_ok s \<and>
     (if int bytes = n then s = Skip_done False
      else s = Skip_read (n - int bytes) (nat (min 256 (n - int bytes))) \<and> nat (min 256 (n - int bytes)) \<le> k)"
proof -
  have n: "0 \<le> n" "n < 2 ^ 31" "int k = min 256 n" using assms(1) by (simp_all add: skip_ok_def)
  have b: "int bytes \<le> n" "int bytes \<le> 256" using assms(2) n(3) by simp_all
  then have i: "i32 (n - int bytes) = n - int bytes" "to_size n = nat n"
    "to_size (min 256 (n - int bytes)) = nat (min 256 (n - int bytes))"
    using n by (simp_all add: to_size_nonneg)
  then show ?thesis using n b
    by (auto simp: async_skip_impl_def NET_TRASH_BUF_SIZE_def skip_ok_def Let_def)
qed

lemma skip_run_reads:
  "skip_ok (Skip_read n k) \<Longrightarrow> \<forall>b\<in>set bs. 0 < b \<and> b \<le> 256 \<Longrightarrow> sum_list bs \<le> nat n \<Longrightarrow> 0 < n \<Longrightarrow>
     skip_run (Skip_read n k) (map (Pair False) bs) =
       Inr (if int (sum_list bs) = n then Skip_done False
            else Skip_read (n - int (sum_list bs)) (nat (min 256 (n - int (sum_list bs)))))"
proof (induction bs arbitrary: n k)
  case Nil
  then show ?case by (auto simp: skip_ok_def)
next
  case (Cons b bs)
  have "b \<le> k" using Cons.prems by (auto simp: skip_ok_def)
  from async_skip_step [OF Cons.prems(1) this] obtain s where s: "async_skip_impl n False b = Inr s" "skip_ok s"
    "if int b = n then s = Skip_done False
     else s = Skip_read (n - int b) (nat (min 256 (n - int b)))" by (auto split: if_splits)
  show ?case
  proof (cases "int b = n")
    case True
    then have "nat n = b" by simp
    then have "sum_list bs = 0" using Cons.prems(3) by simp
    then have "bs = []" using Cons.prems(2) by (cases bs) simp_all
    then show ?thesis using True s by simp
  next
    case False
    have "b \<le> nat n" using Cons.prems(3) by simp
    then have "int b \<le> n" using Cons.prems(4) by linarith
    then show ?thesis using False s Cons.IH [of "n - int b" "nat (min 256 (n - int b))"] Cons.prems(2,3)
      by (auto simp: algebra_simps)
  qed
qed

lemma skip_bytes_once: "256 < n \<Longrightarrow> n < 2 ^ 31 \<Longrightarrow> skip_bytes n = Inr 256"
  by (simp add: skip_bytes_def NET_TRASH_BUF_SIZE_def to_size_nonneg)

section \<open>Texts\<close>

fun nat_text :: "nat \<Rightarrow> string" where
  "nat_text n = (if n < 10 then [char_of (48 + n)] else nat_text (n div 10) @ [char_of (48 + n mod 10)])"

declare nat_text.simps [simp del]

definition int_text :: "int \<Rightarrow> string" where
  "int_text i = (if i < 0 then ''-'' @ nat_text (nat (- i)) else nat_text (nat i))"

text \<open>\<open>std::setw\<close> with the fill character 0.\<close>

definition fill_left :: "nat \<Rightarrow> string \<Rightarrow> string" where
  "fill_left width s = replicate (width - length s) (CHR ''0'') @ s"

definition format_duration :: "int \<Rightarrow> string" where
  "format_duration c =
     int_text (cdiv (cdiv c 3600000) 24)
     @ '':'' @ fill_left 2 (int_text (cmod (cdiv c 3600000) 24))
     @ '':'' @ fill_left 2 (int_text (cmod (cdiv c 60000) 60))
     @ '':'' @ fill_left 2 (int_text (cmod (cdiv c 1000) 60))
     @ '':'' @ fill_left 3 (int_text (cmod c 1000))"

lemma nat_text_length: "n < 10 ^ k \<Longrightarrow> 0 < k \<Longrightarrow> length (nat_text n) \<le> k"
proof (induction n arbitrary: k rule: nat_text.induct)
  case (1 n)
  show ?case
  proof (cases "n < 10")
    case True
    then show ?thesis using 1(3) by (simp add: nat_text.simps [of n])
  next
    case False
    then obtain j where j: "k = Suc j" "0 < j" using 1(2,3) by (cases k; cases "k - 1") auto
    have "n div 10 < 10 ^ j" using 1(2) j(1) by (simp add: less_mult_imp_div_less mult.commute)
    then show ?thesis using 1(1) [OF False] j False by (simp add: nat_text.simps [of n])
  qed
qed

text \<open>Of a duration that is not negative every field but the days has its fixed length.\<close>

lemma field_length:
  assumes "0 < d" "d \<le> 10 ^ k" "0 < k"
  shows "length (fill_left k (int_text (i mod d))) = k"
proof -
  have "0 \<le> i mod d" "i mod d < 10 ^ k"
    using pos_mod_sign [of d i] pos_mod_bound [of d i] assms by linarith+
  then have "nat (i mod d) < 10 ^ k" by (simp add: nat_less_iff)
  from nat_text_length [OF this assms(3)] show ?thesis
    using \<open>0 \<le> i mod d\<close> by (simp add: fill_left_def int_text_def)
qed

lemma format_duration_nonneg:
  assumes "0 \<le> c"
  shows "format_duration c =
     int_text (c div 3600000 div 24)
     @ '':'' @ fill_left 2 (int_text (c div 3600000 mod 24))
     @ '':'' @ fill_left 2 (int_text (c div 60000 mod 60))
     @ '':'' @ fill_left 2 (int_text (c div 1000 mod 60))
     @ '':'' @ fill_left 3 (int_text (c mod 1000))"
proof -
  have "0 \<le> c div d" if "0 < d" for d using assms that by (rule pos_imp_zdiv_nonneg_iff [THEN iffD2, rotated])
  then show ?thesis unfolding format_duration_def
    by (simp only: cdiv_nonneg cmod_nonneg assms zero_less_numeral)
qed

lemma format_duration_length:
  assumes "0 \<le> c"
  shows "length (format_duration c) = length (int_text (c div 3600000 div 24)) + 13"
proof -
  have two: "length (fill_left 2 (int_text (i mod d))) = 2" if "0 < d" "d \<le> 100" for i d
    by (rule field_length) (use that in simp_all)
  have three: "length (fill_left 3 (int_text (c mod 1000))) = 3"
    by (rule field_length) simp_all
  have "length '':'' = 1" "(0::int) < 24" "(24::int) \<le> 100" "(0::int) < 60" "(60::int) \<le> 100" by simp_all
  then show ?thesis
    unfolding format_duration_nonneg [OF assms] length_append three by (simp only: two)
qed

text \<open>
  \<open>to_wstring\<close>: each character is converted to a 16-bit \<open>wchar_t\<close>. The version for C strings
  ends one character early, and before the beginning for an empty string.
\<close>

definition wchar :: "char \<Rightarrow> 16 word" where
  "wchar c = scast (of_char c :: 8 word)"

definition to_wstring_c :: "string \<Rightarrow> 16 word list res" where
  "to_wstring_c cstr = (if cstr = [] then Inl Out_Of_Bounds else Inr (map wchar (take (length cstr - 1) cstr)))"

definition to_wstring :: "string \<Rightarrow> 16 word list" where
  "to_wstring str = map wchar str"

lemma to_wstring_c_drops: "to_wstring_c (s @ [c]) = Inr (to_wstring s)"
  by (simp add: to_wstring_c_def to_wstring_def)

definition get_tab :: "size_t \<Rightarrow> string" where
  "get_tab count = replicate count (CHR 0x09)"

section \<open>Loggers\<close>

text \<open>The registry of \<open>spdlog\<close> maps the name of a logger to its pattern.\<close>

type_synonym registry = "string \<rightharpoonup> string"

definition log_pattern :: "bool \<Rightarrow> string" where
  "log_pattern dbg = ''%^%L%$ [%b %d, %Y %H:%M:%S.%e] [thread %t] '' @ (if dbg then ''(%@) '' else '''') @ ''[%n] %v''"

definition construct_logger :: "bool \<Rightarrow> string \<Rightarrow> registry \<Rightarrow> registry res" where
  "construct_logger dbg name reg =
     (if reg name \<noteq> None then Inl System_Error else Inr (reg(name \<mapsto> log_pattern dbg)))"

definition get_logger :: "bool \<Rightarrow> string \<Rightarrow> registry \<Rightarrow> (string \<times> registry) res" where
  "get_logger dbg name reg =
     (let name' = ''StDB/'' @ name
      in if reg name' = None then bindr (construct_logger dbg name' reg) (\<lambda>reg'. Inr (name', reg'))
         else Inr (name', reg))"

definition get_logger_with_prefix :: "bool \<Rightarrow> string \<Rightarrow> string \<Rightarrow> registry \<Rightarrow> (string \<times> registry) res" where
  "get_logger_with_prefix dbg prefix name = get_logger dbg (prefix @ ''/'' @ name)"

definition get_connection_logger :: "bool \<Rightarrow> string \<Rightarrow> registry \<Rightarrow> (string \<times> registry) res" where
  "get_connection_logger dbg = get_logger_with_prefix dbg ''CONN''"

definition get_driver_logger :: "bool \<Rightarrow> string \<Rightarrow> registry \<Rightarrow> (string \<times> registry) res" where
  "get_driver_logger dbg = get_logger_with_prefix dbg ''DB_DRIVER''"

definition get_server_logger :: "bool \<Rightarrow> string \<Rightarrow> registry \<Rightarrow> (string \<times> registry) res" where
  "get_server_logger dbg = get_logger_with_prefix dbg ''SERVER''"

definition get_global_logger :: "bool \<Rightarrow> registry \<Rightarrow> (string \<times> registry) res" where
  "get_global_logger dbg = get_logger dbg ''G''"

text \<open>Asking for a logger never fails, and a second time it changes nothing.\<close>

lemma get_logger_twice:
  "\<exists>reg'. get_logger dbg name reg = Inr (''StDB/'' @ name, reg') \<and>
     get_logger dbg name reg' = Inr (''StDB/'' @ name, reg') \<and> dom reg' = insert (''StDB/'' @ name) (dom reg)"
  by (auto simp: get_logger_def construct_logger_def Let_def)

end
