(* ===== verification/Spec2Isabelle.thy ===== *)
theory Spec2Isabelle
  imports Bpt_Props Bigint_Props Store_Props Db_Props Container_Props Server_Props Option_Props Usage_Props
    Terminal Utilities
begin

text \<open>
  StateDB: an in-memory key-value database with a TCP front end, after the C++ sources under
  \<open>src/StateDatabase\<close> and \<open>src/DBTestTerminal\<close>.

  \<^bold>\<open>The program.\<close> A client sends a request, a preamble with a command and a size and then a body,
  to the server (\<open>asio_server\<close>). The connection (\<open>tcp_connection\<close>) reads both into its typed
  buffer (\<open>dynamic_storage\<close>) and hands the body to the handler of the command. \<open>SET\<close> parses the
  body as a key, a type identifier and a value: the implementor of the type (\<open>dtypes\<close>) loads the
  value, and the database (\<open>db\<close>) stores the object in a B+ tree under the hash of its key. The new
  value is then sent to all connections. The terminal program opens the database file
  (\<open>db_wrapper\<close>) and runs the server.

  \<^bold>\<open>How code is rendered.\<close> Classes are records, enumerations and tagged unions datatypes, machine
  integers words or integers with their wrap-around written out (\<open>i32\<close>, \<open>i64\<close>, \<open>size_t\<close> of 64 bits).
  Straight-line code has a result in \<open>'a res\<close>, a fault or a value, where the faults are failed
  assertions, the kinds of undefined behaviour and the exceptions. Code with loops that may not end
  has a result in \<open>'a comp\<close>, in which \<open>None\<close> is a run that does not return; such loops are
  \<open>partial_function (option)\<close>, so no bound or fuel is chosen anywhere and a property that says that
  code returns says so in its conclusion. Assertions are enabled, as in the debug build the project
  files describe. What uninitialised memory holds is a parameter (\<open>mem\<close>, \<open>junk\<close>, \<open>p\<close>).

  \<^bold>\<open>Shared theories.\<close> \<open>Prelude\<close>: faults, results, C conversions, lists and bounds. \<open>Bytes\<close>: allocated
  blocks as lists of characters, zero-terminated strings, little-endian numbers. \<open>Kv_Spec\<close>: sorted
  association lists and the locale \<open>kv_store\<close>, the contract of an ordered key-value store, with the
  facts a client of one gets.

  \<^bold>\<open>The B+ tree\<close> (\<open>list.h\<close>, \<open>leaf.h\<close>, \<open>bpt_base.h\<close>, \<open>bpt_internal.h\<close>, \<open>bpt.h\<close>). \<open>Leaf_List\<close> models the
  list of one leaf and interprets \<open>kv_store\<close> on it (\<open>ll\<close>); \<open>Bpt\<close> models leaves, internal nodes and the
  tree on an explicit heap, since \<open>split\<close> leaves list nodes shared between nodes. \<open>Bpt_Inv\<close> states
  the invariant through a ghost tree that names the objects of the heap; \<open>Bpt_Node\<close>, \<open>Bpt_Search\<close>,
  \<open>Bpt_Set\<close>, \<open>Bpt_Delete\<close> and \<open>Bpt_Correct\<close> prove what each operation does to it; \<open>Bpt_Tree\<close>
  interprets \<open>kv_store\<close> on \<open>tree_get\<close>, \<open>tree_set\<close> and \<open>tree_iterate\<close> (\<open>bpt\<close>). \<open>Bpt_Props\<close>: runs of
  \<open>set\<close> answer as a map does and iterate in key order, for every \<open>ORDER\<close> from 3 on (the program uses
  6); \<open>delete_key\<close> is right where it is, and dereferences null or never returns elsewhere.

  \<^bold>\<open>Big integers\<close> (\<open>bigint.h\<close>). \<open>Bigint\<close>, \<open>Bigint_Text\<close> and \<open>Bigint_Mul\<close> model the class, its text and
  its product; \<open>Bigint_Val\<close>, \<open>Bigint_Mach\<close>, \<open>Bigint_Div\<close>, \<open>Bigint_Kar\<close> and \<open>Bigint_Prod\<close> relate each
  operation to the value of the number. \<open>Bigint_Props\<close>: all operations are exact on normalised
  numbers, products up to 1365 digits in base \<open>10 ^ 9\<close>, where the coefficients of the Karatsuba
  product and the carry still fit, and the limits of the machine integers beyond that.

  \<^bold>\<open>Values and objects\<close> (\<open>dtypes.h\<close>, \<open>dtypes.cpp\<close>, \<open>dtypes_utils.h\<close>, \<open>memory_ptr\<close>, \<open>object\<close>, \<open>hash.h\<close>,
  \<open>flags.h\<close>). \<open>Dtypes\<close> models storages, the implementors, the type table and objects; \<open>Dtypes_Codec\<close>
  states the locale \<open>value_codec\<close>, writing a value and loading it again, and interprets it on the
  implementors (\<open>impl\<close>). \<open>Hash\<close> models the hash of the keys and the flag bytes. \<open>Store_Props\<close>: the
  round trip, and exactly when loading throws \<open>unsufficient_space\<close>.

  \<^bold>\<open>Database and file\<close> (\<open>abstract_stream\<close>, \<open>utils\<close>, \<open>db_vector.h\<close>, \<open>segment_container.h\<close>, \<open>db_header\<close>,
  \<open>db\<close>, \<open>db_wrapper.h\<close>). \<open>Streams\<close> models \<open>std::fstream\<close> as the content of a file with a position and
  the wrappers and containers over it, \<open>Db_Header\<close> the header, \<open>Db\<close> the database over the tree and
  \<open>Db_Wrapper\<close> the opening, checking and closing of the file. \<open>Container_Props\<close> and \<open>Db_Props\<close>:
  \<open>set_value\<close> updates a map from hashes to objects, the header survives a round trip, what loading
  a file does on each of its branches, and that containers cannot be read back.

  \<^bold>\<open>Network\<close> (\<open>commands.h\<close>, \<open>net_message\<close>, \<open>dispatcher.h\<close>, \<open>dynamic_storage.h\<close>, \<open>connection\<close>,
  \<open>asio_server\<close>). \<open>Dyn_Storage\<close>, \<open>Net_Message\<close>, \<open>Connection\<close> and \<open>Server\<close> follow these files. The
  socket, the timers and the io service are events: \<open>server_step\<close> runs the handler of one completed
  operation, with any outcome the library allows, and \<open>run_events\<close> a sequence of them. \<open>Net_Inv\<close> and
  \<open>Server_Inv\<close> prove the invariant operation by operation and for all reachable states.
  \<open>Net_Props\<close> and \<open>Server_Props\<close>: the invariant, the order of responses, \<open>SET\<close> and \<open>GET\<close> on their
  branches, composed down to the tree, and the requests that end the server.

  \<^bold>\<open>Terminal\<close> (\<open>DBTestTerminal.cpp\<close>). \<open>Terminal\<close> composes file, database and server into \<open>main\<close>, and
  shows that the server loop does not come to its end.

  \<^bold>\<open>Command line\<close> (\<open>optionparser.h\<close>). \<open>Option_List\<close> models the circular lists of options with their
  tagged 64-bit pointers, \<open>Option_Parser\<close> the parser with \<open>Stats\<close>. \<open>Option_Store\<close> describes the
  arrays after some options were stored; \<open>Option_Run\<close> proves the loop once for every action that
  satisfies the locale \<open>parse_action\<close>, which \<open>Option_Props\<close> interprets on the two actions of the code
  (\<open>counting\<close>, \<open>storing\<close>). \<open>Option_Props\<close>: the lists hold the options in order, the sizes suffice,
  the arguments are rearranged stably. The functions that check an argument are parameters.

  \<^bold>\<open>Usage printer\<close> (\<open>optionparser.h\<close>, \<open>PrintUsageImplementation\<close>). \<open>Usage_Parts\<close> models the writers, the
  width of encoded characters and \<open>LinePartIterator\<close>; \<open>Line_Wrapper\<close> the ring buffer of sixteen slots
  and the breaking of lines; \<open>Usage_Printer\<close> the column widths, the layout and \<open>printUsage\<close>.
  \<open>Line_Queue\<close> states the ring as a bounded queue (locale \<open>line_queue\<close>, interpretation \<open>ring\<close>, which
  holds fifteen lines), \<open>Wrap_Text\<close> what the lines are, \<open>Utf8\<close> compares the decoding with the UTF-8
  encoding, \<open>Usage_Walk\<close> and \<open>Usage_Tables\<close> show that the loops over parts, rows and widths end.
  \<open>Usage_Props\<close>: the widths, the wrapping as a queue of lines, and when \<open>printUsage\<close> returns. Lengths
  of texts are natural numbers here: they fit an \<open>int\<close> for texts below 2 GB.

  \<^bold>\<open>Helpers\<close> (\<open>net_utils\<close>, \<open>format_utils\<close>, \<open>logging.h\<close>, \<open>log_utils.h\<close>). \<open>Utilities\<close>: skipping bytes of a
  socket, durations and wide strings as text, and the names of loggers.

  \<^bold>\<open>Not modelled.\<close> The logging library \<open>spdlog\<close> with the formatting library bundled in it, which is
  vendored twice and only receives log lines: the registry of loggers is a map from names to
  patterns, and log messages are left out everywhere else. Precompiled headers, macros for
  namespaces and debugging, and the selection of the Windows version, which have no behaviour.
  Of \<open>boost\<close> and the standard library, which are not part of the sources, the model has what the
  sources use: file streams, the file system calls and asynchronous operations as described above.
  The declarations \<open>clear_all\<close>, \<open>inc_handler\<close> and \<open>dec_handler\<close> of the server have no definition.
\<close>

end
